(* ===== verification/Prelude.thy ===== *)
theory Prelude
  imports Complex_Main "HOL-Library.Multiset"
begin

text \<open>
  Shared material of the development: the collections of rewrite rules the component
  theories extend, early-return chains (\<open>first_err\<close>), the insertion-ordered dictionary that
  JavaScript objects and \<open>Map\<close>s are, grouping and counting loops over it, and the stable sort
  of \<open>Array.prototype.sort\<close>. The interfaces \<open>dictionary\<close> and \<open>preference\<close> are locales; both are
  interpreted here on the definitions every component uses.
\<close>

named_theorems js_simps \<open>unfolding of the language primitives\<close>
named_theorems chk_simps \<open>what an accepted check means\<close>

section \<open>Chains of early returns\<close>

text \<open>A validator is a list of checks; it returns the message of the first one that fails.\<close>

fun first_err :: "'e option list \<Rightarrow> 'e option" where
  "first_err [] = None"
| "first_err (None # cs) = first_err cs"
| "first_err (Some e # cs) = Some e"

lemma first_err_None_iff [chk_simps]: "first_err cs = None \<longleftrightarrow> (\<forall>c \<in> set cs. c = None)"
  by (induction cs rule: first_err.induct) auto

lemma first_err_Cons: "first_err (c # cs) = None \<longleftrightarrow> c = None \<and> first_err cs = None"
  by (simp add: first_err_None_iff)

lemma first_err_Some_mem: "first_err cs = Some e \<Longrightarrow> Some e \<in> set cs"
  by (induction cs rule: first_err.induct) auto

lemma first_err_append: "first_err (xs @ ys) = (case first_err xs of None \<Rightarrow> first_err ys | r \<Rightarrow> r)"
  by (induction xs rule: first_err.induct) auto

text \<open>\<open>if (bad) return e;\<close>\<close>

definition fail_if :: "bool \<Rightarrow> 'e \<Rightarrow> 'e option" where
  "fail_if bad e = (if bad then Some e else None)"

lemma fail_if_None [chk_simps, simp]: "fail_if b e = None \<longleftrightarrow> \<not> b"
  by (simp add: fail_if_def)

lemma fail_if_Some [simp]: "fail_if b e = Some e' \<longleftrightarrow> b \<and> e = e'"
  by (auto simp: fail_if_def)

lemma Some_fail_if [simp]: "Some e' = fail_if b e \<longleftrightarrow> b \<and> e' = e"
  by (auto simp: fail_if_def)

section \<open>Insertion-ordered dictionaries\<close>

text \<open>
  Setting an existing key keeps its position, setting a new one appends: the order in which a
  JavaScript \<open>Map\<close> (and the string keys of an object) is enumerated.
\<close>

fun dput :: "'k \<Rightarrow> 'v \<Rightarrow> ('k \<times> 'v) list \<Rightarrow> ('k \<times> 'v) list" where
  "dput k v [] = [(k, v)]"
| "dput k v ((k', v') # d) = (if k = k' then (k, v) # d else (k', v') # dput k v d)"

definition dget :: "('k \<times> 'v) list \<Rightarrow> 'k \<Rightarrow> 'v option" where
  "dget d k = map_of d k"

definition ddel :: "'k \<Rightarrow> ('k \<times> 'v) list \<Rightarrow> ('k \<times> 'v) list" where
  "ddel k d = filter (\<lambda>(k', v). k' \<noteq> k) d"

definition dkeys :: "('k \<times> 'v) list \<Rightarrow> 'k list" where
  "dkeys d = map fst d"

definition dwf :: "('k \<times> 'v) list \<Rightarrow> bool" where
  "dwf d \<longleftrightarrow> distinct (map fst d)"

lemma dget_dput [simp]: "dget (dput k v d) x = (if x = k then Some v else dget d x)"
  by (induction k v d rule: dput.induct) (auto simp: dget_def)

lemma set_fst_dput: "fst ` set (dput k v d) = insert k (fst ` set d)"
  by (induction k v d rule: dput.induct) auto

lemma dwf_dput [simp]: "dwf d \<Longrightarrow> dwf (dput k v d)"
proof (induction k v d rule: dput.induct)
  case (2 k v k' v' d)
  then show ?case using set_fst_dput [of k v d] by (auto simp: dwf_def)
qed (simp add: dwf_def)

lemma dwf_Nil [simp]: "dwf []"
  by (simp add: dwf_def)

lemma dwf_ddel [simp]: "dwf d \<Longrightarrow> dwf (ddel k d)"
  by (simp add: dwf_def ddel_def distinct_map_filter)

lemma dget_ddel [simp]: "dget (ddel k d) x = (if x = k then None else dget d x)"
  by (induction d) (auto simp: dget_def ddel_def)

lemma dget_Nil [simp]: "dget [] k = None"
  by (simp add: dget_def)

lemma dget_Cons: "dget ((a, b) # d) k = (if k = a then Some b else dget d k)"
  by (simp add: dget_def)

lemma dget_None_iff: "dget d k = None \<longleftrightarrow> k \<notin> set (dkeys d)"
  by (simp add: dget_def dkeys_def map_of_eq_None_iff)

lemma dget_Some_mem: "dget d k = Some v \<Longrightarrow> (k, v) \<in> set d"
  by (simp add: dget_def map_of_SomeD)

lemma dget_mem: "dwf d \<Longrightarrow> (k, v) \<in> set d \<Longrightarrow> dget d k = Some v"
  by (simp add: dget_def dwf_def map_of_is_SomeI)

text \<open>Keys keep their order; a new one goes last.\<close>

lemma dkeys_dput: "dkeys (dput k v d) = (if k \<in> set (dkeys d) then dkeys d else dkeys d @ [k])"
  by (induction k v d rule: dput.induct) (auto simp: dkeys_def)

text \<open>The interface a component relies on when it keeps a dictionary.\<close>

locale dictionary =
  fixes put :: "'k \<Rightarrow> 'v \<Rightarrow> 'm \<Rightarrow> 'm"
    and get :: "'m \<Rightarrow> 'k \<Rightarrow> 'v option"
    and keys :: "'m \<Rightarrow> 'k list"
    and empty :: "'m"
    and inv :: "'m \<Rightarrow> bool"
  assumes get_put: "get (put k v m) x = (if x = k then Some v else get m x)"
    and get_empty: "get empty x = None"
    and keys_get: "x \<in> set (keys m) \<longleftrightarrow> get m x \<noteq> None"
    and keys_order: "keys (put k v m) = (if k \<in> set (keys m) then keys m else keys m @ [k])"
    and inv_empty: "inv empty"
    and inv_put: "inv m \<Longrightarrow> inv (put k v m)"
    and inv_distinct: "inv m \<Longrightarrow> distinct (keys m)"
begin

text \<open>
  \<open>for (const x of xs) m.set(key(x), f(m.get(key(x)), x))\<close>: what the loop has stored when it ends.
\<close>

lemma fold_get:
  "get (fold (\<lambda>x m. put (key x) (f (get m (key x)) x) m) xs m) k =
     fold (\<lambda>x r. Some (f r x)) (filter (\<lambda>x. key x = k) xs) (get m k)"
  by (induction xs arbitrary: m) (auto simp: get_put)

lemma fold_inv: "inv m \<Longrightarrow> inv (fold (\<lambda>x m. put (key x) (f (get m (key x)) x) m) xs m)"
  by (induction xs arbitrary: m) (auto simp: inv_put)

lemma fold_keys:
  "set (keys (fold (\<lambda>x m. put (key x) (f (get m (key x)) x) m) xs m)) = set (keys m) \<union> key ` set xs"
  by (induction xs arbitrary: m) (auto simp: keys_order)

lemma fold_keys_distinct:
  "inv m \<Longrightarrow> distinct (keys (fold (\<lambda>x m. put (key x) (f (get m (key x)) x) m) xs m))"
  by (rule inv_distinct) (rule fold_inv)

end

interpretation od: dictionary dput dget dkeys "[]" dwf
proof (unfold_locales, goal_cases)
  case (3 x m)
  then show ?case by (metis dget_None_iff)
qed (simp_all add: dkeys_dput, simp add: dwf_def dkeys_def)

text \<open>The loop of the code: group values by key, or count occurrences.\<close>

definition dupd :: "('a \<Rightarrow> 'k) \<Rightarrow> ('v option \<Rightarrow> 'a \<Rightarrow> 'v) \<Rightarrow> 'a \<Rightarrow> ('k \<times> 'v) list \<Rightarrow> ('k \<times> 'v) list" where
  "dupd key f x d = dput (key x) (f (dget d (key x)) x) d"

definition dloop :: "('a \<Rightarrow> 'k) \<Rightarrow> ('v option \<Rightarrow> 'a \<Rightarrow> 'v) \<Rightarrow> 'a list \<Rightarrow> ('k \<times> 'v) list \<Rightarrow> ('k \<times> 'v) list" where
  "dloop key f xs d = fold (dupd key f) xs d"

lemma dupd_eta: "dupd key f = (\<lambda>x m. dput (key x) (f (dget m (key x)) x) m)"
  by (simp add: dupd_def fun_eq_iff)

lemma dloop_get:
  "dget (dloop key f xs d) k = fold (\<lambda>x r. Some (f r x)) (filter (\<lambda>x. key x = k) xs) (dget d k)"
  unfolding dloop_def dupd_eta by (rule od.fold_get)

lemma dloop_wf: "dwf d \<Longrightarrow> dwf (dloop key f xs d)"
  unfolding dloop_def dupd_eta by (rule od.fold_inv)

lemma dloop_keys: "set (dkeys (dloop key f xs d)) = set (dkeys d) \<union> key ` set xs"
  unfolding dloop_def dupd_eta by (rule od.fold_keys)

definition group_by :: "('a \<Rightarrow> 'k) \<Rightarrow> 'a list \<Rightarrow> ('k \<times> 'a list) list" where
  "group_by key xs = dloop key (\<lambda>g x. (case g of None \<Rightarrow> [] | Some ys \<Rightarrow> ys) @ [x]) xs []"

definition tally :: "'k list \<Rightarrow> ('k \<times> nat) list \<Rightarrow> ('k \<times> nat) list" where
  "tally ks d = dloop (\<lambda>k. k) (\<lambda>c k. (case c of None \<Rightarrow> 0 | Some n \<Rightarrow> n) + 1) ks d"

lemma fold_group: "fold (\<lambda>x r. Some ((case r of None \<Rightarrow> [] | Some ys \<Rightarrow> ys) @ [x])) xs r =
    (if xs = [] then r else Some ((case r of None \<Rightarrow> [] | Some ys \<Rightarrow> ys) @ xs))"
  by (induction xs arbitrary: r) (auto split: option.splits)

lemma group_by_get:
  "dget (group_by key xs) k = (let g = filter (\<lambda>x. key x = k) xs in if g = [] then None else Some g)"
  by (simp add: group_by_def dloop_get fold_group Let_def)

lemma group_by_wf [simp]: "dwf (group_by key xs)"
  by (simp add: group_by_def dloop_wf)

lemma group_by_keys: "set (dkeys (group_by key xs)) = key ` set xs"
  by (simp add: group_by_def dloop_keys) (simp add: dkeys_def)

lemma group_by_mem_iff:
  "(k, g) \<in> set (group_by key xs) \<longleftrightarrow> g = filter (\<lambda>x. key x = k) xs \<and> g \<noteq> []"
proof
  assume "(k, g) \<in> set (group_by key xs)"
  then have "dget (group_by key xs) k = Some g" by (simp add: dget_mem)
  then show "g = filter (\<lambda>x. key x = k) xs \<and> g \<noteq> []"
    by (auto simp: group_by_get Let_def split: if_splits)
next
  assume "g = filter (\<lambda>x. key x = k) xs \<and> g \<noteq> []"
  then have "dget (group_by key xs) k = Some g" by (auto simp: group_by_get Let_def)
  then show "(k, g) \<in> set (group_by key xs)" by (rule dget_Some_mem)
qed

lemma fold_tally: "fold (\<lambda>x r. Some ((case r of None \<Rightarrow> 0 | Some n \<Rightarrow> n) + (1::nat))) xs r =
    (if xs = [] then r else Some ((case r of None \<Rightarrow> 0 | Some n \<Rightarrow> n) + length xs))"
  by (induction xs arbitrary: r) (auto split: option.splits)

lemma length_filter_eq_count: "length (filter (\<lambda>x. x = k) xs) = count_list xs k"
  by (induction xs) auto

lemma tally_get:
  "dget (tally ks d) k =
     (if k \<in> set ks then Some ((case dget d k of None \<Rightarrow> 0 | Some n \<Rightarrow> n) + count_list ks k) else dget d k)"
proof -
  have "dget (tally ks d) k = fold (\<lambda>x r. Some ((case r of None \<Rightarrow> 0 | Some n \<Rightarrow> n) + (1::nat)))
      (filter (\<lambda>x. x = k) ks) (dget d k)"
    unfolding tally_def by (rule dloop_get)
  also have "\<dots> = (if k \<in> set ks then Some ((case dget d k of None \<Rightarrow> 0 | Some n \<Rightarrow> n) + count_list ks k)
      else dget d k)"
    unfolding fold_tally by (auto simp: filter_empty_conv length_filter_eq_count)
  finally show ?thesis .
qed

lemma tally_wf: "dwf d \<Longrightarrow> dwf (tally ks d)"
  by (simp add: tally_def dloop_wf)

text \<open>The groups partition the input.\<close>

lemma sum_list_indicator:
  "distinct ks \<Longrightarrow> (\<Sum>k\<leftarrow>ks. if c = k then n else (0::nat)) = (if c \<in> set ks then n else 0)"
  by (induction ks) auto

lemma length_partition:
  assumes "distinct ks" and "\<And>x. x \<in> set xs \<Longrightarrow> key x \<in> set ks"
  shows "(\<Sum>k\<leftarrow>ks. length (filter (\<lambda>x. key x = k) xs)) = length xs"
  using assms(2)
proof (induction xs)
  case (Cons x xs)
  have "(\<Sum>k\<leftarrow>ks. length (filter (\<lambda>y. key y = k) (x # xs))) =
      (\<Sum>k\<leftarrow>ks. (if key x = k then 1 else 0) + length (filter (\<lambda>y. key y = k) xs))"
    by (rule arg_cong [where f = sum_list], rule map_cong) auto
  also have "\<dots> = (\<Sum>k\<leftarrow>ks. if key x = k then 1 else 0) + (\<Sum>k\<leftarrow>ks. length (filter (\<lambda>y. key y = k) xs))"
    by (rule sum_list_addf)
  also have "\<dots> = 1 + length xs"
    using Cons assms(1) by (simp add: sum_list_indicator)
  finally show ?case by simp
qed simp

lemma group_by_lengths: "(\<Sum>(k, g)\<leftarrow>group_by key xs. length g) = length xs"
proof -
  have "map (\<lambda>(k, g). length g) (group_by key xs) =
      map (\<lambda>(k, g). length (filter (\<lambda>x. key x = k) xs)) (group_by key xs)"
    by (rule map_cong) (auto simp: group_by_mem_iff)
  also have "\<dots> = map (\<lambda>k. length (filter (\<lambda>x. key x = k) xs)) (dkeys (group_by key xs))"
    by (simp add: dkeys_def case_prod_unfold)
  finally show ?thesis
    using length_partition [of "dkeys (group_by key xs)" xs key]
    by (simp add: group_by_keys) (use group_by_wf [of key xs] in \<open>simp add: dwf_def dkeys_def\<close>)
qed

text \<open>\<open>[...new Set(xs)]\<close>: the first occurrence of each element, in order.\<close>

fun uniq_onto :: "'a list \<Rightarrow> 'a list \<Rightarrow> 'a list" where
  "uniq_onto seen [] = seen"
| "uniq_onto seen (x # xs) = uniq_onto (if x \<in> set seen then seen else seen @ [x]) xs"

definition uniq :: "'a list \<Rightarrow> 'a list" where
  "uniq xs = uniq_onto [] xs"

lemma set_uniq_onto: "set (uniq_onto seen xs) = set seen \<union> set xs"
  by (induction seen xs rule: uniq_onto.induct) auto

lemma distinct_uniq_onto: "distinct seen \<Longrightarrow> distinct (uniq_onto seen xs)"
  by (induction seen xs rule: uniq_onto.induct) auto

lemma uniq_onto_distinct: "distinct (seen @ xs) \<Longrightarrow> uniq_onto seen xs = seen @ xs"
  by (induction seen xs rule: uniq_onto.induct) auto

lemma set_uniq [simp]: "set (uniq xs) = set xs"
  by (simp add: uniq_def set_uniq_onto)

lemma distinct_uniq [simp]: "distinct (uniq xs)"
  by (simp add: uniq_def distinct_uniq_onto)

lemma uniq_distinct: "distinct xs \<Longrightarrow> uniq xs = xs"
  by (simp add: uniq_def uniq_onto_distinct)

lemma uniq_idem [simp]: "uniq (uniq xs) = uniq xs"
  by (simp add: uniq_distinct)

section \<open>Array.prototype.sort\<close>

text \<open>
  A comparator is abstracted to \<open>before a b\<close>: the code's comparator answers a number that is not
  positive, so \<open>a\<close> may stay in front of \<open>b\<close>. The sort is stable. (For a comparator that is not
  consistent the language leaves the order open; the properties below require a preference.)
\<close>

fun sort_insert :: "('a \<Rightarrow> 'a \<Rightarrow> bool) \<Rightarrow> 'a \<Rightarrow> 'a list \<Rightarrow> 'a list" where
  "sort_insert before x [] = [x]"
| "sort_insert before x (y # ys) = (if before x y then x # y # ys else y # sort_insert before x ys)"

definition js_sort :: "('a \<Rightarrow> 'a \<Rightarrow> bool) \<Rightarrow> 'a list \<Rightarrow> 'a list" where
  "js_sort before xs = foldr (sort_insert before) xs []"

lemma mset_sort_insert [simp]: "mset (sort_insert before x xs) = add_mset x (mset xs)"
  by (induction before x xs rule: sort_insert.induct) auto

lemma mset_js_sort [simp]: "mset (js_sort before xs) = mset xs"
  by (induction xs) (auto simp: js_sort_def)

lemma set_js_sort [simp]: "set (js_sort before xs) = set xs"
  by (metis mset_js_sort set_mset_mset)

lemma length_js_sort [simp]: "length (js_sort before xs) = length xs"
  by (metis mset_js_sort size_mset)

lemma js_sort_eq_Nil [simp]: "js_sort before xs = [] \<longleftrightarrow> xs = []"
  by (metis length_0_conv length_js_sort)

lemma sum_list_js_sort: "(\<Sum>x\<leftarrow>js_sort before xs. f x) = (\<Sum>x\<leftarrow>xs. (f x :: nat))"
proof -
  have "mset (map f (js_sort before xs)) = mset (map f xs)" by simp
  then show ?thesis by (metis sum_mset_sum_list)
qed

text \<open>A consistent comparator on the elements of \<open>A\<close>.\<close>

locale preference =
  fixes before :: "'a \<Rightarrow> 'a \<Rightarrow> bool"
    and dom :: "'a \<Rightarrow> bool"
  assumes total: "dom a \<Longrightarrow> dom b \<Longrightarrow> before a b \<or> before b a"
    and trans: "dom a \<Longrightarrow> dom b \<Longrightarrow> dom c \<Longrightarrow> before a b \<Longrightarrow> before b c \<Longrightarrow> before a c"
begin

lemma sort_insert_sorted:
  "dom x \<Longrightarrow> (\<forall>y \<in> set ys. dom y) \<Longrightarrow> sorted_wrt before ys \<Longrightarrow> sorted_wrt before (sort_insert before x ys)"
proof (induction ys)
  case (Cons y ys)
  have dy: "dom y" and dys: "\<forall>z \<in> set ys. dom z" using Cons.prems(2) by auto
  show ?case
  proof (cases "before x y")
    case True
    then have "\<forall>z \<in> set ys. before x z"
      using Cons.prems dy dys trans [of x y] by auto
    with True Cons.prems show ?thesis by simp
  next
    case False
    then have yx: "before y x" using total [of x y] Cons.prems(1) dy by blast
    have "set (sort_insert before x ys) = insert x (set ys)"
      by (metis mset_sort_insert set_mset_add_mset_insert set_mset_mset)
    then have "\<forall>z \<in> set (sort_insert before x ys). before y z"
      using yx Cons.prems(3) by auto
    with False Cons dys show ?thesis by simp
  qed
qed simp

lemma js_sort_sorted: "(\<forall>x \<in> set xs. dom x) \<Longrightarrow> sorted_wrt before (js_sort before xs)"
proof (induction xs)
  case (Cons x xs)
  have "set (foldr (sort_insert before) xs []) = set xs"
    using set_js_sort [of before xs] by (simp add: js_sort_def)
  with Cons show ?case
    by (simp add: js_sort_def sort_insert_sorted)
qed (simp add: js_sort_def)

lemma js_sort_hd: "(\<forall>x \<in> set xs. dom x) \<Longrightarrow> y \<in> set xs \<Longrightarrow> before (hd (js_sort before xs)) y"
proof -
  assume d: "\<forall>x \<in> set xs. dom x" and y: "y \<in> set xs"
  then obtain z zs where z: "js_sort before xs = z # zs"
    by (cases "js_sort before xs") auto
  have s: "sorted_wrt before (z # zs)" using js_sort_sorted [OF d] by (simp add: z)
  have "y \<in> set (z # zs)" using y z by (metis set_js_sort)
  moreover have "before z z"
    using total [of z z] d z by (metis list.set_intros(1) set_js_sort)
  ultimately show ?thesis using s by (auto simp: z)
qed

end

text \<open>Descending order of a numeric key: \<open>(a, b) => b.k - a.k\<close>.\<close>

definition desc_by :: "('a \<Rightarrow> 'k::linorder) \<Rightarrow> 'a \<Rightarrow> 'a \<Rightarrow> bool" where
  "desc_by key a b \<longleftrightarrow> key b \<le> key a"

lemma desc_by_eta: "desc_by key = (\<lambda>a b. key b \<le> key a)"
  by (simp add: fun_eq_iff desc_by_def)

interpretation desc: preference "desc_by key" "\<lambda>_. True"
  by unfold_locales (auto simp: desc_by_def)

lemma take_sorted_wrt: "sorted_wrt P xs \<Longrightarrow> sorted_wrt P (take n xs)"
  by (simp add: sorted_wrt_iff_nth_less)

end
