(* ===== verification/Regex.thy ===== *)
theory Regex
  imports Prelude
begin

text \<open>
  The anchored regular expressions of the code (\<open>/^...$/.test(s)\<close>), written as terms and decided
  by derivatives. \<open>rlang\<close> is the language of an expression; \<open>rmatch_iff\<close> says that the matcher
  decides it, so a claim about a pattern is a claim about the strings it describes.
\<close>

datatype re =
    Nope
  | Eps
  | Cls "char list"
  | Cat re re
  | Alt re re
  | Rep re
  | Both re re

primrec nullable :: "re \<Rightarrow> bool" where
  "nullable Nope = False"
| "nullable Eps = True"
| "nullable (Cls cs) = False"
| "nullable (Cat r s) = (nullable r \<and> nullable s)"
| "nullable (Alt r s) = (nullable r \<or> nullable s)"
| "nullable (Rep r) = True"
| "nullable (Both r s) = (nullable r \<and> nullable s)"

text \<open>Constructors that drop the dead branches, so derivatives stay small.\<close>

definition mk_cat :: "re \<Rightarrow> re \<Rightarrow> re" where
  "mk_cat r s = (if r = Nope \<or> s = Nope then Nope else if r = Eps then s else Cat r s)"

definition mk_alt :: "re \<Rightarrow> re \<Rightarrow> re" where
  "mk_alt r s = (if r = Nope then s else if s = Nope then r else if r = s then r else Alt r s)"

definition mk_both :: "re \<Rightarrow> re \<Rightarrow> re" where
  "mk_both r s = (if r = Nope \<or> s = Nope then Nope else Both r s)"

primrec deriv :: "char \<Rightarrow> re \<Rightarrow> re" where
  "deriv c Nope = Nope"
| "deriv c Eps = Nope"
| "deriv c (Cls cs) = (if c \<in> set cs then Eps else Nope)"
| "deriv c (Cat r s) =
     (if nullable r then mk_alt (mk_cat (deriv c r) s) (deriv c s) else mk_cat (deriv c r) s)"
| "deriv c (Alt r s) = mk_alt (deriv c r) (deriv c s)"
| "deriv c (Rep r) = mk_cat (deriv c r) (Rep r)"
| "deriv c (Both r s) = mk_both (deriv c r) (deriv c s)"

fun rmatch :: "re \<Rightarrow> string \<Rightarrow> bool" where
  "rmatch r [] = nullable r"
| "rmatch r (c # s) = rmatch (deriv c r) s"

text \<open>The language.\<close>

inductive rlang :: "re \<Rightarrow> string \<Rightarrow> bool" where
  eps: "rlang Eps []"
| cls: "c \<in> set cs \<Longrightarrow> rlang (Cls cs) [c]"
| cat: "rlang r u \<Longrightarrow> rlang s v \<Longrightarrow> w = u @ v \<Longrightarrow> rlang (Cat r s) w"
| alt1: "rlang r u \<Longrightarrow> rlang (Alt r s) u"
| alt2: "rlang s u \<Longrightarrow> rlang (Alt r s) u"
| rep0: "rlang (Rep r) []"
| rep1: "rlang r u \<Longrightarrow> rlang (Rep r) v \<Longrightarrow> w = u @ v \<Longrightarrow> rlang (Rep r) w"
| both: "rlang r u \<Longrightarrow> rlang s u \<Longrightarrow> rlang (Both r s) u"

inductive_simps rlang_Nope [simp]: "rlang Nope u"
inductive_simps rlang_Eps [simp]: "rlang Eps u"
inductive_simps rlang_Cls: "rlang (Cls cs) u"
inductive_simps rlang_Cat: "rlang (Cat r s) u"
inductive_simps rlang_Alt [simp]: "rlang (Alt r s) u"
inductive_simps rlang_Both [simp]: "rlang (Both r s) u"
inductive_cases rlang_RepE: "rlang (Rep r) u"

lemma nullable_iff: "nullable r \<longleftrightarrow> rlang r []"
  by (induction r) (auto simp: rlang_Cls rlang_Cat intro: rlang.intros)

lemma rlang_mk_cat: "rlang (mk_cat r s) u \<longleftrightarrow> rlang (Cat r s) u"
  by (auto simp: mk_cat_def rlang_Cat)

lemma rlang_mk_alt [simp]: "rlang (mk_alt r s) u \<longleftrightarrow> rlang r u \<or> rlang s u"
  by (auto simp: mk_alt_def)

lemma rlang_mk_both [simp]: "rlang (mk_both r s) u \<longleftrightarrow> rlang r u \<and> rlang s u"
  by (auto simp: mk_both_def)

lemma rlang_Rep_Cons:
  "rlang (Rep r) (c # s) \<longleftrightarrow> (\<exists>u v. s = u @ v \<and> rlang r (c # u) \<and> rlang (Rep r) v)"
proof
  assume "rlang (Rep r) (c # s)"
  then show "\<exists>u v. s = u @ v \<and> rlang r (c # u) \<and> rlang (Rep r) v"
  proof (induction "Rep r" "c # s" rule: rlang.induct)
    case (rep1 u v)
    then show ?case by (cases u) auto
  qed
next
  assume "\<exists>u v. s = u @ v \<and> rlang r (c # u) \<and> rlang (Rep r) v"
  then obtain u v where "s = u @ v" "rlang r (c # u)" "rlang (Rep r) v" by blast
  then show "rlang (Rep r) (c # s)" by (auto intro: rlang.rep1 [of r "c # u" v])
qed

lemma rlang_Cat_Cons:
  "rlang (Cat r s) (c # w) \<longleftrightarrow>
     (\<exists>u v. w = u @ v \<and> rlang r (c # u) \<and> rlang s v) \<or> (rlang r [] \<and> rlang s (c # w))"
  unfolding rlang_Cat by (fastforce simp: Cons_eq_append_conv)

lemma deriv_iff: "rlang (deriv c r) s \<longleftrightarrow> rlang r (c # s)"
proof (induction r arbitrary: s)
  case (Cat r1 r2)
  have "rlang (mk_cat (deriv c r1) r2) s \<longleftrightarrow> (\<exists>u v. s = u @ v \<and> rlang r1 (c # u) \<and> rlang r2 v)"
    by (auto simp: rlang_mk_cat rlang_Cat Cat)
  then show ?case by (auto simp: rlang_Cat_Cons nullable_iff Cat)
next
  case (Rep r)
  then show ?case by (simp add: rlang_Rep_Cons rlang_mk_cat rlang_Cat) blast
qed (auto simp: rlang_Cls)

theorem rmatch_iff: "rmatch r s \<longleftrightarrow> rlang r s"
  by (induction r s rule: rmatch.induct) (auto simp: nullable_iff deriv_iff)

section \<open>Derived forms\<close>

definition Plus :: "re \<Rightarrow> re" where
  "Plus r = Cat r (Rep r)"

definition Opt :: "re \<Rightarrow> re" where
  "Opt r = Alt Eps r"

fun Word :: "string \<Rightarrow> re" where
  "Word [] = Eps"
| "Word (c # cs) = Cat (Cls [c]) (Word cs)"

fun Times :: "nat \<Rightarrow> re \<Rightarrow> re" where
  "Times 0 r = Eps"
| "Times (Suc n) r = Cat r (Times n r)"

text \<open>\<open>r{m,n}\<close> with \<open>n = m + k\<close>.\<close>

fun UpTo :: "nat \<Rightarrow> re \<Rightarrow> re" where
  "UpTo 0 r = Eps"
| "UpTo (Suc k) r = Opt (Cat r (UpTo k r))"

definition Between :: "nat \<Rightarrow> nat \<Rightarrow> re \<Rightarrow> re" where
  "Between m n r = Cat (Times m r) (UpTo (n - m) r)"

definition AtLeast :: "nat \<Rightarrow> re \<Rightarrow> re" where
  "AtLeast m r = Cat (Times m r) (Rep r)"

fun Alts :: "re list \<Rightarrow> re" where
  "Alts [] = Nope"
| "Alts [r] = r"
| "Alts (r # rs) = Alt r (Alts rs)"

lemma rlang_Word [simp]: "rlang (Word w) u \<longleftrightarrow> u = w"
  by (induction w arbitrary: u) (auto simp: rlang_Cat rlang_Cls)

declare Word.simps [simp del]

lemma rlang_Opt [simp]: "rlang (Opt r) u \<longleftrightarrow> u = [] \<or> rlang r u"
  by (simp add: Opt_def)

lemma rlang_Alts: "rlang (Alts rs) u \<longleftrightarrow> (\<exists>r \<in> set rs. rlang r u)"
  by (induction rs rule: Alts.induct) auto

lemma rlang_Cls_Rep: "rlang (Rep (Cls cs)) u \<longleftrightarrow> set u \<subseteq> set cs"
proof
  assume "rlang (Rep (Cls cs)) u"
  then show "set u \<subseteq> set cs"
    by (induction "Rep (Cls cs)" u rule: rlang.induct) (auto simp: rlang_Cls)
next
  assume "set u \<subseteq> set cs"
  then show "rlang (Rep (Cls cs)) u"
  proof (induction u)
    case (Cons c u)
    then show ?case by (auto intro: rlang.rep1 [of _ "[c]" u] rlang.cls)
  qed (rule rlang.rep0)
qed

lemma rlang_Cls_Plus: "rlang (Plus (Cls cs)) u \<longleftrightarrow> u \<noteq> [] \<and> set u \<subseteq> set cs"
  by (cases u) (auto simp: Plus_def rlang_Cat rlang_Cls rlang_Cls_Rep)

lemma rlang_Cls_Times: "rlang (Times n (Cls cs)) u \<longleftrightarrow> length u = n \<and> set u \<subseteq> set cs"
proof (induction n arbitrary: u)
  case (Suc n)
  show ?case by (cases u) (auto simp: rlang_Cat rlang_Cls Suc Cons_eq_append_conv)
qed auto

lemma rlang_Cls_UpTo: "rlang (UpTo n (Cls cs)) u \<longleftrightarrow> length u \<le> n \<and> set u \<subseteq> set cs"
proof (induction n arbitrary: u)
  case (Suc n)
  show ?case by (cases u) (auto simp: rlang_Cat rlang_Cls Suc)
qed auto

lemma rlang_Cls_Between:
  "m \<le> n \<Longrightarrow> rlang (Between m n (Cls cs)) u \<longleftrightarrow> m \<le> length u \<and> length u \<le> n \<and> set u \<subseteq> set cs"
proof
  assume mn: "m \<le> n"
  show "rlang (Between m n (Cls cs)) u" if "m \<le> length u \<and> length u \<le> n \<and> set u \<subseteq> set cs"
  proof -
    have "u = take m u @ drop m u" by simp
    moreover have "rlang (Times m (Cls cs)) (take m u)"
      using that by (auto simp: rlang_Cls_Times dest: in_set_takeD)
    moreover have "rlang (UpTo (n - m) (Cls cs)) (drop m u)"
      using that by (auto simp: rlang_Cls_UpTo dest: in_set_dropD)
    ultimately show ?thesis unfolding Between_def rlang_Cat by blast
  qed
qed (auto simp: Between_def rlang_Cat rlang_Cls_Times rlang_Cls_UpTo)

lemma rlang_Cls_AtLeast: "rlang (AtLeast m (Cls cs)) u \<longleftrightarrow> m \<le> length u \<and> set u \<subseteq> set cs"
proof
  assume "m \<le> length u \<and> set u \<subseteq> set cs"
  moreover have "u = take m u @ drop m u" by simp
  ultimately have "\<exists>a b. u = a @ b \<and> rlang (Times m (Cls cs)) a \<and> rlang (Rep (Cls cs)) b"
    by (intro exI [of _ "take m u"] exI [of _ "drop m u"])
      (auto simp: rlang_Cls_Times rlang_Cls_Rep dest: in_set_takeD in_set_dropD)
  then show "rlang (AtLeast m (Cls cs)) u" unfolding AtLeast_def rlang_Cat by blast
qed (auto simp: AtLeast_def rlang_Cat rlang_Cls_Times rlang_Cls_Rep)

lemma rlang_Times_Suc: "rlang r u \<Longrightarrow> rlang (Times n r) v \<Longrightarrow> rlang (Times (Suc n) r) (u @ v)"
  by (auto intro: rlang.cat)

lemma rlang_Times3: "rlang r x \<Longrightarrow> rlang r y \<Longrightarrow> rlang r z \<Longrightarrow> rlang (Times 3 r) (x @ y @ z)"
  using rlang_Times_Suc [of r z 0 "[]"] rlang_Times_Suc [of r y 1 z] rlang_Times_Suc [of r x 2 "y @ z"]
  by (simp add: numeral_2_eq_2 numeral_3_eq_3)

section \<open>The character classes of the code\<close>

definition digits_cs :: "char list" where
  "digits_cs = ''0123456789''"

definition hex_cs :: "char list" where
  "hex_cs = ''0123456789abcdefABCDEF''"

definition alnum_cs :: "char list" where
  "alnum_cs = ''0123456789abcdefghijklmnopqrstuvwxyzABCDEFGHIJKLMNOPQRSTUVWXYZ''"

definition digit :: re where
  "digit = Cls digits_cs"

definition is_digit :: "char \<Rightarrow> bool" where
  "is_digit c \<longleftrightarrow> c \<in> set digits_cs"

end
