(* ===== verification/JsNumber.thy ===== *)
theory JsNumber
  imports Regex "HOL-Library.Log_Nat"
begin

text \<open>
  JavaScript numbers: binary64 values as exact rationals, with NaN and the two infinities apart.
  \<open>fl\<close> rounds a rational to the nearest binary64 value, ties to even, as every arithmetic
  operation of the language does. The sign of zero is not kept: no operation of the modelled code
  can observe it. \<open>Number(text)\<close> and \<open>String(number)\<close> are the language's conversions.
\<close>

datatype jnum = NaN | PInf | NInf | Fin rat

section \<open>Rounding to binary64\<close>

text \<open>The exponent \<open>e\<close> with \<open>2 ^ e \<le> x < 2 ^ (e + 1)\<close>, for \<open>x > 0\<close>.\<close>

definition pow2 :: "int \<Rightarrow> rat" where
  "pow2 e = (if 0 \<le> e then 2 ^ nat e else 1 / 2 ^ nat (- e))"

definition binexp :: "rat \<Rightarrow> int" where
  "binexp x = (case quotient_of x of (n, d) \<Rightarrow>
     let k = int (floorlog 2 (nat n)) - int (floorlog 2 (nat d))
     in if pow2 k \<le> x then k else k - 1)"

definition round_even :: "rat \<Rightarrow> int" where
  "round_even y = (let f = \<lfloor>y\<rfloor>; r = y - of_int f in
     if r < 1 / 2 then f else if 1 / 2 < r then f + 1 else if even f then f else f + 1)"

text \<open>Weight of the last bit of the significand: normal numbers have 53 bits, subnormal ones end at \<open>2 ^ -1074\<close>.\<close>

definition lastbit :: "rat \<Rightarrow> int" where
  "lastbit x = max (binexp x - 52) (- 1074)"

definition fl_pos :: "rat \<Rightarrow> rat" where
  "fl_pos x = of_int (round_even (x / pow2 (lastbit x))) * pow2 (lastbit x)"

definition fl_rat :: "rat \<Rightarrow> rat" where
  "fl_rat x = (if x = 0 then 0 else if 0 < x then fl_pos x else - fl_pos (- x))"

definition fl :: "rat \<Rightarrow> jnum" where
  "fl x = (let y = fl_rat x in if pow2 1024 \<le> y then PInf else if y \<le> - pow2 1024 then NInf else Fin y)"

section \<open>Arithmetic and comparison\<close>

fun nadd :: "jnum \<Rightarrow> jnum \<Rightarrow> jnum" where
  "nadd (Fin a) (Fin b) = fl (a + b)"
| "nadd NaN b = NaN"
| "nadd a NaN = NaN"
| "nadd PInf NInf = NaN"
| "nadd NInf PInf = NaN"
| "nadd PInf b = PInf"
| "nadd NInf b = NInf"
| "nadd a PInf = PInf"
| "nadd a NInf = NInf"

fun nneg :: "jnum \<Rightarrow> jnum" where
  "nneg (Fin a) = Fin (- a)"
| "nneg NaN = NaN"
| "nneg PInf = NInf"
| "nneg NInf = PInf"

definition nsub :: "jnum \<Rightarrow> jnum \<Rightarrow> jnum" where
  "nsub a b = nadd a (nneg b)"

definition ninf :: "rat \<Rightarrow> jnum" where
  "ninf s = (if s = 0 then NaN else if 0 < s then PInf else NInf)"

fun nsign :: "jnum \<Rightarrow> rat" where
  "nsign (Fin a) = sgn a"
| "nsign NaN = 0"
| "nsign PInf = 1"
| "nsign NInf = - 1"

fun nmul :: "jnum \<Rightarrow> jnum \<Rightarrow> jnum" where
  "nmul (Fin a) (Fin b) = fl (a * b)"
| "nmul NaN b = NaN"
| "nmul a NaN = NaN"
| "nmul a b = ninf (nsign a * nsign b)"

text \<open>Division; the divisor zero is positive zero.\<close>

fun ndiv :: "jnum \<Rightarrow> jnum \<Rightarrow> jnum" where
  "ndiv (Fin a) (Fin b) = (if b = 0 then ninf (sgn a) else fl (a / b))"
| "ndiv NaN b = NaN"
| "ndiv a NaN = NaN"
| "ndiv (Fin a) b = Fin 0"
| "ndiv a (Fin b) = ninf (nsign a * (if b = 0 then 1 else sgn b))"
| "ndiv a b = NaN"

fun nabs :: "jnum \<Rightarrow> jnum" where
  "nabs (Fin a) = Fin \<bar>a\<bar>"
| "nabs NaN = NaN"
| "nabs PInf = PInf"
| "nabs NInf = PInf"

text \<open>Every comparison with NaN is false.\<close>

fun nle :: "jnum \<Rightarrow> jnum \<Rightarrow> bool" where
  "nle NaN b = False"
| "nle a NaN = False"
| "nle NInf b = True"
| "nle a PInf = True"
| "nle (Fin a) (Fin b) = (a \<le> b)"
| "nle PInf b = False"
| "nle a NInf = False"

fun nlt :: "jnum \<Rightarrow> jnum \<Rightarrow> bool" where
  "nlt NaN b = False"
| "nlt a NaN = False"
| "nlt a NInf = False"
| "nlt PInf b = False"
| "nlt NInf b = True"
| "nlt a PInf = True"
| "nlt (Fin a) (Fin b) = (a < b)"

definition neq :: "jnum \<Rightarrow> jnum \<Rightarrow> bool" where
  "neq a b \<longleftrightarrow> a = b \<and> a \<noteq> NaN"

definition nmax :: "jnum \<Rightarrow> jnum \<Rightarrow> jnum" where
  "nmax a b = (if a = NaN \<or> b = NaN then NaN else if nle a b then b else a)"

definition nmin :: "jnum \<Rightarrow> jnum \<Rightarrow> jnum" where
  "nmin a b = (if a = NaN \<or> b = NaN then NaN else if nle a b then a else b)"

text \<open>\<open>Math.round\<close> and \<open>Math.floor\<close>.\<close>

fun nround :: "jnum \<Rightarrow> jnum" where
  "nround (Fin a) = Fin (of_int \<lfloor>a + 1 / 2\<rfloor>)"
| "nround v = v"

fun nfloor :: "jnum \<Rightarrow> jnum" where
  "nfloor (Fin a) = Fin (of_int \<lfloor>a\<rfloor>)"
| "nfloor v = v"

text \<open>\<open>Number.isInteger\<close> and \<open>Number.isFinite\<close> on numbers.\<close>

definition nis_int :: "jnum \<Rightarrow> bool" where
  "nis_int v = (case v of Fin a \<Rightarrow> a = of_int \<lfloor>a\<rfloor> | _ \<Rightarrow> False)"

definition nis_finite :: "jnum \<Rightarrow> bool" where
  "nis_finite v = (case v of Fin a \<Rightarrow> True | _ \<Rightarrow> False)"

abbreviation nint :: "int \<Rightarrow> jnum" where
  "nint i \<equiv> Fin (of_int i)"

lemma nis_int_iff: "nis_int v \<longleftrightarrow> (\<exists>i. v = nint i)"
  by (auto simp: nis_int_def split: jnum.splits)

lemma nis_int_Fin [simp]: "nis_int (Fin (of_int i))"
  by (simp add: nis_int_def)

lemma nis_finite_iff: "nis_finite v \<longleftrightarrow> (\<exists>a. v = Fin a)"
  by (cases v) (auto simp: nis_finite_def)

lemma nle_trans: "nle a b \<Longrightarrow> nle b c \<Longrightarrow> nle a c"
  by (cases a; cases b; cases c) auto

lemma nle_total: "a \<noteq> NaN \<Longrightarrow> b \<noteq> NaN \<Longrightarrow> nle a b \<or> nle b a"
  by (cases a; cases b) auto

lemma nle_refl [simp]: "nle a a \<longleftrightarrow> a \<noteq> NaN"
  by (cases a) auto

lemma nlt_iff: "nlt a b \<longleftrightarrow> nle a b \<and> a \<noteq> b"
  by (cases a; cases b) auto

lemma nle_antisym: "nle a b \<Longrightarrow> nle b a \<Longrightarrow> a = b"
  by (cases a; cases b) auto

lemma not_nle: "a \<noteq> NaN \<Longrightarrow> b \<noteq> NaN \<Longrightarrow> \<not> nle a b \<longleftrightarrow> nlt b a"
  by (cases a; cases b) auto

lemma nle_nmax1: "a \<noteq> NaN \<Longrightarrow> b \<noteq> NaN \<Longrightarrow> nle a (nmax a b) \<and> nle b (nmax a b)"
  using nle_total [of a b] by (auto simp: nmax_def)

lemma nmin_nle1: "a \<noteq> NaN \<Longrightarrow> b \<noteq> NaN \<Longrightarrow> nle (nmin a b) a \<and> nle (nmin a b) b"
  using nle_total [of a b] by (auto simp: nmin_def)

lemma nmax_Fin [simp]: "nmax (Fin a) (Fin b) = Fin (max a b)"
  by (auto simp: nmax_def)

lemma nmin_Fin [simp]: "nmin (Fin a) (Fin b) = Fin (min a b)"
  by (auto simp: nmin_def)

section \<open>Rounding is exact on integers of at most 53 bits, and monotone\<close>

lemma pow2_pos [simp]: "0 < pow2 e"
  by (simp add: pow2_def)

lemma pow2_powi: "pow2 e = 2 powi e"
  by (auto simp: pow2_def power_int_def field_simps)

lemma pow2_add: "pow2 (a + b) = pow2 a * pow2 b"
  by (simp add: pow2_powi power_int_add)

lemma pow2_mono: "a \<le> b \<Longrightarrow> pow2 a \<le> pow2 b"
  by (simp add: pow2_powi power_int_increasing)

lemma pow2_strict_mono: "a < b \<Longrightarrow> pow2 a < pow2 b"
  by (simp add: pow2_powi power_int_strict_increasing)

lemma pow2_less_iff: "pow2 a < pow2 b \<longleftrightarrow> a < b"
  by (metis linorder_not_less pow2_mono pow2_strict_mono)

lemma pow2_nat: "pow2 (int n) = 2 ^ n"
  by (simp add: pow2_def)

lemma floorlog_2_bounds:
  assumes "0 < (n::nat)"
  shows "2 ^ (floorlog 2 n - 1) \<le> n" "n < 2 ^ floorlog 2 n" "0 < floorlog 2 n"
proof -
  have "2 ^ (floorlog 2 n - 1) \<le> n \<and> n < 2 ^ floorlog 2 n"
    using assms floorlog_bounds [of n 2] by simp
  then show "2 ^ (floorlog 2 n - 1) \<le> n" "n < 2 ^ floorlog 2 n" by simp_all
  with assms show "0 < floorlog 2 n" by (cases "floorlog 2 n") auto
qed

lemma binexp_bounds:
  assumes "0 < x"
  shows "pow2 (binexp x) \<le> x" "x < pow2 (binexp x + 1)"
proof -
  obtain n d where q: "quotient_of x = (n, d)" by (cases "quotient_of x")
  have d: "0 < d" using q by (rule quotient_of_denom_pos)
  have x: "x = of_int n / of_int d" using q by (rule quotient_of_div)
  then have n: "0 < n" using assms d by (simp add: zero_less_divide_iff)
  define a where "a = floorlog 2 (nat n)"
  define b where "b = floorlog 2 (nat d)"
  have an: "2 ^ (a - 1) \<le> nat n" "nat n < 2 ^ a" "0 < a" and
    bd: "2 ^ (b - 1) \<le> nat d" "nat d < 2 ^ b" "0 < b"
    using floorlog_2_bounds [of "nat n"] floorlog_2_bounds [of "nat d"] n d by (simp_all add: a_def b_def)
  have nn: "of_nat (nat n) = (of_int n :: rat)" and dd: "of_nat (nat d) = (of_int d :: rat)"
    using n d by simp_all
  have "of_nat (2 ^ (a - 1)) \<le> (of_nat (nat n) :: rat)" "of_nat (nat n) < (of_nat (2 ^ a) :: rat)"
    using an by (simp_all only: of_nat_le_iff of_nat_less_iff)
  then have rn: "(2::rat) ^ (a - 1) \<le> of_int n" "of_int n < (2::rat) ^ a"
    unfolding nn by (simp_all only: of_nat_power of_nat_numeral)
  have "of_nat (2 ^ (b - 1)) \<le> (of_nat (nat d) :: rat)" "of_nat (nat d) < (of_nat (2 ^ b) :: rat)"
    using bd by (simp_all only: of_nat_le_iff of_nat_less_iff)
  then have rd: "(2::rat) ^ (b - 1) \<le> of_int d" "of_int d < (2::rat) ^ b"
    unfolding dd by (simp_all only: of_nat_power of_nat_numeral)
  have dpos: "(0::rat) < of_int d" using d by simp
  let ?k = "int a - int b"
  have pa: "pow2 (int a) = 2 ^ a" "pow2 (int a - 1) = 2 ^ (a - 1)" "pow2 (int b) = 2 ^ b" "pow2 (int b - 1) = 2 ^ (b - 1)"
    using an(3) bd(3) by (auto simp: pow2_def nat_diff_distrib)
  have up: "x < pow2 (?k + 1)"
  proof -
    have "pow2 (?k + 1) * pow2 (int b - 1) = pow2 (int a)"
      by (simp flip: pow2_add)
    then have "of_int n < pow2 (?k + 1) * pow2 (int b - 1)" using rn pa by simp
    also have "\<dots> \<le> pow2 (?k + 1) * of_int d" using rd pa by (simp add: mult_left_mono less_imp_le)
    finally show ?thesis using dpos by (simp add: x field_simps)
  qed
  have lo: "pow2 (?k - 1) \<le> x"
  proof -
    have e: "pow2 (?k - 1) * pow2 (int b) = pow2 (int a - 1)"
      by (simp flip: pow2_add)
    have "pow2 (?k - 1) * of_int d \<le> pow2 (?k - 1) * pow2 (int b)"
      using rd pa by (simp add: mult_left_mono less_imp_le)
    also have "\<dots> \<le> of_int n" using rn pa e by simp
    finally show ?thesis using dpos by (simp add: x field_simps)
  qed
  have be: "binexp x = (if pow2 ?k \<le> x then ?k else ?k - 1)"
    by (simp add: binexp_def q a_def b_def Let_def)
  show "pow2 (binexp x) \<le> x" "x < pow2 (binexp x + 1)"
    using up lo by (auto simp: be)
qed

lemma binexp_mono: "0 < x \<Longrightarrow> x \<le> y \<Longrightarrow> binexp x \<le> binexp y"
proof -
  assume x: "0 < x" and xy: "x \<le> y"
  have "pow2 (binexp x) \<le> x" by (rule binexp_bounds(1) [OF x])
  also note xy
  also have "y < pow2 (binexp y + 1)" using x xy by (intro binexp_bounds(2)) simp
  finally have "binexp x < binexp y + 1" by (simp only: pow2_less_iff)
  then show ?thesis by simp
qed

lemma round_even_mono: "x \<le> y \<Longrightarrow> round_even x \<le> round_even y"
proof -
  assume xy: "x \<le> y"
  have f: "\<lfloor>x\<rfloor> \<le> \<lfloor>y\<rfloor>" using xy by (rule floor_mono)
  have b: "round_even z \<le> \<lfloor>z\<rfloor> + 1" "\<lfloor>z\<rfloor> \<le> round_even z" for z
    by (auto simp: round_even_def Let_def)
  show ?thesis
  proof (cases "\<lfloor>x\<rfloor> = \<lfloor>y\<rfloor>")
    case True
    with xy show ?thesis by (auto simp: round_even_def Let_def)
  next
    case False
    with f b [of x] b [of y] show ?thesis by linarith
  qed
qed

lemma round_even_int [simp]: "round_even (of_int i) = i"
  by (simp add: round_even_def)

lemma pow2_nonneg_int: "0 \<le> e \<Longrightarrow> pow2 e = of_int (2 ^ nat e)"
  by (simp add: pow2_def)

lemma pow2_diff: "pow2 (a - b) = pow2 a / pow2 b"
  by (simp add: pow2_powi power_int_diff)

lemma fl_pos_exact: "x = of_int m * pow2 (lastbit x) \<Longrightarrow> fl_pos x = x"
  using pow2_pos [of "lastbit x"] unfolding fl_pos_def
  by (metis less_irrefl nonzero_eq_divide_eq round_even_int)

lemma fl_pos_mono:
  assumes "0 < x" and "x \<le> y"
  shows "fl_pos x \<le> fl_pos y"
proof (cases "lastbit x = lastbit y")
  case True
  have "x / pow2 (lastbit y) \<le> y / pow2 (lastbit y)"
    using assms by (simp add: divide_right_mono less_imp_le)
  then have "round_even (x / pow2 (lastbit x)) \<le> round_even (y / pow2 (lastbit y))"
    unfolding True by (rule round_even_mono)
  then show ?thesis
    unfolding fl_pos_def True by (simp add: mult_right_mono less_imp_le)
next
  case False
  define e where "e = binexp y"
  have bm: "binexp x \<le> binexp y" using assms by (rule binexp_mono)
  have ly: "lastbit y = e - 52" and lx: "lastbit x < e - 52" and bx: "binexp x < e"
    using False bm by (auto simp: lastbit_def e_def max_def split: if_splits)
  have "x < pow2 (binexp x + 1)" using assms(1) by (rule binexp_bounds)
  also have "\<dots> \<le> pow2 e" using bx by (intro pow2_mono) simp
  finally have xe: "x \<le> pow2 e" by simp
  have ey: "pow2 e \<le> y" unfolding e_def using assms by (intro binexp_bounds) simp
  have "x / pow2 (lastbit x) \<le> pow2 (e - lastbit x)"
    using xe by (simp add: pow2_diff divide_right_mono less_imp_le)
  also have "\<dots> = of_int (2 ^ nat (e - lastbit x))"
    using lx by (intro pow2_nonneg_int) simp
  finally have "round_even (x / pow2 (lastbit x)) \<le> 2 ^ nat (e - lastbit x)"
    using round_even_mono round_even_int by metis
  then have "fl_pos x \<le> of_int (2 ^ nat (e - lastbit x)) * pow2 (lastbit x)"
    unfolding fl_pos_def by (intro mult_right_mono) (simp_all add: less_imp_le del: of_int_power)
  also have "\<dots> = pow2 (e - lastbit x) * pow2 (lastbit x)"
    using lx by (subst pow2_nonneg_int) simp_all
  also have "\<dots> = pow2 e" by (simp flip: pow2_add)
  finally have l: "fl_pos x \<le> pow2 e" .
  have "of_int (2 ^ 52) \<le> y / pow2 (lastbit y)"
    using ey by (simp add: ly pow2_diff pow2_nat [of 52, simplified] field_simps)
  then have "2 ^ 52 \<le> round_even (y / pow2 (lastbit y))"
    using round_even_mono round_even_int by metis
  then have "of_int (2 ^ 52) * pow2 (lastbit y) \<le> fl_pos y"
    unfolding fl_pos_def by (intro mult_right_mono) (simp_all add: less_imp_le del: of_int_power)
  moreover have "of_int (2 ^ 52) * pow2 (lastbit y) = pow2 e"
    by (simp add: ly pow2_diff pow2_nat [of 52, simplified])
  ultimately show ?thesis using l by linarith
qed

lemma fl_pos_nonneg: "0 < x \<Longrightarrow> 0 \<le> fl_pos x"
proof -
  assume "0 < x"
  then have "(of_int 0 :: rat) \<le> x / pow2 (lastbit x)" by (simp add: less_imp_le)
  then have "0 \<le> round_even (x / pow2 (lastbit x))"
    using round_even_mono round_even_int by metis
  then show ?thesis by (simp add: fl_pos_def less_imp_le)
qed

lemma fl_rat_mono: "x \<le> y \<Longrightarrow> fl_rat x \<le> fl_rat y"
proof -
  assume xy: "x \<le> y"
  consider "0 < x" | "x = 0" | "x < 0" "0 \<le> y" | "y < 0" by linarith
  then show ?thesis
  proof cases
    case 1
    with xy show ?thesis using fl_pos_mono [of x y] by (simp add: fl_rat_def)
  next
    case 2
    with xy show ?thesis using fl_pos_nonneg [of y] by (simp add: fl_rat_def)
  next
    case 3
    then show ?thesis using fl_pos_nonneg [of y] fl_pos_nonneg [of "- x"]
      by (cases "y = 0") (simp_all add: fl_rat_def)
  next
    case 4
    with xy show ?thesis using fl_pos_mono [of "- y" "- x"] by (simp add: fl_rat_def)
  qed
qed

lemma fl_rat_0 [simp]: "fl_rat 0 = 0"
  by (simp add: fl_rat_def)

lemma fl_mono: "x \<le> y \<Longrightarrow> nle (fl x) (fl y)"
  using fl_rat_mono [of x y] pow2_pos [of 1024] by (auto simp: fl_def Let_def)

lemma fl_not_NaN [simp]: "fl x \<noteq> NaN"
  by (simp add: fl_def Let_def)

lemma fl_pos_int:
  assumes "0 < i" and "i < 2 ^ 53"
  shows "fl_pos (of_int i) = of_int i"
proof -
  let ?x = "of_int i :: rat"
  have x: "0 < ?x" using assms by simp
  have "pow2 (binexp ?x) \<le> ?x" by (rule binexp_bounds [OF x])
  also have "?x < of_int (2 ^ 53)" using assms(2) by (simp only: of_int_less_iff)
  also have "(of_int (2 ^ 53) :: rat) = pow2 53" by (simp add: pow2_def)
  finally have "binexp ?x < 53" by (simp only: pow2_less_iff)
  then have l: "lastbit ?x \<le> 0" by (auto simp: lastbit_def)
  have "?x = of_int (i * 2 ^ nat (- lastbit ?x)) * pow2 (lastbit ?x)"
    using l by (auto simp: pow2_def)
  then show ?thesis by (rule fl_pos_exact)
qed

lemma fl_rat_int: "\<bar>i\<bar> < 2 ^ 53 \<Longrightarrow> fl_rat (of_int i) = of_int i"
  using fl_pos_int [of i] fl_pos_int [of "- i"] by (auto simp: fl_rat_def)

text \<open>Safe integers are exact.\<close>

lemma fl_int: "\<bar>i\<bar> < 2 ^ 53 \<Longrightarrow> fl (of_int i) = nint i"
proof -
  assume i: "\<bar>i\<bar> < 2 ^ 53"
  then have "of_int \<bar>i\<bar> < (of_int (2 ^ 53) :: rat)" by (simp only: of_int_less_iff)
  also have "\<dots> \<le> pow2 1024" by (simp add: pow2_def)
  finally have "\<bar>of_int i\<bar> < pow2 1024" by simp
  then show ?thesis using fl_rat_int [OF i] by (auto simp: fl_def Let_def)
qed

text \<open>So are fractions with a power of two as denominator.\<close>

lemma fl_dyadic:
  assumes "0 < i" "i < 2 ^ 53" "k \<le> 1000"
  shows "fl (of_int i / 2 ^ k) = Fin (of_int i / 2 ^ k)"
proof -
  let ?x = "of_int i / 2 ^ k :: rat"
  have x: "0 < ?x" using assms(1) by simp
  have k: "pow2 (- int k) = 1 / 2 ^ k" by (simp add: pow2_def)
  have "pow2 (binexp ?x) \<le> ?x" by (rule binexp_bounds [OF x])
  also have "?x < of_int (2 ^ 53) / 2 ^ k"
    using assms(2) by (intro divide_strict_right_mono) (simp_all only: of_int_less_iff, simp)
  also have "(of_int (2 ^ 53) / 2 ^ k :: rat) = pow2 (53 - int k)"
    using pow2_add [of 53 "- int k"] by (simp add: k) (simp add: pow2_def)
  finally have "binexp ?x < 53 - int k" by (simp only: pow2_less_iff)
  then have l: "lastbit ?x \<le> - int k" using assms(3) by (auto simp: lastbit_def)
  let ?e = "nat (- lastbit ?x - int k)"
  have "pow2 (int ?e) * pow2 (lastbit ?x) = pow2 (- int k)" using l by (simp flip: pow2_add)
  then have p: "2 ^ ?e * pow2 (lastbit ?x) = 1 / 2 ^ k" by (simp only: pow2_nat k)
  have "of_int (i * 2 ^ ?e) * pow2 (lastbit ?x) = of_int i * (2 ^ ?e * pow2 (lastbit ?x))"
    by (simp only: of_int_mult of_int_power of_int_numeral mult.assoc)
  then have "?x = of_int (i * 2 ^ ?e) * pow2 (lastbit ?x)" unfolding p by simp
  then have "fl_pos ?x = ?x" by (rule fl_pos_exact)
  then have e: "fl_rat ?x = ?x" using x by (simp add: fl_rat_def)
  have "?x < pow2 1024"
  proof -
    have "?x \<le> of_int i" using assms(1) by (simp add: divide_le_eq mult_ge1_I)
    also have "of_int i < (of_int (2 ^ 53) :: rat)" using assms(2) by (simp only: of_int_less_iff)
    also have "\<dots> \<le> pow2 1024" by (simp add: pow2_def)
    finally show ?thesis .
  qed
  moreover have "\<not> ?x \<le> - pow2 1024" using x pow2_pos [of 1024] by linarith
  ultimately show ?thesis by (simp add: fl_def e Let_def)
qed

lemma fl_0 [simp]: "fl 0 = Fin 0"
  using fl_int [of 0] by simp

lemma nadd_int: "\<bar>i + j\<bar> < 2 ^ 53 \<Longrightarrow> nadd (nint i) (nint j) = nint (i + j)"
  using fl_int [of "i + j"] by simp

definition nonneg :: "jnum \<Rightarrow> bool" where
  "nonneg v \<longleftrightarrow> nle (Fin 0) v"

lemma fl_nonneg: "0 \<le> x \<Longrightarrow> nonneg (fl x)"
  using fl_mono [of 0 x] by (simp add: nonneg_def)

lemma nadd_nonneg: "nonneg a \<Longrightarrow> nonneg b \<Longrightarrow> nonneg (nadd a b)"
  by (cases a; cases b) (auto simp: nonneg_def fl_nonneg [unfolded nonneg_def])

end
