(* ===== verification/JsValue.thy ===== *)
theory JsValue
  imports JsNumber "HOL-Library.Sublist"
begin

text \<open>
  JavaScript values and the parts of the standard library the code uses: truthiness, property
  reads, \<open>Object.keys\<close>, \<open>String\<close>, \<open>Number\<close>, \<open>trim\<close>, \<open>split\<close>, \<open>slice\<close>, \<open>startsWith\<close>,
  \<open>includes\<close>. Strings are sequences of code units up to U+00FF (\<open>char\<close>). Object properties are
  insertion-ordered dictionaries; \<open>obj_keys\<close> lists array-index keys first, in ascending order, as the
  language does. Properties inherited from \<open>Object.prototype\<close> are not modelled.
\<close>

datatype jval =
    JUndef
  | JNull
  | JBool bool
  | JNum jnum
  | JStr string
  | JArr "jval list"
  | JObj "(string \<times> jval) list"

abbreviation jint :: "int \<Rightarrow> jval" where
  "jint i \<equiv> JNum (nint i)"

section \<open>Strings\<close>

definition space_cs :: "char list" where
  "space_cs = map char_of [9::nat, 10, 11, 12, 13, 32, 160]"

definition is_space :: "char \<Rightarrow> bool" where
  "is_space c \<longleftrightarrow> c \<in> set space_cs"

definition trim :: "string \<Rightarrow> string" where
  "trim s = rev (dropWhile is_space (rev (dropWhile is_space s)))"

text \<open>\<open>s.split(sep)\<close> for a separator of one character.\<close>

fun split_on :: "char \<Rightarrow> string \<Rightarrow> string list" where
  "split_on c [] = [[]]"
| "split_on c (x # xs) =
     (if x = c then [] # split_on c xs
      else (case split_on c xs of [] \<Rightarrow> [[x]] | w # ws \<Rightarrow> (x # w) # ws))"

fun join :: "string \<Rightarrow> string list \<Rightarrow> string" where
  "join sep [] = []"
| "join sep [w] = w"
| "join sep (w # ws) = w @ sep @ join sep ws"

lemma split_on_neq_Nil [simp]: "split_on c s \<noteq> []"
  by (induction s) (auto split: list.splits)

lemma join_Cons: "ws \<noteq> [] \<Longrightarrow> join sep (w # ws) = w @ sep @ join sep ws"
  by (cases ws) auto

lemma join_split_on: "join [c] (split_on c s) = s"
proof (induction s)
  case (Cons x s)
  show ?case
  proof (cases "split_on c s")
    case Nil
    then show ?thesis by simp
  next
    case (Cons w ws)
    with Cons.IH show ?thesis by (cases ws) auto
  qed
qed simp

lemma split_on_no_sep: "w \<in> set (split_on c s) \<Longrightarrow> c \<notin> set w"
  by (induction s arbitrary: w) (auto split: list.splits if_splits)

lemma split_on_append: "c \<notin> set w \<Longrightarrow> split_on c (w @ c # s) = w # split_on c s"
  by (induction w) auto

lemma split_on_single: "c \<notin> set w \<Longrightarrow> split_on c w = [w]"
  by (induction w) auto

lemma split_on_join:
  "ws \<noteq> [] \<Longrightarrow> (\<forall>w \<in> set ws. c \<notin> set w) \<Longrightarrow> split_on c (join [c] ws) = ws"
proof (induction "[c]" ws rule: join.induct)
  case (2 w)
  then show ?case by (simp add: split_on_single)
next
  case (3 w v ws)
  then show ?case by (simp add: split_on_append)
qed simp

definition starts_with :: "string \<Rightarrow> string \<Rightarrow> bool" where
  "starts_with p s \<longleftrightarrow> prefix p s"

definition contains :: "string \<Rightarrow> string \<Rightarrow> bool" where
  "contains p s \<longleftrightarrow> sublist p s"

text \<open>\<open>s.slice(0, n)\<close> and \<open>s.slice(n)\<close> for \<open>n \<ge> 0\<close> are \<open>take\<close> and \<open>drop\<close>. Lower case in the modelled range:\<close>

definition lower_char :: "char \<Rightarrow> char" where
  "lower_char c = (let n = (of_char c :: nat) in
     if 65 \<le> n \<and> n \<le> 90 \<or> 192 \<le> n \<and> n \<le> 222 \<and> n \<noteq> 215 then char_of (n + 32) else c)"

definition to_lower :: "string \<Rightarrow> string" where
  "to_lower s = map lower_char s"

section \<open>Numbers as text\<close>

definition digit_val :: "char \<Rightarrow> nat" where
  "digit_val c = of_char c - 48"

definition digit_char :: "nat \<Rightarrow> char" where
  "digit_char d = char_of (48 + d)"

definition parse_nat :: "string \<Rightarrow> nat" where
  "parse_nat s = foldl (\<lambda>n c. 10 * n + digit_val c) 0 s"

fun show_nat :: "nat \<Rightarrow> string" where
  "show_nat n = (if n < 10 then [digit_char n] else show_nat (n div 10) @ [digit_char (n mod 10)])"

declare show_nat.simps [simp del]

definition show_int :: "int \<Rightarrow> string" where
  "show_int i = (if i < 0 then ''-'' @ show_nat (nat (- i)) else show_nat (nat i))"

lemma digit_val_char [simp]: "d < 10 \<Longrightarrow> digit_val (digit_char d) = d"
  by (simp add: digit_val_def digit_char_def)

lemma digits_cs_map: "digits_cs = map digit_char [0, 1, 2, 3, 4, 5, 6, 7, 8, 9]"
  by code_simp

lemma digit_char_digit [simp]: "d < 10 \<Longrightarrow> digit_char d \<in> set digits_cs"
proof -
  assume "d < 10"
  then have "d \<in> set [0, 1, 2, 3, 4, 5, 6, 7, 8, 9::nat]" by auto
  then show ?thesis unfolding digits_cs_map set_map by (rule imageI)
qed

lemma show_nat_digits: "set (show_nat n) \<subseteq> set digits_cs \<and> show_nat n \<noteq> []"
proof (induction n rule: show_nat.induct)
  case (1 n)
  then show ?case by (subst (1 2) show_nat.simps) auto
qed

lemma parse_nat_snoc: "parse_nat (s @ [c]) = 10 * parse_nat s + digit_val c"
  by (simp add: parse_nat_def)

lemma parse_show_nat [simp]: "parse_nat (show_nat n) = n"
proof (induction n rule: show_nat.induct)
  case (1 n)
  show ?case
  proof (cases "n < 10")
    case True
    then show ?thesis by (subst show_nat.simps) (simp add: parse_nat_def)
  next
    case False
    with 1 show ?thesis by (subst show_nat.simps) (simp add: parse_nat_snoc)
  qed
qed

text \<open>
  \<open>Number(text)\<close>: surrounding white space is dropped, the empty text is 0, then a decimal literal,
  \<open>Infinity\<close>, or a hexadecimal, octal or binary literal; anything else is NaN.
\<close>

definition exp10 :: "int \<Rightarrow> rat" where
  "exp10 e = (if 0 \<le> e then 10 ^ nat e else 1 / 10 ^ nat (- e))"

definition decimal_re :: re where
  "decimal_re = Cat (Alt (Cat (Plus digit) (Opt (Cat (Word ''.'') (Rep digit)))) (Cat (Word ''.'') (Plus digit)))
     (Opt (Cat (Cls ''eE'') (Cat (Opt (Cls ''+-'')) (Plus digit))))"

definition split_exp :: "string \<Rightarrow> string \<times> string" where
  "split_exp s = (takeWhile (\<lambda>c. c \<notin> set ''eE'') s, drop 1 (dropWhile (\<lambda>c. c \<notin> set ''eE'') s))"

definition signed_int :: "string \<Rightarrow> int" where
  "signed_int s = (case s of [] \<Rightarrow> 0 | c # r \<Rightarrow>
     if c = CHR ''-'' then - int (parse_nat r) else if c = CHR ''+'' then int (parse_nat r) else int (parse_nat s))"

definition decimal_value :: "string \<Rightarrow> rat" where
  "decimal_value s = (let (m, e) = split_exp s; ip = takeWhile (\<lambda>c. c \<noteq> CHR ''.'') m;
       fp = drop 1 (dropWhile (\<lambda>c. c \<noteq> CHR ''.'') m)
     in of_nat (parse_nat (ip @ fp)) * exp10 (signed_int e - int (length fp)))"

definition hex_val :: "char \<Rightarrow> nat" where
  "hex_val c = (let n = of_char c in if n \<le> 57 then n - 48 else if n \<le> 70 then n - 55 else n - 87)"

definition parse_base :: "nat \<Rightarrow> string \<Rightarrow> nat" where
  "parse_base b s = foldl (\<lambda>n c. b * n + hex_val c) 0 s"

definition radix_number :: "string \<Rightarrow> jnum option" where
  "radix_number s = (case s of z # x # r \<Rightarrow>
       if z = CHR ''0'' \<and> x \<in> set ''xX'' \<and> rmatch (Plus (Cls hex_cs)) r then Some (fl (of_nat (parse_base 16 r)))
       else if z = CHR ''0'' \<and> x \<in> set ''oO'' \<and> rmatch (Plus (Cls ''01234567'')) r then Some (fl (of_nat (parse_base 8 r)))
       else if z = CHR ''0'' \<and> x \<in> set ''bB'' \<and> rmatch (Plus (Cls ''01'')) r then Some (fl (of_nat (parse_base 2 r)))
       else None
     | _ \<Rightarrow> None)"

definition unsigned_number :: "string \<Rightarrow> jnum option" where
  "unsigned_number s =
     (if s = ''Infinity'' then Some PInf
      else if rmatch decimal_re s then Some (fl (decimal_value s)) else None)"

definition str_to_num :: "string \<Rightarrow> jnum" where
  "str_to_num t = (let s = trim t in
     if s = [] then Fin 0
     else case radix_number s of Some v \<Rightarrow> v
     | None \<Rightarrow> (case unsigned_number s of Some v \<Rightarrow> v
     | None \<Rightarrow> (case s of c # r \<Rightarrow>
         (if c = CHR ''-'' then (case unsigned_number r of Some v \<Rightarrow> nneg v | None \<Rightarrow> NaN)
          else if c = CHR ''+'' then (case unsigned_number r of Some v \<Rightarrow> v | None \<Rightarrow> NaN)
          else NaN)
       | [] \<Rightarrow> NaN)))"

text \<open>
  \<open>String(number)\<close>: the shortest decimal that reads back as the number. \<open>short_digits x\<close> searches
  1 to 17 significant digits for \<open>s * 10 ^ (n - k)\<close> with \<open>10 ^ (n - 1) \<le> x < 10 ^ n\<close>; the nearest
  candidate of the first length that works is taken.
\<close>

fun dec_exp_up :: "nat \<Rightarrow> rat \<Rightarrow> int \<Rightarrow> int" where
  "dec_exp_up 0 x n = n"
| "dec_exp_up (Suc f) x n = (if exp10 n \<le> x then dec_exp_up f x (n + 1) else n)"

fun dec_exp_down :: "nat \<Rightarrow> rat \<Rightarrow> int \<Rightarrow> int" where
  "dec_exp_down 0 x n = n"
| "dec_exp_down (Suc f) x n = (if x < exp10 (n - 1) then dec_exp_down f x (n - 1) else n)"

text \<open>A binary64 value lies below \<open>10 ^ 309\<close> and, unless zero, not below \<open>10 ^ -324\<close>: 340 steps suffice.\<close>

definition dec_exp :: "rat \<Rightarrow> int" where
  "dec_exp x = dec_exp_down 340 x (dec_exp_up 340 x 0)"

definition digit_candidate :: "rat \<Rightarrow> int \<Rightarrow> int \<Rightarrow> int option" where
  "digit_candidate x n k = (let y = x / exp10 (n - k); a = \<lfloor>y\<rfloor>; b = a + 1;
       ok = (\<lambda>s. 10 ^ nat (k - 1) \<le> s \<and> s \<le> 10 ^ nat k \<and> fl_rat (of_int s * exp10 (n - k)) = x)
     in if ok a \<and> (\<not> ok b \<or> y - of_int a \<le> of_int b - y) then Some a else if ok b then Some b else None)"

text \<open>The digits, their number and the exponent; \<open>10 ^ k\<close> is one digit more, so it moves to the exponent.\<close>

fun short_digits :: "rat \<Rightarrow> int \<Rightarrow> nat \<Rightarrow> int \<Rightarrow> int \<times> int \<times> int" where
  "short_digits x n 0 k = (\<lfloor>x / exp10 (n - k)\<rfloor>, k, n)"
| "short_digits x n (Suc f) k = (case digit_candidate x n k of
       Some s \<Rightarrow> if s = 10 ^ nat k then (10 ^ nat (k - 1), k, n + 1) else (s, k, n)
     | None \<Rightarrow> short_digits x n f (k + 1))"

definition exp_suffix :: "int \<Rightarrow> string" where
  "exp_suffix e = ''e'' @ (if e < 0 then ''-'' else ''+'') @ show_nat (nat \<bar>e\<bar>)"

definition show_pos :: "rat \<Rightarrow> string" where
  "show_pos x = (let (s, k, n) = short_digits x (dec_exp x) 16 1; d = show_nat (nat s) in
     if k \<le> n \<and> n \<le> 21 then d @ replicate (nat (n - k)) (CHR ''0'')
     else if 0 < n \<and> n \<le> 21 then take (nat n) d @ ''.'' @ drop (nat n) d
     else if - 6 < n \<and> n \<le> 0 then ''0.'' @ replicate (nat (- n)) (CHR ''0'') @ d
     else if k = 1 then d @ exp_suffix (n - 1)
     else take 1 d @ ''.'' @ drop 1 d @ exp_suffix (n - 1))"

definition show_num :: "jnum \<Rightarrow> string" where
  "show_num v = (case v of NaN \<Rightarrow> ''NaN'' | PInf \<Rightarrow> ''Infinity'' | NInf \<Rightarrow> ''-Infinity''
     | Fin x \<Rightarrow> if x = 0 then ''0'' else if 0 < x then show_pos x else ''-'' @ show_pos (- x))"

section \<open>Values\<close>

fun truthy :: "jval \<Rightarrow> bool" where
  "truthy JUndef = False"
| "truthy JNull = False"
| "truthy (JBool b) = b"
| "truthy (JNum v) = (v \<noteq> NaN \<and> v \<noteq> Fin 0)"
| "truthy (JStr s) = (s \<noteq> [])"
| "truthy (JArr xs) = True"
| "truthy (JObj d) = True"

text \<open>\<open>a || b\<close>, \<open>a ?? b\<close>, \<open>v == null\<close>.\<close>

definition jor :: "jval \<Rightarrow> jval \<Rightarrow> jval" where
  "jor a b = (if truthy a then a else b)"

definition nullish :: "jval \<Rightarrow> bool" where
  "nullish v \<longleftrightarrow> v = JUndef \<or> v = JNull"

definition jcoalesce :: "jval \<Rightarrow> jval \<Rightarrow> jval" where
  "jcoalesce a b = (if nullish a then b else a)"

text \<open>\<open>typeof v === "object"\<close> holds of null too.\<close>

definition is_objectlike :: "jval \<Rightarrow> bool" where
  "is_objectlike v = (case v of JNull \<Rightarrow> True | JArr _ \<Rightarrow> True | JObj _ \<Rightarrow> True | _ \<Rightarrow> False)"

definition is_array :: "jval \<Rightarrow> bool" where
  "is_array v = (case v of JArr _ \<Rightarrow> True | _ \<Rightarrow> False)"

definition is_string :: "jval \<Rightarrow> bool" where
  "is_string v = (case v of JStr _ \<Rightarrow> True | _ \<Rightarrow> False)"

definition is_boolean :: "jval \<Rightarrow> bool" where
  "is_boolean v = (case v of JBool _ \<Rightarrow> True | _ \<Rightarrow> False)"

text \<open>An array index key: a canonical numeral below \<open>2 ^ 32 - 1\<close>.\<close>

definition index_key :: "string \<Rightarrow> nat option" where
  "index_key k = (if k \<noteq> [] \<and> set k \<subseteq> set digits_cs \<and> show_nat (parse_nat k) = k \<and> parse_nat k < 2 ^ 32 - 1
     then Some (parse_nat k) else None)"

text \<open>Reading an own property; \<open>undefined\<close> when there is none. \<open>v?.k\<close> is \<open>jget v k\<close>.\<close>

definition seq_get :: "jval list \<Rightarrow> string \<Rightarrow> jval" where
  "seq_get xs k = (if k = ''length'' then jint (int (length xs))
     else case index_key k of Some i \<Rightarrow> (if i < length xs then xs ! i else JUndef) | None \<Rightarrow> JUndef)"

definition jget :: "jval \<Rightarrow> string \<Rightarrow> jval" where
  "jget v k = (case v of
       JObj d \<Rightarrow> (case dget d k of Some x \<Rightarrow> x | None \<Rightarrow> JUndef)
     | JArr xs \<Rightarrow> seq_get xs k
     | JStr s \<Rightarrow> seq_get (map (\<lambda>c. JStr [c]) s) k
     | _ \<Rightarrow> JUndef)"

lemma index_key_0 [simp]: "index_key ''0'' = Some 0"
proof -
  have "parse_nat ''0'' = 0" by (simp add: parse_nat_def digit_val_def)
  moreover have "digit_char 0 = CHR ''0''" by code_simp
  moreover from this have "show_nat 0 = ''0''" by (subst show_nat.simps) simp
  moreover have "set ''0'' \<subseteq> set digits_cs" by code_simp
  ultimately show ?thesis by (simp add: index_key_def)
qed

lemma seq_get_0 [simp]: "seq_get xs ''0'' = (case xs of [] \<Rightarrow> JUndef | x # _ \<Rightarrow> x)"
  by (cases xs) (simp_all add: seq_get_def)

text \<open>\<open>Object.keys\<close>, \<open>Object.values\<close>, \<open>Object.entries\<close>.\<close>

definition index_sorted :: "(string \<times> 'v) list \<Rightarrow> (string \<times> 'v) list" where
  "index_sorted d =
     sort_key (\<lambda>(k, v). the (index_key k)) (filter (\<lambda>(k, v). index_key k \<noteq> None) d) @
     filter (\<lambda>(k, v). index_key k = None) d"

definition obj_entries :: "jval \<Rightarrow> (string \<times> jval) list" where
  "obj_entries v = (case v of
       JObj d \<Rightarrow> index_sorted d
     | JArr xs \<Rightarrow> zip (map show_nat [0..<length xs]) xs
     | JStr s \<Rightarrow> zip (map show_nat [0..<length s]) (map (\<lambda>c. JStr [c]) s)
     | _ \<Rightarrow> [])"

definition obj_keys :: "jval \<Rightarrow> string list" where
  "obj_keys v = map fst (obj_entries v)"

definition obj_values :: "jval \<Rightarrow> jval list" where
  "obj_values v = map snd (obj_entries v)"

lemma mset_index_sorted [simp]: "mset (index_sorted d) = mset d"
proof -
  have "filter (\<lambda>(k, v). index_key k = None) d = filter (\<lambda>x. \<not> (case x of (k, v) \<Rightarrow> index_key k \<noteq> None)) d"
    by (rule filter_cong) auto
  then show ?thesis unfolding index_sorted_def
    by (simp only: mset_append mset_sort mset_filter) (metis multiset_partition)
qed

lemma set_index_sorted [simp]: "set (index_sorted d) = set d"
  by (metis mset_index_sorted set_mset_mset)

lemma obj_keys_JObj: "set (obj_keys (JObj d)) = fst ` set d"
  by (simp add: obj_keys_def obj_entries_def)

text \<open>\<open>String(v)\<close> and \<open>Number(v)\<close>; in the text of an array \<open>null\<close> and \<open>undefined\<close> are empty.\<close>

fun to_str :: "jval \<Rightarrow> string" where
  "to_str JUndef = ''undefined''"
| "to_str JNull = ''null''"
| "to_str (JBool b) = (if b then ''true'' else ''false'')"
| "to_str (JNum v) = show_num v"
| "to_str (JStr s) = s"
| "to_str (JArr xs) = join '','' (map (\<lambda>x. if nullish x then [] else to_str x) xs)"
| "to_str (JObj d) = ''[object Object]''"

definition to_num :: "jval \<Rightarrow> jnum" where
  "to_num v = (case v of
       JUndef \<Rightarrow> NaN | JNull \<Rightarrow> Fin 0 | JBool b \<Rightarrow> (if b then Fin 1 else Fin 0) | JNum x \<Rightarrow> x
     | JStr s \<Rightarrow> str_to_num s | JArr xs \<Rightarrow> str_to_num (to_str (JArr xs)) | JObj d \<Rightarrow> NaN)"

definition is_integer :: "jval \<Rightarrow> bool" where
  "is_integer v = (case v of JNum x \<Rightarrow> nis_int x | _ \<Rightarrow> False)"

text \<open>\<open>v < n\<close>, \<open>v >= n\<close> and their kin convert a value that is not a number.\<close>

definition jlt :: "jval \<Rightarrow> jval \<Rightarrow> bool" where
  "jlt a b = nlt (to_num a) (to_num b)"

definition jle :: "jval \<Rightarrow> jval \<Rightarrow> bool" where
  "jle a b = nle (to_num a) (to_num b)"

lemma truthy_JObj_simps [simp]: "truthy (jor a (JObj d)) = True"
  by (simp add: jor_def)

lemma is_integer_iff: "is_integer v \<longleftrightarrow> (\<exists>i. v = jint i)"
  by (auto simp: is_integer_def nis_int_iff split: jval.splits)

lemma to_num_JNum [simp]: "to_num (JNum x) = x"
  by (simp add: to_num_def)

lemma jlt_nums [simp]: "jlt (JNum a) (JNum b) = nlt a b"
  by (simp add: jlt_def)

lemma jle_nums [simp]: "jle (JNum a) (JNum b) = nle a b"
  by (simp add: jle_def)

lemma jget_JObj: "jget (JObj d) k = (case dget d k of Some x \<Rightarrow> x | None \<Rightarrow> JUndef)"
  by (simp add: jget_def)

lemma jget_undef [simp]: "jget JUndef k = JUndef"
  by (simp add: jget_def)

text \<open>Setting a property of an object, \<open>{ ...v, k: x }\<close> or \<open>v.k = x\<close>.\<close>

definition jset :: "jval \<Rightarrow> string \<Rightarrow> jval \<Rightarrow> jval" where
  "jset v k x = (case v of JObj d \<Rightarrow> JObj (dput k x d) | _ \<Rightarrow> v)"

lemma jget_jset: "jget (jset (JObj d) k x) k' = (if k' = k then x else jget (JObj d) k')"
  by (simp add: jset_def jget_JObj)

definition spread :: "jval \<Rightarrow> (string \<times> jval) list" where
  "spread v = (case v of JUndef \<Rightarrow> [] | JNull \<Rightarrow> [] | _ \<Rightarrow> obj_entries v)"

definition dput_all :: "(string \<times> 'v) list \<Rightarrow> (string \<times> 'v) list \<Rightarrow> (string \<times> 'v) list" where
  "dput_all kvs d = fold (\<lambda>(k, v). dput k v) kvs d"

end
