(* ===== verification/Effects.thy ===== *)
theory Effects
  imports JsValue
begin

text \<open>
  Programs that talk to services (Redis, Postgres, \<open>fetch\<close>, Docker): a tree that asks a question
  and goes on with the answer. A service is not part of the code, so nothing is assumed of it here:
  \<open>run\<close> plays a program against an arbitrary list of answers and records the questions with the
  answers they got; a list that is too short leaves the program waiting (\<open>None\<close>), so a property of
  every run holds at every moment of an execution. An answer may be a rejection (\<open>Inl\<close>).
\<close>

section \<open>Interaction trees\<close>

datatype ('c, 'r, 'a) prog =
    Ret 'a
  | Ask 'c "'r \<Rightarrow> ('c, 'r, 'a) prog"

primrec bnd :: "('c, 'r, 'a) prog \<Rightarrow> ('a \<Rightarrow> ('c, 'r, 'b) prog) \<Rightarrow> ('c, 'r, 'b) prog" where
  "bnd (Ret a) f = f a"
| "bnd (Ask c k) f = Ask c (\<lambda>r. bnd (k r) f)"

lemma bnd_assoc: "bnd (bnd p f) g = bnd p (\<lambda>x. bnd (f x) g)"
  by (induction p) auto

lemma bnd_Ret [simp]: "bnd p Ret = p"
  by (induction p) auto

fun run :: "('c, 'r, 'a) prog \<Rightarrow> 'r list \<Rightarrow> ('c \<times> 'r option) list \<times> 'a option" where
  "run (Ret a) rs = ([], Some a)"
| "run (Ask c k) [] = ([(c, None)], None)"
| "run (Ask c k) (r # rs) = (case run (k r) rs of (t, a) \<Rightarrow> ((c, Some r) # t, a))"

definition calls :: "('c, 'r, 'a) prog \<Rightarrow> 'r list \<Rightarrow> 'c list" where
  "calls p rs = map fst (fst (run p rs))"

definition answer :: "('c, 'r, 'a) prog \<Rightarrow> 'r list \<Rightarrow> 'a option" where
  "answer p rs = snd (run p rs)"

text \<open>Against a service with a state of its own.\<close>

primrec exec :: "('s \<Rightarrow> 'c \<Rightarrow> 's \<times> 'r) \<Rightarrow> ('c, 'r, 'a) prog \<Rightarrow> 's \<Rightarrow> 's \<times> 'a" where
  "exec svc (Ret a) s = (s, a)"
| "exec svc (Ask c k) s = exec svc (k (snd (svc s c))) (fst (svc s c))"

lemma calls_Ret [simp]: "calls (Ret a) rs = []"
  by (simp add: calls_def)

lemma calls_Ask_Nil [simp]: "calls (Ask c k) [] = [c]"
  by (simp add: calls_def)

lemma calls_Ask_Cons [simp]: "calls (Ask c k) (r # rs) = c # calls (k r) rs"
  by (simp add: calls_def split: prod.splits)

lemma answer_Ret [simp]: "answer (Ret a) rs = Some a"
  by (simp add: answer_def)

lemma answer_Ask_Nil [simp]: "answer (Ask c k) [] = None"
  by (simp add: answer_def)

lemma answer_Ask_Cons [simp]: "answer (Ask c k) (r # rs) = answer (k r) rs"
  by (simp add: answer_def split: prod.splits)

lemma exec_bnd: "exec svc (bnd p f) s = (case exec svc p s of (s', a) \<Rightarrow> exec svc (f a) s')"
  by (induction p arbitrary: s) auto

text \<open>The answers a program has used up when it ends.\<close>

fun leftover :: "('c, 'r, 'a) prog \<Rightarrow> 'r list \<Rightarrow> 'r list" where
  "leftover (Ret a) rs = rs"
| "leftover (Ask c k) [] = []"
| "leftover (Ask c k) (r # rs) = leftover (k r) rs"

lemma calls_bnd:
  "calls (bnd p f) rs = calls p rs @ (case answer p rs of None \<Rightarrow> [] | Some a \<Rightarrow> calls (f a) (leftover p rs))"
  by (induction p rs rule: run.induct) (auto split: option.splits)

lemma answer_bnd:
  "answer (bnd p f) rs = (case answer p rs of None \<Rightarrow> None | Some a \<Rightarrow> answer (f a) (leftover p rs))"
  by (induction p rs rule: run.induct) (auto split: option.splits)

section \<open>Static properties\<close>

text \<open>Every question the program can ask satisfies \<open>P\<close>; every value it can return satisfies \<open>Q\<close>.\<close>

primrec asks :: "('c \<Rightarrow> bool) \<Rightarrow> ('c, 'r, 'a) prog \<Rightarrow> bool" where
  "asks P (Ret a) = True"
| "asks P (Ask c k) = (P c \<and> (\<forall>r. asks P (k r)))"

primrec rets :: "('a \<Rightarrow> bool) \<Rightarrow> ('c, 'r, 'a) prog \<Rightarrow> bool" where
  "rets Q (Ret a) = Q a"
| "rets Q (Ask c k) = (\<forall>r. rets Q (k r))"

lemma asks_bnd: "asks P p \<Longrightarrow> (\<And>a. asks P (f a)) \<Longrightarrow> asks P (bnd p f)"
  by (induction p) auto

lemma asks_bnd_rets: "asks P p \<Longrightarrow> rets Q p \<Longrightarrow> (\<And>a. Q a \<Longrightarrow> asks P (f a)) \<Longrightarrow> asks P (bnd p f)"
  by (induction p) auto

lemma rets_bnd: "rets Q p \<Longrightarrow> (\<And>a. Q a \<Longrightarrow> rets R (f a)) \<Longrightarrow> rets R (bnd p f)"
  by (induction p) auto

lemma rets_True [simp]: "rets (\<lambda>a. True) p"
  by (induction p) auto

lemma asks_calls: "asks P p \<Longrightarrow> \<forall>c \<in> set (calls p rs). P c"
  by (induction p rs rule: run.induct) auto

lemma rets_answer: "rets Q p \<Longrightarrow> answer p rs = Some a \<Longrightarrow> Q a"
  by (induction p rs rule: run.induct) auto

section \<open>Exceptions\<close>

text \<open>
  What an asynchronous function rejects with: a \<open>TypeError\<close> of the engine (a property of null or
  undefined was read), an error of a service with its message, or the \<open>ApiError\<close> of a route.
\<close>

datatype jserr = TypeError | ServiceError string | ApiError nat string

fun err_message :: "jserr \<Rightarrow> string" where
  "err_message TypeError = ''TypeError''"
| "err_message (ServiceError m) = m"
| "err_message (ApiError st m) = m"

type_synonym reply = "jserr + jval"
type_synonym ('c, 'a) io = "('c, reply, jserr + 'a) prog"

definition ok :: "'a \<Rightarrow> ('c, 'a) io" where
  "ok a = Ret (Inr a)"

definition throw :: "jserr \<Rightarrow> ('c, 'a) io" where
  "throw e = Ret (Inl e)"

definition await :: "'c \<Rightarrow> ('c, jval) io" where
  "await c = Ask c Ret"

definition next_do :: "('c, 'a) io \<Rightarrow> ('a \<Rightarrow> ('c, 'b) io) \<Rightarrow> ('c, 'b) io" where
  "next_do p f = bnd p (\<lambda>x. case x of Inl e \<Rightarrow> Ret (Inl e) | Inr a \<Rightarrow> f a)"

definition try_catch :: "('c, 'a) io \<Rightarrow> (jserr \<Rightarrow> ('c, 'a) io) \<Rightarrow> ('c, 'a) io" where
  "try_catch p h = bnd p (\<lambda>x. case x of Inl e \<Rightarrow> h e | Inr a \<Rightarrow> Ret (Inr a))"

text \<open>\<open>try { p } finally { f }\<close>: an error of \<open>f\<close> replaces the result.\<close>

definition try_finally :: "('c, 'a) io \<Rightarrow> ('c, unit) io \<Rightarrow> ('c, 'a) io" where
  "try_finally p f = bnd p (\<lambda>x. bnd f (\<lambda>y. case y of Inl e \<Rightarrow> Ret (Inl e) | Inr _ \<Rightarrow> Ret x))"

text \<open>\<open>p.catch(() => d)\<close>.\<close>

definition or_else :: "('c, 'a) io \<Rightarrow> 'a \<Rightarrow> ('c, 'a) io" where
  "or_else p d = try_catch p (\<lambda>e. ok d)"

definition discard :: "('c, 'a) io \<Rightarrow> ('c, unit) io" where
  "discard p = next_do p (\<lambda>_. ok ())"

text \<open>\<open>for (const x of xs) await f(x)\<close>, collecting the results.\<close>

fun each :: "('b \<Rightarrow> ('c, 'a) io) \<Rightarrow> 'b list \<Rightarrow> ('c, 'a list) io" where
  "each f [] = ok []"
| "each f (x # xs) = next_do (f x) (\<lambda>a. next_do (each f xs) (\<lambda>as. ok (a # as)))"

text \<open>Reading a property with a dot: null and undefined have none.\<close>

definition dot :: "jval \<Rightarrow> string \<Rightarrow> jserr + jval" where
  "dot v k = (if nullish v then Inl TypeError else Inr (jget v k))"

definition of_sum :: "jserr + 'a \<Rightarrow> ('c, 'a) io" where
  "of_sum x = Ret x"

text \<open>The first of several parts to fail; all of them are started (\<open>Promise.all\<close>).\<close>

definition both :: "('c, 'a) io \<Rightarrow> ('c, 'b) io \<Rightarrow> ('c, 'a \<times> 'b) io" where
  "both p q = bnd p (\<lambda>x. bnd q (\<lambda>y. Ret (case x of Inl e \<Rightarrow> Inl e | Inr a \<Rightarrow>
     (case y of Inl e \<Rightarrow> Inl e | Inr b \<Rightarrow> Inr (a, b)))))"

lemma next_do_of_sum [simp]:
  "next_do (of_sum (Inr a)) f = f a" "next_do (of_sum (Inl e)) f = throw e" "next_do (ok a) f = f a" "next_do (throw e) f = throw e"
  by (simp_all add: next_do_def of_sum_def throw_def ok_def)

named_theorems io_defs \<open>the combinators of asynchronous code\<close>

lemmas io_unfold [io_defs] = ok_def throw_def await_def next_do_def try_catch_def try_finally_def
  or_else_def discard_def of_sum_def both_def

lemma asks_ok [simp]: "asks P (ok a)"
  by (simp add: ok_def)

lemma asks_throw [simp]: "asks P (throw e)"
  by (simp add: throw_def)

lemma asks_of_sum [simp]: "asks P (of_sum e)"
  by (simp add: of_sum_def)

lemma asks_await [simp]: "asks P (await c) = P c"
  by (simp add: await_def)

lemma asks_next_do: "asks P p \<Longrightarrow> (\<And>a. asks P (f a)) \<Longrightarrow> asks P (next_do p f)"
  unfolding next_do_def by (rule asks_bnd) (auto split: sum.splits)

lemma asks_try_catch: "asks P p \<Longrightarrow> (\<And>e. asks P (h e)) \<Longrightarrow> asks P (try_catch p h)"
  unfolding try_catch_def by (rule asks_bnd) (auto split: sum.splits)

lemma asks_try_finally: "asks P p \<Longrightarrow> asks P f \<Longrightarrow> asks P (try_finally p f)"
  unfolding try_finally_def by (intro asks_bnd) (auto split: sum.splits)

lemma asks_or_else: "asks P p \<Longrightarrow> asks P (or_else p d)"
  unfolding or_else_def by (rule asks_try_catch) auto

lemma asks_discard: "asks P p \<Longrightarrow> asks P (discard p)"
  unfolding discard_def by (rule asks_next_do) auto

lemma asks_both: "asks P p \<Longrightarrow> asks P q \<Longrightarrow> asks P (both p q)"
  unfolding both_def by (intro asks_bnd) auto

lemma rets_caught: "rets (\<lambda>x. \<not> isl x) (try_catch p (\<lambda>e. ok (d e)))"
  unfolding try_catch_def by (rule rets_bnd [OF rets_True]) (auto simp: ok_def split: sum.split)

lemma asks_each: "(\<And>x. x \<in> set xs \<Longrightarrow> asks P (f x)) \<Longrightarrow> asks P (each f xs)"
  by (induction xs) (auto intro!: asks_next_do)

lemmas asks_intros = asks_next_do asks_try_catch asks_try_finally asks_or_else asks_discard asks_both asks_each

text \<open>The combinators against a service with a state.\<close>

lemma exec_io:
  "exec svc (ok a) s = (s, Inr a)" "exec svc (throw e) s = (s, Inl e)" "exec svc (of_sum x) s = (s, x)"
  "exec svc (await c) s = svc s c"
  by (simp_all add: io_unfold)

lemma exec_next_do: "exec svc (next_do p f) s = (case exec svc p s of (t, x) \<Rightarrow> (case x of Inl e \<Rightarrow> (t, Inl e) | Inr a \<Rightarrow> exec svc (f a) t))"
  by (auto simp: next_do_def exec_bnd split: prod.split sum.split)

lemma exec_try_catch: "exec svc (try_catch p h) s = (case exec svc p s of (t, x) \<Rightarrow> (case x of Inl e \<Rightarrow> exec svc (h e) t | Inr a \<Rightarrow> (t, Inr a)))"
  by (auto simp: try_catch_def exec_bnd split: prod.split sum.split)

lemma asks_mono: "asks P p \<Longrightarrow> (\<And>c. P c \<Longrightarrow> R c) \<Longrightarrow> asks R p"
  by (induction p) auto

end
