(* ===== verification/Net.thy ===== *)
theory Net
  imports JsValue "HOL-Library.Word"
begin

unbundle bit_operations_syntax

text \<open>
  \<open>isIP\<close> and \<open>BlockList\<close> of \<open>node:net\<close>, as the dashboard uses them. \<open>isIP\<close> is the pair of
  patterns of Node's \<open>internal/net.js\<close>; an address is a word of 32 or 128 bits and a subnet test
  compares the leading bits. An IPv6 text that maps an IPv4 address is tested against the IPv4
  subnets too, as \<open>BlockList.check\<close> documents.
\<close>

section \<open>isIP\<close>

definition v4seg :: re where
  "v4seg = Alts [Cat (Word ''25'') (Cls ''012345''), Cat (Word ''2'') (Cat (Cls ''01234'') digit),
     Cat (Word ''1'') (Cat digit digit), Cat (Cls ''123456789'') digit, digit]"

definition v4str :: re where
  "v4str = Cat (Times 3 (Cat v4seg (Word ''.''))) v4seg"

definition v6seg :: re where
  "v6seg = Between 1 4 (Cls hex_cs)"

definition seg_colon :: re where
  "seg_colon = Cat v6seg (Word '':'')"

definition colon_seg :: re where
  "colon_seg = Cat (Word '':'') v6seg"

text \<open>\<open>(?:seg:){n}(?:(?::seg){0,m}:v4|(?::seg){1,k}|:)\<close>\<close>

definition v6alt :: "nat \<Rightarrow> nat \<Rightarrow> nat \<Rightarrow> re" where
  "v6alt n m k = Cat (Times n seg_colon) (Alts [Cat (UpTo m colon_seg) (Cat (Word '':'') v4str),
     Between 1 k colon_seg, Word '':''])"

definition v6str :: re where
  "v6str = Alts
     [Cat (Times 7 seg_colon) (Alt v6seg (Word '':'')),
      Cat (Times 6 seg_colon) (Alts [v4str, colon_seg, Word '':'']),
      v6alt 5 0 2, v6alt 4 1 3, v6alt 3 2 4, v6alt 2 3 5, v6alt 1 4 6,
      Cat (Word '':'') (Alts [Cat (UpTo 5 colon_seg) (Cat (Word '':'') v4str), Between 1 7 colon_seg, Word '':''])]"

definition zone_re :: re where
  "zone_re = Opt (Cat (Word ''%'') (Plus (Cls (''-.:'' @ alnum_cs))))"

definition isIP :: "string \<Rightarrow> nat" where
  "isIP s = (if rmatch v4str s then 4 else if rmatch (Cat v6str zone_re) s then 6 else 0)"

section \<open>Addresses as words\<close>

definition v4_value :: "string \<Rightarrow> 32 word" where
  "v4_value s = foldl (\<lambda>w q. push_bit 8 w + of_nat (parse_nat q)) 0 (split_on (CHR ''.'') s)"

text \<open>The 16-bit groups of a colon-separated text; a dotted tail is two groups.\<close>

definition piece_groups :: "string \<Rightarrow> nat list" where
  "piece_groups p = (if p = [] then [] else if CHR ''.'' \<in> set p
     then [unat (drop_bit 16 (v4_value p)), unat (v4_value p AND mask 16)] else [parse_base 16 p])"

definition text_groups :: "string \<Rightarrow> nat list" where
  "text_groups s = concat (map piece_groups (split_on (CHR '':'') s))"

fun cut_double :: "string \<Rightarrow> string \<times> string option" where
  "cut_double (a # b # s) = (if a = CHR '':'' \<and> b = CHR '':'' then ([], Some s)
     else (case cut_double (b # s) of (l, r) \<Rightarrow> (a # l, r)))"
| "cut_double s = (s, None)"

definition v6_value :: "string \<Rightarrow> 128 word" where
  "v6_value s = (let t = takeWhile (\<lambda>c. c \<noteq> CHR ''%'') s;
       gs = (case cut_double t of
               (l, None) \<Rightarrow> text_groups l
             | (l, Some r) \<Rightarrow> text_groups l @
                 replicate (8 - length (text_groups l) - length (text_groups r)) 0 @ text_groups r)
     in foldl (\<lambda>w g. push_bit 16 w + of_nat g) 0 gs)"

section \<open>Block lists\<close>

record blocklist =
  v4_nets :: "(32 word \<times> nat) list"
  v6_nets :: "(128 word \<times> nat) list"

definition in_net4 :: "32 word \<Rightarrow> 32 word \<times> nat \<Rightarrow> bool" where
  "in_net4 a n \<longleftrightarrow> drop_bit (32 - snd n) a = drop_bit (32 - snd n) (fst n)"

definition in_net6 :: "128 word \<Rightarrow> 128 word \<times> nat \<Rightarrow> bool" where
  "in_net6 a n \<longleftrightarrow> drop_bit (128 - snd n) a = drop_bit (128 - snd n) (fst n)"

definition check4 :: "blocklist \<Rightarrow> 32 word \<Rightarrow> bool" where
  "check4 bl a = list_ex (in_net4 a) (v4_nets bl)"

definition check6 :: "blocklist \<Rightarrow> 128 word \<Rightarrow> bool" where
  "check6 bl a = (list_ex (in_net6 a) (v6_nets bl) \<or>
     (drop_bit 32 a = 65535 \<and> check4 bl (ucast a)))"

definition check_ip :: "blocklist \<Rightarrow> string \<Rightarrow> nat \<Rightarrow> bool" where
  "check_ip bl ip family = (if family = 4 then check4 bl (v4_value ip) else check6 bl (v6_value ip))"

section \<open>Dotted quads are addresses\<close>

lemma show_nat_1: "n < 10 \<Longrightarrow> show_nat n = [digit_char n]"
  by (subst show_nat.simps) simp

lemma show_nat_2: "10 \<le> n \<Longrightarrow> n < 100 \<Longrightarrow> show_nat n = [digit_char (n div 10), digit_char (n mod 10)]"
  by (subst show_nat.simps) (simp add: show_nat_1)

lemma show_nat_3:
  "100 \<le> n \<Longrightarrow> n < 1000 \<Longrightarrow>
     show_nat n = [digit_char (n div 100), digit_char (n div 10 mod 10), digit_char (n mod 10)]"
  by (subst show_nat.simps) (simp add: show_nat_2 div_mult2_eq [symmetric])

lemma digit_lists: "map digit_char [0..<5] = ''01234''" "map digit_char [0..<6] = ''012345''"
  "map digit_char [1..<10] = ''123456789''" "digit_char 1 = CHR ''1''" "digit_char 2 = CHR ''2''" "digit_char 5 = CHR ''5''"
  by code_simp+

lemma rlang_digit: "k \<le> 9 \<Longrightarrow> rlang digit [digit_char k]"
  by (simp add: digit_def rlang_Cls)

lemma rlang_seq1: "c \<in> set cs \<Longrightarrow> rlang r u \<Longrightarrow> rlang (Cat (Cls cs) r) (c # u)"
  by (auto simp: rlang_Cat rlang_Cls)

lemma v4seg_show_nat:
  assumes "n \<le> 255"
  shows "rlang v4seg (show_nat n)"
proof -
  have dr: "rlang (Cat digit digit) [digit_char a, digit_char b]" if "a \<le> 9" "b \<le> 9" for a b
    using rlang.cat [OF rlang_digit rlang_digit, of a b] that by simp
  consider "n < 10" | "10 \<le> n" "n < 100" | "100 \<le> n" "n < 200" | "200 \<le> n" "n < 250" | "250 \<le> n" by linarith
  then show ?thesis
  proof cases
    case 1
    then show ?thesis by (simp add: v4seg_def show_nat_1 rlang_digit)
  next
    case 2
    then have "1 \<le> n div 10" "n div 10 < 10" by linarith+
    then have "digit_char (n div 10) \<in> set (map digit_char [1..<10])" by simp
    then have "digit_char (n div 10) \<in> set ''123456789''" by (simp only: digit_lists)
    then have "rlang (Cat (Cls ''123456789'') digit) (show_nat n)"
      unfolding show_nat_2 [OF 2] by (rule rlang_seq1) (simp add: rlang_digit)
    then show ?thesis by (simp add: v4seg_def)
  next
    case 3
    then have "n div 100 = 1" by linarith
    then have "digit_char (n div 100) = CHR ''1''" by (simp only: digit_lists)
    then have "show_nat n = ''1'' @ [digit_char (n div 10 mod 10), digit_char (n mod 10)]"
      using 3 by (simp add: show_nat_3)
    then have "rlang (Cat (Word ''1'') (Cat digit digit)) (show_nat n)"
      by (intro rlang.cat [OF _ dr]) auto
    then show ?thesis by (simp add: v4seg_def)
  next
    case 4
    then have h: "n div 100 = 2" and "20 \<le> n div 10" "n div 10 < 25" by linarith+
    then have "n div 10 \<in> {20, 21, 22, 23, 24}" by auto
    then have t: "n div 10 mod 10 < 5" by auto
    have e: "show_nat n = ''2'' @ [digit_char (n div 10 mod 10), digit_char (n mod 10)]"
      using 4 h by (simp add: show_nat_3 digit_lists)
    have "digit_char (n div 10 mod 10) \<in> set (map digit_char [0..<5])" using t by simp
    then have "digit_char (n div 10 mod 10) \<in> set ''01234''" by (simp only: digit_lists)
    then have "rlang (Cat (Cls ''01234'') digit) [digit_char (n div 10 mod 10), digit_char (n mod 10)]"
      by (intro rlang_seq1 rlang_digit) simp_all
    then have "rlang (Cat (Word ''2'') (Cat (Cls ''01234'') digit)) (show_nat n)"
      unfolding e by (intro rlang.cat [OF _ _ refl]) auto
    then show ?thesis by (simp add: v4seg_def)
  next
    case 5
    with assms have h: "n div 100 = 2" and q: "n div 10 = 25" by linarith+
    with assms div_mult_mod_eq [of n 10] have "n mod 10 < 6" by simp
    then have e: "show_nat n = ''25'' @ [digit_char (n mod 10)]"
      using 5 assms h q by (simp add: show_nat_3 digit_lists)
    have "digit_char (n mod 10) \<in> set (map digit_char [0..<6])" using \<open>n mod 10 < 6\<close> by simp
    then have "rlang (Cls ''012345'') [digit_char (n mod 10)]"
      by (simp only: digit_lists rlang_Cls) simp
    then have "rlang (Cat (Word ''25'') (Cls ''012345'')) (show_nat n)"
      unfolding e by (intro rlang.cat [OF _ _ refl]) auto
    then show ?thesis by (simp add: v4seg_def)
  qed
qed

text \<open>A dotted quad of bytes: \<open>isIP\<close> answers 4 and \<open>v4_value\<close> is the word of its bytes.\<close>

definition dotted :: "nat list \<Rightarrow> string" where
  "dotted ns = join ''.'' (map show_nat ns)"

lemma dotted_quad: "dotted [a, b, c, d] = ((show_nat a @ ''.'') @ (show_nat b @ ''.'') @ (show_nat c @ ''.'')) @ show_nat d"
  by (simp add: dotted_def)

lemma isIP_dotted:
  assumes "a \<le> 255" "b \<le> 255" "c \<le> 255" "d \<le> 255"
  shows "isIP (dotted [a, b, c, d]) = 4"
proof -
  have seg: "rlang (Cat v4seg (Word ''.'')) (show_nat n @ ''.'')" if "n \<le> 255" for n
    using that by (intro rlang.cat [OF v4seg_show_nat _ refl]) auto
  have "rlang v4str (dotted [a, b, c, d])"
    unfolding v4str_def dotted_quad
    by (rule rlang.cat [OF rlang_Times3 [OF seg seg seg] v4seg_show_nat refl]) (rule assms)+
  then show ?thesis by (simp add: isIP_def rmatch_iff)
qed

lemma dot_not_digit: "CHR ''.'' \<notin> set (show_nat n)" "CHR '':'' \<notin> set (show_nat n)"
  using show_nat_digits [of n] by (auto simp: digits_cs_def)

lemma v4_value_dotted:
  "v4_value (dotted [a, b, c, d]) =
     push_bit 8 (push_bit 8 (push_bit 8 (of_nat a) + of_nat b) + of_nat c) + of_nat d"
proof -
  have "split_on (CHR ''.'') (dotted [a, b, c, d]) = map show_nat [a, b, c, d]"
    unfolding dotted_def by (rule split_on_join) (simp_all add: dot_not_digit)
  then show ?thesis by (simp add: v4_value_def)
qed

end
