(* ===== verification/Services.thy ===== *)
theory Services
  imports Effects Net
begin

text \<open>
  The services the dashboard talks to and its connections to them: \<open>lib/redis.js\<close>,
  \<open>lib/postgres.js\<close> and \<open>lib/auth.js\<close>. A command is one call on a client that is not part of the
  repository (the \<open>redis\<close> and \<open>pg\<close> packages, \<open>fetch\<close>, the clock, the random source); its answer is
  a JavaScript value or a rejection. \<open>process.env\<close> and \<open>JSON.parse\<close> are arguments. A \<open>protocol\<close>
  is a discipline of commands: which one is allowed in which state. \<open>pg_step\<close> is the transaction
  discipline, and \<open>pg_protocol\<close> turns a proof about a program's tree into facts of every run.
\<close>

section \<open>Commands\<close>

datatype sql =
    Begin | Commit | Rollback
  | CountRows string
  | SequencePresent
  | Truncate "string list"
  | ResetSequence
  | SelectVersionForUpdate
  | SelectFileConfigForUpdate
  | SelectConfig
  | UpdateSettings jval jval jval string string
  | InsertAudit jval string string jval
  | SelectRecommendationForUpdate string
  | UpdateRecommendation string jval string string jval jval
  | RevokeRecommendations "jval list"
  | SelectAdaptive | SelectBaselines | SelectRecommendations | SelectAudit
  | RecentCampaigns jval | CampaignsByType | CountCampaigns

datatype cmd =
    RConnect
  | RPing
  | RGet string
  | RMGet "string list"
  | RSet string string
  | RDel "string list"
  | RTtl string
  | RScan string
  | RXAdd string "(string \<times> jval) list"
  | RXRevRange string string jval
  | RXLen string
  | RXTrim string
  | RHGetAll string
  | RZTop string
  | PConnect
  | PQuery sql
  | PPool sql
  | PRelease
  | HFetch string "jval option"
  | HJson
  | Now
  | Uuid

type_synonym 'a svc = "(cmd, 'a) io"
type_synonym env = "string \<Rightarrow> string option"

text \<open>\<open>process.env.K || d\<close>: an empty variable counts as unset.\<close>

definition env_or :: "env \<Rightarrow> string \<Rightarrow> string \<Rightarrow> string" where
  "env_or env k d = (case env k of None \<Rightarrow> d | Some v \<Rightarrow> if v = [] then d else v)"

text \<open>\<open>parseJson\<close> and \<open>JSON.parse\<close> of a value a service returned: \<open>parse\<close> is \<open>JSON.parse\<close>.\<close>

definition text_of :: "jval \<Rightarrow> string" where
  "text_of v = (case v of JStr s \<Rightarrow> s | _ \<Rightarrow> to_str v)"

text \<open>Iterating a value with \<open>for ... of\<close> or an array method.\<close>

definition items :: "jval \<Rightarrow> jserr + jval list" where
  "items v = (case v of JArr xs \<Rightarrow> Inr xs | JStr s \<Rightarrow> Inr (map (\<lambda>c. JStr [c]) s) | _ \<Rightarrow> Inl TypeError)"

section \<open>Responses and the identity (lib/auth.js)\<close>

type_synonym http = "nat \<times> jval"

definition json :: "(string \<times> jval) list \<Rightarrow> http" where
  "json b = (200, JObj b)"

definition json_status :: "nat \<Rightarrow> (string \<times> jval) list \<Rightarrow> http" where
  "json_status st b = (st, JObj b)"

definition refuse :: "nat \<Rightarrow> string \<Rightarrow> http" where
  "refuse st msg = json_status st [(''ok'', JBool False), (''error'', JStr msg)]"

definition http_ok :: "http \<Rightarrow> bool" where
  "http_ok r \<longleftrightarrow> fst r = 200 \<and> jget (snd r) ''ok'' = JBool True"

record user =
  user_id :: string
  username :: string
  role :: string

record gate =
  gate_user :: user
  gate_denied :: "http option"

definition OPEN_USER :: user where
  "OPEN_USER = \<lparr>user_id = ''0'', username = ''operator'', role = ''admin''\<rparr>"

definition requireRole :: "string \<Rightarrow> gate" where
  "requireRole r = \<lparr>gate_user = OPEN_USER, gate_denied = None\<rparr>"

text \<open>\<open>if (gate.denied) return gate.denied;\<close>\<close>

definition gated :: "gate \<Rightarrow> http svc \<Rightarrow> http svc" where
  "gated g p = (case gate_denied g of Some r \<Rightarrow> ok r | None \<Rightarrow> p)"

lemma gated_require [simp]: "gated (requireRole r) p = p"
  by (simp add: gated_def requireRole_def)

lemma actor_operator [simp]: "username (gate_user (requireRole r)) = ''operator''"
  by (simp add: requireRole_def OPEN_USER_def)

section \<open>Disciplines of commands\<close>

text \<open>
  \<open>follows allow assm step Q p s\<close>: from state \<open>s\<close>, every command of \<open>p\<close> is allowed, the state moves
  with each answer that satisfies the assumption, and \<open>Q\<close> holds of the final state and result.
\<close>

primrec follows ::
  "('s \<Rightarrow> 'c \<Rightarrow> bool) \<Rightarrow> ('s \<Rightarrow> 'c \<Rightarrow> 'r \<Rightarrow> bool) \<Rightarrow> ('s \<Rightarrow> 'c \<Rightarrow> 'r \<Rightarrow> 's) \<Rightarrow>
     ('c, 'r, 'a) prog \<Rightarrow> ('s \<Rightarrow> 'a \<Rightarrow> bool) \<Rightarrow> 's \<Rightarrow> bool" where
  "follows allow assm step (Ret a) Q s = Q s a"
| "follows allow assm step (Ask c k) Q s =
     (allow s c \<and> (\<forall>r. assm s c r \<longrightarrow> follows allow assm step (k r) Q (step s c r)))"

lemma follows_bnd:
  "follows allow assm step (bnd p f) Q s =
     follows allow assm step p (\<lambda>s' a. follows allow assm step (f a) Q s') s"
  by (induction p arbitrary: s) auto

lemma follows_mono:
  "follows allow assm step p Q s \<Longrightarrow> (\<And>s' a. Q s' a \<Longrightarrow> R s' a) \<Longrightarrow> follows allow assm step p R s"
  by (induction p arbitrary: s) auto

text \<open>What a discipline asks of each combinator.\<close>

named_theorems follows_simps \<open>the discipline of the combinators\<close>

lemma follows_sum_case: "follows allow assm step (case x of Inl e \<Rightarrow> f e | Inr a \<Rightarrow> g a) Q s =
    (case x of Inl e \<Rightarrow> follows allow assm step (f e) Q s | Inr a \<Rightarrow> follows allow assm step (g a) Q s)"
  by (simp split: sum.split)

lemma follows_next_do [follows_simps]:
  "follows allow assm step (next_do p f) Q s = follows allow assm step p
     (\<lambda>s' x. case x of Inl e \<Rightarrow> Q s' (Inl e) | Inr a \<Rightarrow> follows allow assm step (f a) Q s') s"
  by (simp add: next_do_def follows_bnd follows_sum_case cong: sum.case_cong)

lemma follows_try_catch [follows_simps]:
  "follows allow assm step (try_catch p h) Q s = follows allow assm step p
     (\<lambda>s' x. case x of Inl e \<Rightarrow> follows allow assm step (h e) Q s' | Inr a \<Rightarrow> Q s' (Inr a)) s"
  by (simp add: try_catch_def follows_bnd follows_sum_case cong: sum.case_cong)

lemma follows_try_finally [follows_simps]:
  "follows allow assm step (try_finally p f) Q s = follows allow assm step p
     (\<lambda>s' x. follows allow assm step f (\<lambda>s'' y. case y of Inl e \<Rightarrow> Q s'' (Inl e) | Inr _ \<Rightarrow> Q s'' x) s') s"
  by (simp add: try_finally_def follows_bnd follows_sum_case cong: sum.case_cong)

lemma follows_leaf [follows_simps]:
  "follows allow assm step (ok a) Q s = Q s (Inr a)"
  "follows allow assm step (throw e) Q s = Q s (Inl e)"
  "follows allow assm step (of_sum x) Q s = Q s x"
  by (simp_all add: ok_def throw_def of_sum_def)

lemma follows_await [follows_simps]:
  "follows allow assm step (await c) Q s = (allow s c \<and> (\<forall>r. assm s c r \<longrightarrow> Q (step s c r) r))"
  by (simp add: await_def)

lemma follows_or_else [follows_simps]:
  "follows allow assm step (or_else p d) Q s = follows allow assm step p
     (\<lambda>s' x. case x of Inl e \<Rightarrow> Q s' (Inr d) | Inr a \<Rightarrow> Q s' (Inr a)) s"
  by (simp add: or_else_def follows_simps cong: sum.case_cong)

lemma follows_discard [follows_simps]:
  "follows allow assm step (discard p) Q s = follows allow assm step p
     (\<lambda>s' x. case x of Inl e \<Rightarrow> Q s' (Inl e) | Inr a \<Rightarrow> Q s' (Inr ())) s"
  by (simp add: discard_def follows_simps cong: sum.case_cong)

lemma follows_if: "follows allow assm step (if b then p else q) Q s =
    (if b then follows allow assm step p Q s else follows allow assm step q Q s)"
  by simp

lemma follows_each:
  assumes "\<And>x s'. x \<in> set xs \<Longrightarrow> I s' \<Longrightarrow>
      follows allow assm step (f x) (\<lambda>s'' r. case r of Inl e \<Rightarrow> Q s'' (Inl e) | Inr a \<Rightarrow> I s'') s'"
    and "I s" and "\<And>s' as. I s' \<Longrightarrow> Q s' (Inr as)"
  shows "follows allow assm step (each f xs) Q s"
  using assms
proof (induction xs arbitrary: s Q)
  case (Cons x xs)
  have "follows allow assm step (f x) (\<lambda>s'' r. case r of Inl e \<Rightarrow> Q s'' (Inl e) | Inr a \<Rightarrow> I s'') s"
    using Cons.prems(1,2) by simp
  then show ?case
    unfolding each.simps follows_next_do
  proof (rule follows_mono, goal_cases)
    case (1 s' r)
    show ?case
    proof (cases r)
      case (Inr a)
      then have "I s'" using 1 by simp
      then have "follows allow assm step (each f xs) (\<lambda>s' x. case x of Inl e \<Rightarrow> Q s' (Inl e)
          | Inr as \<Rightarrow> Q s' (Inr (a # as))) s'"
        using Cons.prems(1,3) by (intro Cons.IH) (auto cong: sum.case_cong)
      then show ?thesis by (simp add: Inr follows_simps cong: sum.case_cong)
    qed (use 1 in simp)
  qed
qed (simp add: follows_simps)

text \<open>A part that the discipline allows in this state and that does not move it.\<close>

lemma follows_unaffected:
  "asks (\<lambda>c. allow s c \<and> (\<forall>r. step s c r = s)) p \<Longrightarrow> rets R p \<Longrightarrow> (\<And>a. R a \<Longrightarrow> Q s a) \<Longrightarrow> follows allow assm step p Q s"
  by (induction p) auto

text \<open>\<open>phase\<close>: a result satisfies \<open>V\<close>; an error may come from any state. The rules follow the code.\<close>

definition phase ::
  "('s \<Rightarrow> 'c \<Rightarrow> bool) \<Rightarrow> ('s \<Rightarrow> 'c \<Rightarrow> reply \<Rightarrow> bool) \<Rightarrow> ('s \<Rightarrow> 'c \<Rightarrow> reply \<Rightarrow> 's) \<Rightarrow>
     ('c, 'a) io \<Rightarrow> ('s \<Rightarrow> 'a \<Rightarrow> bool) \<Rightarrow> 's \<Rightarrow> bool" where
  "phase allow assm step p V s = follows allow assm step p (\<lambda>s' x. case x of Inl e \<Rightarrow> True | Inr a \<Rightarrow> V s' a) s"

lemma phase_next:
  "phase allow assm step p V s \<Longrightarrow> (\<And>s' a. V s' a \<Longrightarrow> phase allow assm step (f a) W s') \<Longrightarrow>
     phase allow assm step (next_do p f) W s"
  unfolding phase_def follows_next_do by (erule follows_mono) (auto split: sum.splits)

lemma phase_try:
  "phase allow assm step p V s \<Longrightarrow> (\<And>e s'. phase allow assm step (h e) V s') \<Longrightarrow> phase allow assm step (try_catch p h) V s"
  unfolding phase_def follows_try_catch by (erule follows_mono) (auto split: sum.splits)

lemma follows_invariant:
  "follows allow assm step p Q s \<Longrightarrow> I s \<Longrightarrow> (\<And>s c r. I s \<Longrightarrow> I (step s c r)) \<Longrightarrow>
     follows allow assm step p (\<lambda>s' a. Q s' a \<and> I s') s"
  by (induction p arbitrary: s) auto

lemma phase_try_inv:
  assumes "phase allow assm step p V s" "I s" "\<And>s c r. I s \<Longrightarrow> I (step s c r)"
    and "\<And>e s'. I s' \<Longrightarrow> phase allow assm step (h e) V s'"
  shows "phase allow assm step (try_catch p h) V s"
proof -
  have "follows allow assm step p (\<lambda>s' x. (case x of Inl e \<Rightarrow> True | Inr a \<Rightarrow> V s' a) \<and> I s') s"
    using assms(1-3) unfolding phase_def by (intro follows_invariant [where I = I])
  then show ?thesis
    using assms(4) unfolding phase_def follows_try_catch by (elim follows_mono) (auto split: sum.splits)
qed

lemma phase_leaf:
  "V s a \<Longrightarrow> phase allow assm step (ok a) V s" "phase allow assm step (throw e) V s"
  "(\<And>a. x = Inr a \<Longrightarrow> V s a) \<Longrightarrow> phase allow assm step (of_sum x) V s"
  by (auto simp: phase_def follows_leaf split: sum.split)

lemma phase_await:
  "allow s c \<Longrightarrow> (\<And>v. assm s c (Inr v) \<Longrightarrow> V (step s c (Inr v)) v) \<Longrightarrow> phase allow assm step (await c) V s"
  by (auto simp: phase_def follows_await split: sum.split)

lemma phase_discard: "phase allow assm step p (\<lambda>s' a. V s' ()) s \<Longrightarrow> phase allow assm step (discard p) V s"
  unfolding discard_def by (erule phase_next) (rule phase_leaf)

lemma phase_mono: "phase allow assm step p V s \<Longrightarrow> (\<And>s' a. V s' a \<Longrightarrow> W s' a) \<Longrightarrow> phase allow assm step p W s"
  unfolding phase_def by (erule follows_mono) (auto split: sum.splits)

lemma phase_both:
  "phase allow assm step p (\<lambda>s' a. True) s \<Longrightarrow> (\<And>s'. phase allow assm step q (\<lambda>s' a. True) s') \<Longrightarrow>
     phase allow assm step (both p q) (\<lambda>s' a. True) s"
  unfolding phase_def both_def follows_bnd
  by (erule follows_mono, rule follows_mono) (auto split: sum.splits)

lemma phase_each:
  "(\<And>x. x \<in> set xs \<Longrightarrow> phase allow assm step (f x) (\<lambda>s' a. s' = s \<and> P a) s) \<Longrightarrow>
     phase allow assm step (each f xs) (\<lambda>s' as. s' = s \<and> list_all P as) s"
proof (induction xs)
  case (Cons x xs)
  show ?case unfolding each.simps
  proof (rule phase_next, rule Cons.prems)
    fix s' a assume a: "s' = s \<and> P a"
    show "phase allow assm step (next_do (each f xs) (\<lambda>as. ok (a # as))) (\<lambda>s' as. s' = s \<and> list_all P as) s'"
      using a by (auto intro!: phase_next [OF Cons.IH [OF Cons.prems]] phase_leaf)
  qed simp
qed (simp add: phase_leaf)

text \<open>The same on a recorded run.\<close>

fun obeys :: "('s \<Rightarrow> 'c \<Rightarrow> bool) \<Rightarrow> ('s \<Rightarrow> 'c \<Rightarrow> 'r \<Rightarrow> 's) \<Rightarrow> 's \<Rightarrow> ('c \<times> 'r option) list \<Rightarrow> bool" where
  "obeys allow step s [] = True"
| "obeys allow step s ((c, None) # t) = (allow s c \<and> t = [])"
| "obeys allow step s ((c, Some r) # t) = (allow s c \<and> obeys allow step (step s c r) t)"

fun reached :: "('s \<Rightarrow> 'c \<Rightarrow> 'r \<Rightarrow> 's) \<Rightarrow> 's \<Rightarrow> ('c \<times> 'r option) list \<Rightarrow> 's" where
  "reached step s [] = s"
| "reached step s ((c, None) # t) = s"
| "reached step s ((c, Some r) # t) = reached step (step s c r) t"

fun trusted :: "('s \<Rightarrow> 'c \<Rightarrow> 'r \<Rightarrow> bool) \<Rightarrow> ('s \<Rightarrow> 'c \<Rightarrow> 'r \<Rightarrow> 's) \<Rightarrow> 's \<Rightarrow> ('c \<times> 'r option) list \<Rightarrow> bool" where
  "trusted assm step s [] = True"
| "trusted assm step s ((c, None) # t) = True"
| "trusted assm step s ((c, Some r) # t) = (assm s c r \<and> trusted assm step (step s c r) t)"

lemma follows_obeys:
  "follows allow assm step p Q s \<Longrightarrow> trusted assm step s (fst (run p rs)) \<Longrightarrow>
     obeys allow step s (fst (run p rs))"
  by (induction p rs arbitrary: s rule: run.induct) (auto split: prod.splits)

lemma follows_result:
  "follows allow assm step p Q s \<Longrightarrow> trusted assm step s (fst (run p rs)) \<Longrightarrow> answer p rs = Some a \<Longrightarrow>
     Q (reached step s (fst (run p rs))) a"
  by (induction p rs arbitrary: s rule: run.induct) (auto simp: answer_def split: prod.splits)

lemma trusted_any [simp]: "trusted (\<lambda>s c r. True) step s t"
proof (induction t arbitrary: s)
  case (Cons x t)
  obtain c r where "x = (c, r)" by (cases x)
  with Cons show ?case by (cases r) auto
qed simp

text \<open>A discipline in which effects last only after a command that commits them.\<close>

locale protocol =
  fixes allow :: "'s \<Rightarrow> 'c \<Rightarrow> bool"
    and step :: "'s \<Rightarrow> 'c \<Rightarrow> 'r \<Rightarrow> 's"
    and start :: 's
    and lasting :: "'s \<Rightarrow> nat"
    and commits :: "'c \<Rightarrow> 'r \<Rightarrow> bool"
  assumes lasting_start: "lasting start = 0"
    and lasting_step: "allow s c \<Longrightarrow> \<not> commits c r \<Longrightarrow> lasting (step s c r) = lasting s"
begin

lemma run_obeys: "follows allow (\<lambda>s c r. True) step p Q start \<Longrightarrow> obeys allow step start (fst (run p rs))"
  by (erule follows_obeys) simp

lemma run_result:
  "follows allow (\<lambda>s c r. True) step p Q start \<Longrightarrow> answer p rs = Some a \<Longrightarrow>
     Q (reached step start (fst (run p rs))) a"
  by (erule follows_result) simp_all

lemma lasting_trace:
  "obeys allow step s t \<Longrightarrow> \<forall>(c, r) \<in> set t. \<forall>x. r = Some x \<longrightarrow> \<not> commits c x \<Longrightarrow>
     lasting (reached step s t) = lasting s"
proof (induction t arbitrary: s)
  case (Cons x t)
  obtain c r where x: "x = (c, r)" by (cases x)
  show ?case
  proof (cases r)
    case (Some y)
    with Cons x show ?thesis by (auto simp: lasting_step)
  qed (use x in simp)
qed simp

text \<open>Nothing lasts in a run that never got a commit accepted.\<close>

lemma run_lasting:
  assumes "follows allow (\<lambda>s c r. True) step p Q start"
    and "lasting (reached step start (fst (run p rs))) \<noteq> 0"
  shows "\<exists>c x. (c, Some x) \<in> set (fst (run p rs)) \<and> commits c x"
  using lasting_trace [OF run_obeys [OF assms(1), of rs]] assms(2) by (auto simp: lasting_start)

end

section \<open>The transaction discipline\<close>

text \<open>
  \<open>Idle\<close>: no client. \<open>Opened\<close>: connected, no transaction. \<open>InTx n\<close>: a transaction with \<open>n\<close> accepted
  writes. \<open>Broken n\<close>: a statement was refused. \<open>Committed n\<close>, \<open>RolledBack\<close>: the transaction has
  ended. \<open>Released n\<close>: the client went back to the pool, \<open>n\<close> durable writes. \<open>Refused\<close>: the pool gave
  no client. A write is allowed inside a transaction that is not broken, nowhere else.
\<close>

datatype pg = Idle | Opened | InTx nat | Broken nat | Committed nat | RolledBack | Released nat | Refused

fun writes :: "sql \<Rightarrow> bool" where
  "writes (Truncate ts) = True"
| "writes ResetSequence = True"
| "writes (UpdateSettings a b c d e) = True"
| "writes (InsertAudit a b c d) = True"
| "writes (UpdateRecommendation a b c d e f) = True"
| "writes (RevokeRecommendations a) = True"
| "writes q = False"

fun pg_allow :: "pg \<Rightarrow> cmd \<Rightarrow> bool" where
  "pg_allow s PConnect = (s = Idle)"
| "pg_allow s (PQuery Begin) = (s = Opened)"
| "pg_allow s (PQuery Commit) = (case s of InTx n \<Rightarrow> True | _ \<Rightarrow> False)"
| "pg_allow s (PQuery Rollback) = (case s of Opened \<Rightarrow> True | InTx n \<Rightarrow> True | Broken n \<Rightarrow> True | _ \<Rightarrow> False)"
| "pg_allow s (PQuery q) = (case s of InTx n \<Rightarrow> True | Opened \<Rightarrow> \<not> writes q | _ \<Rightarrow> False)"
| "pg_allow s PRelease = (case s of Committed n \<Rightarrow> True | RolledBack \<Rightarrow> True | _ \<Rightarrow> False)"
| "pg_allow s (PPool q) = False"
| "pg_allow s c = True"

fun pg_step :: "pg \<Rightarrow> cmd \<Rightarrow> reply \<Rightarrow> pg" where
  "pg_step s PConnect r = (case r of Inl e \<Rightarrow> Refused | Inr v \<Rightarrow> Opened)"
| "pg_step s (PQuery Begin) r = (case r of Inl e \<Rightarrow> Broken 0 | Inr v \<Rightarrow> InTx 0)"
| "pg_step s (PQuery Commit) r = (case s of InTx n \<Rightarrow> (case r of Inl e \<Rightarrow> Broken n | Inr v \<Rightarrow> Committed n) | _ \<Rightarrow> s)"
| "pg_step s (PQuery Rollback) r = RolledBack"
| "pg_step s (PQuery q) r = (case s of
       InTx n \<Rightarrow> (case r of Inl e \<Rightarrow> Broken n | Inr v \<Rightarrow> InTx (if writes q then Suc n else n))
     | Opened \<Rightarrow> (case r of Inl e \<Rightarrow> Broken 0 | Inr v \<Rightarrow> Opened)
     | _ \<Rightarrow> s)"
| "pg_step s PRelease r = (case s of Committed n \<Rightarrow> Released n | _ \<Rightarrow> Released 0)"
| "pg_step s c r = s"

text \<open>The writes the database keeps, and the command that makes it keep them.\<close>

fun durable :: "pg \<Rightarrow> nat" where
  "durable (Committed n) = n"
| "durable (Released n) = n"
| "durable s = 0"

definition commit_accepted :: "cmd \<Rightarrow> reply \<Rightarrow> bool" where
  "commit_accepted c r \<longleftrightarrow> c = PQuery Commit \<and> \<not> isl r"

lemma pg_durable: "pg_allow s c \<Longrightarrow> \<not> commit_accepted c r \<Longrightarrow> durable (pg_step s c r) = durable s"
proof (cases c)
  case (PQuery q)
  assume a: "pg_allow s c" "\<not> commit_accepted c r"
  show ?thesis
    using a unfolding PQuery
    by (cases q; cases s; cases r) (auto simp: commit_accepted_def)
qed (cases s; auto split: sum.splits)+

interpretation pg_protocol: protocol pg_allow pg_step Idle durable commit_accepted
  by unfold_locales (simp_all add: pg_durable)

abbreviation tx_follows :: "'a svc \<Rightarrow> (pg \<Rightarrow> jserr + 'a \<Rightarrow> bool) \<Rightarrow> pg \<Rightarrow> bool" where
  "tx_follows \<equiv> follows pg_allow (\<lambda>s c r. True) pg_step"

definition tx_run_ok :: "'a svc \<Rightarrow> reply list \<Rightarrow> bool" where
  "tx_run_ok p rs = obeys pg_allow pg_step Idle (fst (run p rs))"

definition tx_state :: "'a svc \<Rightarrow> reply list \<Rightarrow> pg" where
  "tx_state p rs = reached pg_step Idle (fst (run p rs))"

lemma tx_run: "tx_follows p Q Idle \<Longrightarrow> tx_run_ok p rs"
  unfolding tx_run_ok_def by (rule pg_protocol.run_obeys)

lemma tx_result: "tx_follows p Q Idle \<Longrightarrow> answer p rs = Some a \<Longrightarrow> Q (tx_state p rs) a"
  unfolding tx_state_def by (rule pg_protocol.run_result)

lemma tx_lasting:
  "tx_follows p Q Idle \<Longrightarrow> durable (tx_state p rs) \<noteq> 0 \<Longrightarrow>
     \<exists>c x. (c, Some x) \<in> set (fst (run p rs)) \<and> commit_accepted c x"
  unfolding tx_state_def by (rule pg_protocol.run_lasting)

end
