(* ===== verification/Telemetry.thy ===== *)
theory Telemetry
  imports JsValue
begin

text \<open>
  What the console makes of the gateway's events and counters: \<open>lib/telemetry.js\<close> and the pure part
  of \<open>app/ui/format.js\<close>. An event is the record the gateway publishes (a missing text is empty,
  a missing list is empty); \<open>ev_ts\<close> is its time stamp and
  \<open>ev_time\<close> the same in milliseconds, NaN when it does not parse.
  The lemmas say what the derived counters, the canonical signals and the histogram count.
\<close>

record event =
  ev_id :: string
  ev_ip :: string
  ev_method :: string
  ev_path :: string
  ev_route :: string
  ev_status :: int
  ev_decision :: string
  ev_risk :: jval
  ev_fired :: "string list"
  ev_agent :: string
  ev_reason :: string
  ev_time :: jnum
  ev_ts :: string

abbreviation fired_any :: "event \<Rightarrow> bool" where
  "fired_any e \<equiv> ev_fired e \<noteq> []"

section \<open>lib/telemetry.js\<close>

record stats =
  st_requests :: jnum
  st_alerts :: jnum
  st_decisions :: "(string \<times> jnum) list"
  st_signals :: "(string \<times> jnum) list"

definition hash_number :: "(string \<times> string) list \<Rightarrow> string \<Rightarrow> jnum" where
  "hash_number h k = (case dget h k of None \<Rightarrow> Fin 0 | Some v \<Rightarrow> if v = [] then Fin 0 else str_to_num v)"

definition parseStats :: "(string \<times> string) list \<Rightarrow> stats" where
  "parseStats h = fold (\<lambda>(k, v) st. let count = (if v = [] then Fin 0 else str_to_num v) in
       if starts_with ''decision:'' k then st\<lparr>st_decisions := dput (drop 9 k) count (st_decisions st)\<rparr>
       else if starts_with ''signal:'' k then st\<lparr>st_signals := dput (drop 7 k) count (st_signals st)\<rparr>
       else st) (index_sorted h)
     \<lparr>st_requests = hash_number h ''requests'', st_alerts = hash_number h ''alerts'', st_decisions = [], st_signals = []\<rparr>"

text \<open>\<open>/^Wget(?:\/|$)/i\<close>\<close>

definition wget_agent :: "string \<Rightarrow> bool" where
  "wget_agent a \<longleftrightarrow> to_lower (take 4 a) = ''wget'' \<and> (length a = 4 \<or> (4 < length a \<and> a ! 4 = CHR ''/''))"

definition isRoutineDockerHealthcheck :: "event \<Rightarrow> bool" where
  "isRoutineDockerHealthcheck e =
     (let loopback = (ev_ip e = ''::1'' \<or> ev_ip e = ''127.0.0.1'');
          successful = (200 \<le> ev_status e \<and> ev_status e < 300);
          markedProbe = (ev_agent e = ''IASG-Docker-Healthcheck'' \<or> wget_agent (ev_agent e))
      in loopback \<and> ev_method e = ''GET'' \<and> ev_path e = ''/api/health'' \<and> successful \<and>
         \<not> fired_any e \<and> markedProbe)"

definition event_decision :: "event \<Rightarrow> string" where
  "event_decision e = (if ev_decision e \<noteq> [] then ev_decision e
     else if 400 \<le> ev_status e then ''blocked'' else ''allow'')"

definition counts :: "string list \<Rightarrow> (string \<times> jnum) list" where
  "counts names = map (\<lambda>(k, n). (k, nint (int n))) (tally names [])"

text \<open>The second component is the \<open>derived\<close> flag.\<close>

definition withDerivedStats :: "stats \<Rightarrow> event list \<Rightarrow> stats \<times> bool" where
  "withDerivedStats st events =
     (if events = [] then (st, False) else
      let seen = nint (int (length events));
          alerts = nint (int (length (filter fired_any events)));
          signals = (if st_signals st = [] then counts (concat (map ev_fired events)) else st_signals st);
          decisions = (if st_decisions st = [] then counts (map event_decision events) else st_decisions st);
          derived = (nlt (st_requests st) seen \<or> nlt (st_alerts st) alerts)
      in (\<lparr>st_requests = nmax (st_requests st) seen, st_alerts = nmax (st_alerts st) alerts,
           st_decisions = decisions, st_signals = signals\<rparr>, derived))"

text \<open>
  \<open>decode\<close> is \<open>JSON.parse\<close> and the reading of the record's fields; a message without an \<open>event\<close>
  field, or one that does not parse, is no event.
\<close>

definition parseEventMessage :: "(string \<Rightarrow> event option) \<Rightarrow> (string \<times> string) list \<Rightarrow> event option" where
  "parseEventMessage decode message = (case dget message ''event'' of
       None \<Rightarrow> None
     | Some raw \<Rightarrow> if raw = [] then None else decode raw)"

section \<open>app/ui/format.js\<close>

definition SIGNAL_META :: "(string \<times> string \<times> string) list" where
  "SIGNAL_META =
    [(''api_flooding'', ''API flooding'', ''var(--sig-flood)''),
     (''sql_injection'', ''SQL injection'', ''var(--sig-sqli)''),
     (''consecutive_failed_logins'', ''Brute force'', ''var(--sig-brute)''),
     (''unknown_route_scanning'', ''Unknown-route scanning'', ''var(--sig-spray)''),
     (''object_enumeration'', ''Object ID enumeration (BOLA)'', ''var(--sig-objenum)''),
     (''ownership_violation'', ''Ownership check (BOLA)'', ''var(--sig-ownership)''),
     (''enumeration_path_traversal'', ''Path traversal & enumeration'', ''var(--sig-enum-trav)''),
     (''ip_reputation'', ''Known bad addresses'', ''var(--sig-reputation)'')]"

definition LEGACY_SIGNAL_ALIASES :: "(string \<times> string) list" where
  "LEGACY_SIGNAL_ALIASES =
    [(''path_traversal'', ''enumeration_path_traversal''),
     (''enumeration'', ''enumeration_path_traversal''),
     (''path_traversal+enumeration'', ''enumeration_path_traversal'')]"

definition canonicalSignalId :: "string \<Rightarrow> string" where
  "canonicalSignalId name = (case dget LEGACY_SIGNAL_ALIASES name of Some c \<Rightarrow> c | None \<Rightarrow> name)"

definition signalMeta :: "string \<Rightarrow> string \<times> string" where
  "signalMeta name = (case dget SIGNAL_META (canonicalSignalId name) of
     Some m \<Rightarrow> m | None \<Rightarrow> (name, ''var(--muted)''))"

text \<open>\<open>seen\<close> and \<open>out\<close> grow together.\<close>

fun canonical_loop :: "string list \<Rightarrow> string list \<Rightarrow> string list \<Rightarrow> string list" where
  "canonical_loop seen out [] = out"
| "canonical_loop seen out (name # names) =
     (let id = canonicalSignalId name in
      if id \<in> set seen then canonical_loop seen out names
      else canonical_loop (id # seen) (out @ [id]) names)"

definition canonicalSignals :: "string list \<Rightarrow> string list" where
  "canonicalSignals fired = canonical_loop [] [] fired"

definition LADDER :: "string list" where
  "LADDER = [''monitor'', ''throttle'', ''temp_block'', ''escalate'']"

definition normalizeAction :: "string \<Rightarrow> string" where
  "normalizeAction action = (if action = ''temporary_block'' then ''temp_block'' else action)"

definition ACTION_LABELS :: "(string \<times> string) list" where
  "ACTION_LABELS =
    [(''monitor'', ''Monitor''), (''throttle'', ''Throttle''), (''temp_block'', ''Temporary block''),
     (''escalate'', ''Escalate''), (''rate_limited'', ''Rate limited''),
     (''ownership_refused'', ''Refused: not the owner''),
     (''authentication_required'', ''Refused: login required''),
     (''body_too_large'', ''Refused: body too large''), (''body_unreadable'', ''Refused: unreadable body'')]"

definition GATEWAY_REFUSALS :: "string list" where
  "GATEWAY_REFUSALS = [''ownership_refused'', ''authentication_required'', ''body_too_large'', ''body_unreadable'']"

definition eventAction :: "event \<Rightarrow> string" where
  "eventAction e = (let decision = (if ev_decision e \<noteq> [] then ev_decision e else ''allow'') in
     if decision = ''allow'' \<and> ev_reason e \<in> set GATEWAY_REFUSALS then ev_reason e else decision)"

definition actionLabel :: "string \<Rightarrow> string" where
  "actionLabel action = (if action = [] then ''No action'' else
     let id = normalizeAction action in
     case dget ACTION_LABELS id of Some l \<Rightarrow> l
     | None \<Rightarrow> map (\<lambda>c. if c = CHR ''_'' then CHR '' '' else c) id)"

definition riskTone :: "jnum \<Rightarrow> string" where
  "riskTone score = (if nle (Fin 70) score then ''high'' else if nle (Fin 30) score then ''mid'' else ''low'')"

definition clampRiskScore :: "jval \<Rightarrow> jnum" where
  "clampRiskScore v = (let score = to_num v in
     if \<not> nis_finite score then Fin 0 else nmin (Fin 100) (nmax (Fin 0) (nround score)))"

definition formatTtl :: "jval \<Rightarrow> string" where
  "formatTtl seconds =
     (if nullish seconds \<or> jlt seconds (jint 0) then ''no expiry''
      else if jlt seconds (jint 60) then to_str seconds @ ''s left''
      else show_num (nround (ndiv (to_num seconds) (Fin 60))) @ ''m left'')"

definition isValidIp :: "string \<Rightarrow> bool" where
  "isValidIp value = (let ip = trim value in
     if ip = [] then True else
     let ipv4 = (rmatch (Cat (Between 1 3 digit) (Times 3 (Cat (Word ''.'') (Between 1 3 digit)))) ip \<and>
                 (\<forall>q \<in> set (split_on (CHR ''.'') ip). parse_nat q \<le> 255));
         ipv6 = (rmatch (Plus (Cls (CHR '':'' # hex_cs))) ip \<and> CHR '':'' \<in> set ip)
     in ipv4 \<or> ipv6)"

text \<open>Sixteen one-minute buckets back from the newest event, the newest last.\<close>

definition bucket_index :: "jnum \<Rightarrow> jnum \<Rightarrow> nat" where
  "bucket_index newest t =
     (case nmin (Fin 15) (nmax (Fin 0) (nfloor (nmul (ndiv (nsub newest t) (nint (16 * 60 * 1000))) (Fin 16)))) of
        Fin x \<Rightarrow> nat \<lfloor>x\<rfloor> | _ \<Rightarrow> 0)"

definition requestHistogram :: "event list \<Rightarrow> nat list" where
  "requestHistogram events = (case events of
       [] \<Rightarrow> replicate 16 0
     | e # _ \<Rightarrow> if ev_time e = NaN then replicate 16 0
         else fold (\<lambda>ev b. if ev_time ev = NaN then b
             else (let i = 15 - bucket_index (ev_time e) (ev_time ev) in b[i := b ! i + 1]))
           events (replicate 16 0))"

definition matchesEvent :: "event \<Rightarrow> string \<Rightarrow> bool" where
  "matchesEvent e needle = (if needle = [] then True else
     let query = to_lower (trim needle) in
     if query = [] then True else
       contains query (to_lower (ev_ip e)) \<or> contains query (to_lower (ev_path e)) \<or>
       to_lower (ev_method e) = query \<or> contains query (to_lower (ev_agent e)) \<or>
       list_ex (\<lambda>s. contains query (to_lower (fst (signalMeta s)))) (ev_fired e))"

section \<open>Lemmas\<close>

lemma canonical_alias_fixed: "dget LEGACY_SIGNAL_ALIASES name = Some c \<Longrightarrow> dget LEGACY_SIGNAL_ALIASES c = None"
  by (auto simp: LEGACY_SIGNAL_ALIASES_def dget_def split: if_splits)

lemma canonicalSignalId_idem: "canonicalSignalId (canonicalSignalId n) = canonicalSignalId n"
proof (cases "dget LEGACY_SIGNAL_ALIASES n")
  case (Some c)
  then show ?thesis using canonical_alias_fixed [OF Some] by (simp add: canonicalSignalId_def)
qed (simp add: canonicalSignalId_def)

lemma canonical_loop_uniq:
  "set seen = set out \<Longrightarrow> canonical_loop seen out names = uniq_onto out (map canonicalSignalId names)"
  by (induction seen out names rule: canonical_loop.induct) (auto simp: Let_def)

lemma canonicalSignals_uniq: "canonicalSignals fired = uniq (map canonicalSignalId fired)"
  by (simp add: canonicalSignals_def uniq_def canonical_loop_uniq)

lemma clamp_bounds: "\<exists>i. clampRiskScore v = nint i \<and> 0 \<le> i \<and> i \<le> 100"
proof (cases "to_num v")
  case (Fin x)
  let ?r = "\<lfloor>x + 1 / 2\<rfloor>"
  have "clampRiskScore v = Fin (of_int (min 100 (max 0 ?r)))"
    by (simp add: clampRiskScore_def Let_def Fin nis_finite_def of_int_min of_int_max)
  then show ?thesis by (intro exI [of _ "min 100 (max 0 ?r)"]) auto
qed (auto simp: clampRiskScore_def nis_finite_def intro: exI [of _ 0])

lemma dget_map_snd: "dget (map (\<lambda>(k, n). (k, f n)) d) k = map_option f (dget d k)"
  by (induction d) (auto simp: dget_def)

lemma counts_get: "dget (counts names) k = (if k \<in> set names then Some (nint (int (count_list names k))) else None)"
  by (auto simp: counts_def dget_map_snd tally_get)

lemma bucket_index_le: "bucket_index a b \<le> 15"
proof (cases "nfloor (nmul (ndiv (nsub a b) (nint (16 * 60 * 1000))) (Fin 16))")
  case (Fin x)
  have "nat \<lfloor>min 15 (max 0 x)\<rfloor> \<le> 15"
    using floor_mono [of "min 15 (max 0 x)" 15] by (simp add: nat_le_iff)
  then show ?thesis unfolding bucket_index_def Fin by simp
qed (simp_all add: bucket_index_def nmax_def nmin_def)

lemma sum_list_bump: "i < length b \<Longrightarrow> sum_list (b[i := Suc (b ! i)]) = Suc (sum_list b)"
proof (induction b arbitrary: i)
  case (Cons x b)
  then show ?case by (cases i) auto
qed simp

lemma histogram_fold:
  "length b = 16 \<Longrightarrow>
     length (fold (\<lambda>ev b. if ev_time ev = NaN then b
             else (let i = 15 - bucket_index t (ev_time ev) in b[i := b ! i + 1])) evs b) = 16 \<and>
     sum_list (fold (\<lambda>ev b. if ev_time ev = NaN then b
             else (let i = 15 - bucket_index t (ev_time ev) in b[i := b ! i + 1])) evs b) =
       sum_list b + length (filter (\<lambda>ev. ev_time ev \<noteq> NaN) evs)"
proof (induction evs arbitrary: b)
  case (Cons e evs)
  have "15 - bucket_index t (ev_time e) < length b" using Cons.prems by simp
  then show ?case using Cons by (simp add: Let_def sum_list_bump)
qed simp

section \<open>Properties\<close>

text \<open>The signals of an event are shown once each, under their current name, every
  signal that fired is shown, and naming them again changes nothing.\<close>

theorem canonicalSignals_names:
  "distinct (canonicalSignals fired) \<and> set (canonicalSignals fired) = canonicalSignalId ` set fired \<and>
   canonicalSignals (canonicalSignals fired) = canonicalSignals fired"
proof -
  have "map canonicalSignalId (uniq (map canonicalSignalId fired)) = uniq (map canonicalSignalId fired)"
    by (rule map_idI) (auto simp: set_uniq canonicalSignalId_idem)
  then show ?thesis
    by (simp add: canonicalSignals_uniq distinct_uniq set_uniq uniq_idem)
qed

lemma nmax_changes: "nmax a b \<noteq> a \<longleftrightarrow> nlt a b \<or> (b = NaN \<and> a \<noteq> NaN)"
  by (cases a; cases b) (auto simp: nmax_def nlt_iff)

text \<open>The counters shown are a floor taken from the visible events: a published counter
  is never lowered, published decisions and signals are kept, missing ones are counted from the
  events, and the \<open>derived\<close> flag says exactly that a counter was raised.\<close>

theorem derived_stats_floor:
  "(case withDerivedStats st events of (shown, derived) \<Rightarrow>
      (\<not> derived \<longleftrightarrow> st_requests shown = st_requests st \<and> st_alerts shown = st_alerts st) \<and>
      (st_requests st = NaN \<or> nle (st_requests st) (st_requests shown)) \<and>
      (st_alerts st = NaN \<or> nle (st_alerts st) (st_alerts shown)) \<and>
      st_signals shown = (if st_signals st = [] \<and> events \<noteq> [] then counts (concat (map ev_fired events)) else st_signals st) \<and>
      st_decisions shown = (if st_decisions st = [] \<and> events \<noteq> [] then counts (map event_decision events) else st_decisions st))"
proof -
  have le: "a = NaN \<or> nle a (nmax a (Fin x))" for a x using nle_nmax1 [of a "Fin x"] by auto
  have ch: "(nmax a (Fin x) = a) = (\<not> nlt a (Fin x))" for a x using nmax_changes [of a "Fin x"] by auto
  have refl: "a = NaN \<or> nle a a" for a by auto
  show ?thesis
    by (auto simp: withDerivedStats_def Let_def le ch refl)
qed

text \<open>The histogram has sixteen buckets, and when its newest event has a time, every
  event with a time is counted in exactly one of them.\<close>

theorem histogram_counts_every_event:
  "length (requestHistogram events) = 16 \<and>
   sum_list (requestHistogram events) =
     (case events of [] \<Rightarrow> 0 | e # _ \<Rightarrow>
        if ev_time e = NaN then 0 else length (filter (\<lambda>ev. ev_time ev \<noteq> NaN) events))"
proof (cases events)
  case (Cons e es)
  show ?thesis
  proof (cases "ev_time e = NaN")
    case False
    then show ?thesis
      using histogram_fold [of "replicate 16 0" "ev_time e" events]
      by (simp add: requestHistogram_def Cons sum_list_replicate)
  qed (simp add: requestHistogram_def Cons sum_list_replicate)
qed (simp add: requestHistogram_def sum_list_replicate)

end
