(* ===== verification/Geo.thy ===== *)
theory Geo
  imports Services Telemetry
begin

text \<open>
  \<open>lib/geo.js\<close>: which addresses may leave the machine, the look-up of the others at a third-party
  service with its cache, and the per-address summary of the visible events. The cache is the
  \<open>Map\<close> the code keeps on \<open>globalThis\<close>; a program returns the cache it leaves behind.
\<close>

section \<open>Private addresses\<close>

definition NOT_PUBLIC :: blocklist where
  "NOT_PUBLIC = \<lparr>
     v4_nets = map (\<lambda>(n, p). (v4_value n, p))
       [(''0.0.0.0'', 8), (''10.0.0.0'', 8), (''100.64.0.0'', 10), (''127.0.0.0'', 8),
        (''169.254.0.0'', 16), (''172.16.0.0'', 12), (''192.168.0.0'', 16)],
     v6_nets = map (\<lambda>(n, p). (v6_value n, p)) [(''::'', 127), (''fc00::'', 7), (''fe80::'', 10)]\<rparr>"

text \<open>\<open>/^::ffff:(\d+\.\d+\.\d+\.\d+)$/i\<close>\<close>

definition quad_re :: re where
  "quad_re = Cat (Times 3 (Cat (Plus digit) (Word ''.''))) (Plus digit)"

definition mapped :: "string \<Rightarrow> string option" where
  "mapped ip = (if to_lower (take 7 ip) = ''::ffff:'' \<and> rmatch quad_re (drop 7 ip) then Some (drop 7 ip) else None)"

lemma mapped_shorter: "mapped ip = Some q \<Longrightarrow> length q < length ip"
  by (cases ip) (auto simp: mapped_def to_lower_def split: if_splits)

function isPrivateIP :: "string \<Rightarrow> bool" where
  "isPrivateIP ip =
     (if ip = [] \<or> ip = ''localhost'' then True
      else (case mapped ip of
        Some q \<Rightarrow> isPrivateIP q
      | None \<Rightarrow> (let family = isIP ip in
          if family = 0 then True else check_ip NOT_PUBLIC ip family)))"
  by pat_completeness auto
termination
  by (relation "measure length") (auto simp: mapped_shorter)

declare isPrivateIP.simps [simp del]

section \<open>Look-ups\<close>

type_synonym cache = "(jval \<times> jval) list"

text \<open>A failed or aborted request, a status that is not 2xx and a body that is not JSON are all \<open>null\<close>.\<close>

definition fetchJson :: "string \<Rightarrow> jval option \<Rightarrow> jval svc" where
  "fetchJson url body = try_catch
     (next_do (await (HFetch url body)) (\<lambda>res.
      next_do (of_sum (dot res ''ok'')) (\<lambda>fine.
        if \<not> truthy fine then ok JNull else await HJson)))
     (\<lambda>e. ok JNull)"

definition self_url :: string where
  "self_url = ''http://ip-api.com/json/?fields=status,query,lat,lon,city,country,org''"

definition batch_url :: string where
  "batch_url = ''http://ip-api.com/batch?fields=status,query,lat,lon,city,country,org''"

definition or_text :: "jval \<Rightarrow> jval" where
  "or_text v = jor v (JStr [])"

definition lookupSelfGeo :: "cache \<Rightarrow> (jval \<times> cache) svc" where
  "lookupSelfGeo cache = (case dget cache (JStr ''__self__'') of
       Some v \<Rightarrow> ok (v, cache)
     | None \<Rightarrow> next_do (fetchJson self_url None) (\<lambda>row.
         let self = (if jget row ''status'' = JStr ''success'' \<and> \<not> nullish (jget row ''lat'') \<and> \<not> nullish (jget row ''lon'')
               then JObj [(''lat'', jget row ''lat''), (''lon'', jget row ''lon''), (''city'', or_text (jget row ''city'')),
                          (''country'', or_text (jget row ''country'')), (''ip'', or_text (jget row ''query''))]
               else JNull)
         in ok (self, dput (JStr ''__self__'') self cache)))"

definition remember :: "jval \<Rightarrow> cache \<Rightarrow> cache" where
  "remember row cache = (if truthy (jget row ''query'')
     then dput (jget row ''query'') (if jget row ''status'' = JStr ''success'' then row else JObj [(''private'', JBool False)]) cache
     else cache)"

definition public_of :: "string list \<Rightarrow> string list" where
  "public_of ips = uniq (filter (\<lambda>ip. ip \<noteq> [] \<and> \<not> isPrivateIP ip) ips)"

definition missing_of :: "cache \<Rightarrow> string list \<Rightarrow> string list" where
  "missing_of cache unique = filter (\<lambda>ip. dget cache (JStr ip) = None) unique"

definition lookupGeo :: "string list \<Rightarrow> cache \<Rightarrow> (jval \<times> cache) svc" where
  "lookupGeo ips cache =
     (let unique = public_of ips; missing = missing_of cache unique;
          answer = (\<lambda>c. ok (JObj (map (\<lambda>ip. (ip, case dget c (JStr ip) of None \<Rightarrow> JNull | Some v \<Rightarrow> jor v JNull)) unique), c))
      in if missing = [] then answer cache
         else next_do (fetchJson batch_url (Some (JArr (map JStr (take 80 missing))))) (\<lambda>rows.
              next_do (of_sum (items (jor rows (JArr [])))) (\<lambda>xs. answer (fold remember xs cache))))"

section \<open>Summary by source\<close>

record source =
  src_ip :: string
  src_requests :: nat
  src_alerts :: nat
  src_risk :: jnum

definition bump_source :: "source option \<Rightarrow> event \<Rightarrow> source" where
  "bump_source cur e = (let c = (case cur of None \<Rightarrow> \<lparr>src_ip = ev_ip e, src_requests = 0, src_alerts = 0, src_risk = Fin 0\<rparr> | Some s \<Rightarrow> s)
     in \<lparr>src_ip = src_ip c, src_requests = src_requests c + 1,
         src_alerts = src_alerts c + (if fired_any e then 1 else 0),
         src_risk = nmax (src_risk c) (clampRiskScore (ev_risk e))\<rparr>)"

definition summarizeSources :: "event list \<Rightarrow> source list" where
  "summarizeSources events =
     js_sort (desc_by src_requests) (map snd (dloop ev_ip bump_source (filter (\<lambda>e. ev_ip e \<noteq> []) events) []))"

section \<open>Which addresses are private\<close>

lemma foldl_bytes:
  "unat (v4_value (dotted [a, b, c, d])) = a * 2 ^ 24 + b * 2 ^ 16 + c * 2 ^ 8 + d"
  if "a < 256" "b < 256" "c < 256" "d < 256"
proof -
  let ?n = "((a * 2 ^ 8 + b) * 2 ^ 8 + c) * 2 ^ 8 + d"
  have e: "v4_value (dotted [a, b, c, d]) = of_nat ?n"
    by (simp add: v4_value_dotted push_bit_eq_mult)
  have "?n < 2 ^ 32" using that by simp
  then have "unat (of_nat ?n :: 32 word) = ?n" by (simp only: unat_of_nat) simp
  then show ?thesis unfolding e by simp
qed

lemma in_net4_nat: "in_net4 a (n, p) \<longleftrightarrow> unat a div 2 ^ (32 - p) = unat n div 2 ^ (32 - p)"
  unfolding in_net4_def word_unat_eq_iff snd_conv fst_conv unat_drop_bit_eq
  by (simp only: drop_bit_eq_div)

lemma dotted_chars: "CHR '':'' \<notin> set (dotted [a, b, c, d])" "CHR ''.'' \<in> set (dotted [a, b, c, d])"
  by (simp_all add: dotted_quad dot_not_digit)

lemma lower_colon: "lower_char c = CHR '':'' \<longleftrightarrow> c = CHR '':''"
proof
  assume a: "lower_char c = CHR '':''"
  show "c = CHR '':''"
  proof (rule ccontr)
    assume "c \<noteq> CHR '':''"
    with a have u: "char_of ((of_char c :: nat) + 32) = CHR '':''" "(of_char c :: nat) \<le> 222" "65 \<le> (of_char c :: nat)"
      by (auto simp: lower_char_def Let_def split: if_splits)
    have m: "((of_char c :: nat) + 32) mod 256 = 58"
      using arg_cong [OF u(1), of "of_char :: char \<Rightarrow> nat"] by simp
    have "(of_char c :: nat) + 32 < 256" using u(2) by simp
    then show False using m u(3) by (simp add: mod_less)
  qed
qed (simp add: lower_char_def)

lemma mapped_colon: "CHR '':'' \<notin> set ip \<Longrightarrow> mapped ip = None"
proof -
  assume "CHR '':'' \<notin> set ip"
  then have "CHR '':'' \<notin> set (to_lower (take 7 ip))"
  proof (rule contrapos_nn)
    assume "CHR '':'' \<in> set (to_lower (take 7 ip))"
    then obtain x where "x \<in> set (take 7 ip)" "lower_char x = CHR '':''" by (force simp: to_lower_def)
    then show "CHR '':'' \<in> set ip" by (auto simp: lower_colon dest: in_set_takeD)
  qed
  then have "to_lower (take 7 ip) \<noteq> ''::ffff:''" by (metis list.set_intros(1))
  then show ?thesis by (simp add: mapped_def)
qed

lemma mapped_dotted: "mapped (''::ffff:'' @ dotted [a, b, c, d]) = Some (dotted [a, b, c, d])"
proof -
  have n: "rlang (Plus digit) (show_nat n)" for n
    using show_nat_digits [of n] by (simp add: digit_def rlang_Cls_Plus)
  have s: "rlang (Cat (Plus digit) (Word ''.'')) (show_nat n @ ''.'')" for n
    by (rule rlang.cat [OF n _ refl]) simp
  have "rlang quad_re (dotted [a, b, c, d])"
    unfolding quad_re_def dotted_quad by (rule rlang.cat [OF rlang_Times3 [OF s s s] n refl])
  moreover have "to_lower ''::ffff:'' = ''::ffff:''" by code_simp
  ultimately show ?thesis by (simp add: mapped_def rmatch_iff)
qed

lemma private_dotted:
  assumes "a < 256" "b < 256" "c < 256" "d < 256"
  shows "isPrivateIP (dotted [a, b, c, d]) = check4 NOT_PUBLIC (v4_value (dotted [a, b, c, d]))"
proof -
  have ne: "dotted [a, b, c, d] \<noteq> []" "dotted [a, b, c, d] \<noteq> ''localhost''"
    using dotted_chars(2) [of a b c d] by auto
  have "isIP (dotted [a, b, c, d]) = 4" using assms by (intro isIP_dotted) auto
  then show ?thesis
    by (subst isPrivateIP.simps) (simp add: ne mapped_colon [OF dotted_chars(1)] check_ip_def)
qed

lemma net_literals:
  "unat (v4_value ''0.0.0.0'') = 0" "unat (v4_value ''10.0.0.0'') = 10 * 2 ^ 24"
  "unat (v4_value ''100.64.0.0'') = 100 * 2 ^ 24 + 64 * 2 ^ 16" "unat (v4_value ''127.0.0.0'') = 127 * 2 ^ 24"
  "unat (v4_value ''169.254.0.0'') = 169 * 2 ^ 24 + 254 * 2 ^ 16"
  "unat (v4_value ''172.16.0.0'') = 172 * 2 ^ 24 + 16 * 2 ^ 16"
  "unat (v4_value ''192.168.0.0'') = 192 * 2 ^ 24 + 168 * 2 ^ 16"
  by (simp_all add: v4_value_def parse_nat_def digit_val_def push_bit_eq_mult)

lemma prefix_split:
  fixes a b c d :: nat
  assumes "a < 256" "b < 256" "c < 256" "d < 256"
  shows "(a * 2 ^ 24 + b * 2 ^ 16 + c * 2 ^ 8 + d) div 2 ^ 24 = a"
    and "(a * 2 ^ 24 + b * 2 ^ 16 + c * 2 ^ 8 + d) div 2 ^ 16 = a * 256 + b"
    and "(a * 2 ^ 24 + b * 2 ^ 16 + c * 2 ^ 8 + d) div 2 ^ 22 = a * 4 + b div 64"
    and "(a * 2 ^ 24 + b * 2 ^ 16 + c * 2 ^ 8 + d) div 2 ^ 20 = a * 16 + b div 16"
proof -
  have "b * 2 ^ 16 + c * 2 ^ 8 + d < 2 ^ 24" "c * 2 ^ 8 + d < 2 ^ 16" using assms by simp_all
  then show "(a * 2 ^ 24 + b * 2 ^ 16 + c * 2 ^ 8 + d) div 2 ^ 24 = a"
    and p16: "(a * 2 ^ 24 + b * 2 ^ 16 + c * 2 ^ 8 + d) div 2 ^ 16 = a * 256 + b" by simp_all
  have "(a * 2 ^ 24 + b * 2 ^ 16 + c * 2 ^ 8 + d) div 2 ^ 22 = (a * 2 ^ 24 + b * 2 ^ 16 + c * 2 ^ 8 + d) div 2 ^ 16 div 2 ^ 6"
    by (simp add: div_mult2_eq [symmetric])
  then show "(a * 2 ^ 24 + b * 2 ^ 16 + c * 2 ^ 8 + d) div 2 ^ 22 = a * 4 + b div 64"
    unfolding p16 by simp
  have "(a * 2 ^ 24 + b * 2 ^ 16 + c * 2 ^ 8 + d) div 2 ^ 20 = (a * 2 ^ 24 + b * 2 ^ 16 + c * 2 ^ 8 + d) div 2 ^ 16 div 2 ^ 4"
    by (simp add: div_mult2_eq [symmetric])
  then show "(a * 2 ^ 24 + b * 2 ^ 16 + c * 2 ^ 8 + d) div 2 ^ 20 = a * 16 + b div 16"
    unfolding p16 by simp
qed

lemma private_bytes:
  fixes a b c d :: nat
  assumes "a < 256" "b < 256" "c < 256" "d < 256"
  shows "isPrivateIP (dotted [a, b, c, d]) \<longleftrightarrow>
    a = 0 \<or> a = 10 \<or> (a = 100 \<and> 64 \<le> b \<and> b < 128) \<or> a = 127 \<or> (a = 169 \<and> b = 254) \<or>
    (a = 172 \<and> 16 \<le> b \<and> b < 32) \<or> (a = 192 \<and> b = 168)"
proof -
  have q: "b div 64 < 4" "b div 16 < 16" using assms by simp_all
  have d: "b div 64 = 1 \<longleftrightarrow> 64 \<le> b \<and> b < 128" "b div 16 = 1 \<longleftrightarrow> 16 \<le> b \<and> b < 32"
    by (intro iffI; linarith)+
  have small: "x < 4 \<Longrightarrow> a * 4 + x = 401 \<longleftrightarrow> a = 100 \<and> x = 1" "x < 16 \<Longrightarrow> a * 16 + x = 2753 \<longleftrightarrow> a = 172 \<and> x = 1"
    for x :: nat by presburger+
  have "a * 4 + b div 64 = 401 \<longleftrightarrow> a = 100 \<and> b div 64 = 1" using small(1) [OF q(1)] .
  then have e10: "a * 4 + b div 64 = 401 \<longleftrightarrow> a = 100 \<and> 64 \<le> b \<and> b < 128" by (simp only: d)
  have "a * 16 + b div 16 = 2753 \<longleftrightarrow> a = 172 \<and> b div 16 = 1" using small(2) [OF q(2)] .
  then have e12: "a * 16 + b div 16 = 2753 \<longleftrightarrow> a = 172 \<and> 16 \<le> b \<and> b < 32" by (simp only: d)
  have "(a * 256 + b) div 256 = a" "(a * 256 + b) mod 256 = b" using assms(2) by simp_all
  then have key: "a * 256 + b = k \<longleftrightarrow> a = k div 256 \<and> b = k mod 256" for k by (metis div_mult_mod_eq)
  have e16: "a * 256 + b = 43518 \<longleftrightarrow> a = 169 \<and> b = 254" "a * 256 + b = 49320 \<longleftrightarrow> a = 192 \<and> b = 168"
    using key [of 43518] key [of 49320] by simp_all
  have n: "in_net4 (v4_value (dotted [a, b, c, d])) (x, 8) \<longleftrightarrow> a = unat x div 2 ^ 24"
    "in_net4 (v4_value (dotted [a, b, c, d])) (x, 16) \<longleftrightarrow> a * 256 + b = unat x div 2 ^ 16"
    "in_net4 (v4_value (dotted [a, b, c, d])) (x, 10) \<longleftrightarrow> a * 4 + b div 64 = unat x div 2 ^ 22"
    "in_net4 (v4_value (dotted [a, b, c, d])) (x, 12) \<longleftrightarrow> a * 16 + b div 16 = unat x div 2 ^ 20" for x
    unfolding in_net4_nat foldl_bytes [OF assms] using prefix_split [OF assms] by simp_all
  show ?thesis
    unfolding private_dotted [OF assms]
    by (simp add: check4_def NOT_PUBLIC_def n net_literals e10 e12 e16)
qed

lemma private_mapped: "isPrivateIP (''::ffff:'' @ dotted [a, b, c, d]) = isPrivateIP (dotted [a, b, c, d])"
  by (subst isPrivateIP.simps) (simp only: mapped_dotted, simp)

text \<open>Property C32. Of the IPv4 addresses exactly the loopback, link-local, shared, private and
  \<open>this network\<close> ranges count as private, and an address written as an IPv4-mapped IPv6 address
  counts as its IPv4 form.\<close>

theorem private_ranges_exact:
  fixes a b c d :: "8 word"
  shows "(isPrivateIP (dotted [unat a, unat b, unat c, unat d]) \<longleftrightarrow>
      a = 0 \<or> a = 10 \<or> (a = 100 \<and> 64 \<le> b \<and> b < 128) \<or> a = 127 \<or> (a = 169 \<and> b = 254) \<or>
      (a = 172 \<and> 16 \<le> b \<and> b < 32) \<or> (a = 192 \<and> b = 168)) \<and>
    isPrivateIP (''::ffff:'' @ dotted [unat a, unat b, unat c, unat d]) =
      isPrivateIP (dotted [unat a, unat b, unat c, unat d])"
proof -
  have l: "unat x < 256" for x :: "8 word" using unsigned_less [of x] by simp
  show ?thesis
    unfolding private_mapped private_bytes [OF l l l l]
    by (simp add: word_unat_eq_iff word_le_nat_alt word_less_nat_alt)
qed

section \<open>Look-ups send public addresses only\<close>

text \<open>A request to the batch service: at most 80 addresses, all asked for, public and not cached.\<close>

definition discreet :: "string list \<Rightarrow> cache \<Rightarrow> cmd \<Rightarrow> bool" where
  "discreet ips cache c = (case c of
       HFetch url (Some (JArr xs)) \<Rightarrow> url = batch_url \<and> xs \<noteq> [] \<and> length xs \<le> 80 \<and> distinct xs \<and>
         list_all (\<lambda>x. case x of JStr ip \<Rightarrow> ip \<in> set ips \<and> \<not> isPrivateIP ip \<and> dget cache x = None | _ \<Rightarrow> False) xs
     | HJson \<Rightarrow> True
     | _ \<Rightarrow> False)"

lemma missing_facts:
  "distinct (missing_of cache (public_of ips))"
  "ip \<in> set (missing_of cache (public_of ips)) \<longleftrightarrow>
     ip \<in> set ips \<and> ip \<noteq> [] \<and> \<not> isPrivateIP ip \<and> dget cache (JStr ip) = None"
  by (auto simp: missing_of_def public_of_def)

lemma lookup_asks: "asks (discreet ips cache) (lookupGeo ips cache)"
proof -
  let ?m = "missing_of cache (public_of ips)"
  have "discreet ips cache (HFetch batch_url (Some (JArr (map JStr (take 80 ?m)))))" if "?m \<noteq> []"
    using that missing_facts(1) [of cache ips]
    by (auto simp: discreet_def distinct_map inj_on_def missing_facts(2) list_all_iff dest!: in_set_takeD)
  then show ?thesis
    unfolding lookupGeo_def fetchJson_def Let_def
    by (auto intro!: asks_intros simp: discreet_def)
qed

lemma lookup_silent: "calls (lookupGeo ips cache) rs = [] \<longleftrightarrow> missing_of cache (public_of ips) = []"
  by (cases rs) (auto simp: lookupGeo_def fetchJson_def Let_def io_unfold)

text \<open>Property C17. Whatever the service answers, a look-up only ever sends addresses that were asked
  for, are public and are not in the cache, at most 80 and none twice; it sends nothing exactly when
  there is no such address.\<close>

theorem lookup_sends_public_only:
  "list_all (discreet ips cache) (calls (lookupGeo ips cache) rs) \<and>
   (calls (lookupGeo ips cache) rs = [] \<longleftrightarrow>
      {ip \<in> set ips. ip \<noteq> [] \<and> \<not> isPrivateIP ip \<and> dget cache (JStr ip) = None} = {})"
proof -
  have "{ip \<in> set ips. ip \<noteq> [] \<and> \<not> isPrivateIP ip \<and> dget cache (JStr ip) = None} = set (missing_of cache (public_of ips))"
    by (auto simp: missing_facts(2))
  then show ?thesis
    using asks_calls [OF lookup_asks, of ips cache rs] by (simp add: lookup_silent list_all_iff)
qed

section \<open>The summary counts every event\<close>

definition source_of :: "event list \<Rightarrow> string \<Rightarrow> source" where
  "source_of events ip = (let es = filter (\<lambda>e. ev_ip e = ip) events in
     \<lparr>src_ip = ip, src_requests = length es, src_alerts = length (filter fired_any es),
      src_risk = fold (\<lambda>e m. nmax m (clampRiskScore (ev_risk e))) es (Fin 0)\<rparr>)"

lemma bump_fold:
  "es \<noteq> [] \<Longrightarrow> list_all (\<lambda>e. ev_ip e = ip) es \<Longrightarrow>
     fold (\<lambda>e r. Some (bump_source r e)) es None = Some
       \<lparr>src_ip = ip, src_requests = length es, src_alerts = length (filter fired_any es),
        src_risk = fold (\<lambda>e m. nmax m (clampRiskScore (ev_risk e))) es (Fin 0)\<rparr>"
proof (induction es rule: rev_induct)
  case (snoc e es)
  then show ?case by (cases "es = []") (auto simp: bump_source_def Let_def)
qed simp

lemma dict_ranges: "dwf d \<Longrightarrow> (\<And>k v. dget d k = Some v \<Longrightarrow> v = f k) \<Longrightarrow> map snd d = map f (dkeys d)"
  by (auto simp: dkeys_def dget_mem intro!: map_cong)

lemma sources_map:
  "map snd (dloop ev_ip bump_source es []) = map (source_of es) (dkeys (dloop ev_ip bump_source es []))"
proof (rule dict_ranges)
  fix k v
  assume "dget (dloop ev_ip bump_source es []) k = Some v"
  then have v: "fold (\<lambda>e r. Some (bump_source r e)) (filter (\<lambda>e. ev_ip e = k) es) None = Some v"
    by (simp add: dloop_get)
  then have "filter (\<lambda>e. ev_ip e = k) es \<noteq> []" by auto
  then have "fold (\<lambda>e r. Some (bump_source r e)) (filter (\<lambda>e. ev_ip e = k) es) None = Some (source_of es k)"
    unfolding source_of_def Let_def by (intro bump_fold) (auto simp: list_all_iff)
  with v show "v = source_of es k" by simp
qed (simp add: dloop_wf)

text \<open>The summary has one row for each address that sent a visible event, busiest
  first; the row counts that address's events and alerts and keeps its highest clamped risk score.\<close>

theorem summary_by_source:
  "sorted_wrt (\<lambda>a b. src_requests b \<le> src_requests a) (summarizeSources events) \<and>
   mset (summarizeSources events) = image_mset (source_of events) (mset_set (set (map ev_ip events) - {[]}))"
proof -
  let ?es = "filter (\<lambda>e. ev_ip e \<noteq> []) events"
  let ?d = "dloop ev_ip bump_source ?es []"
  have k: "set (dkeys ?d) = set (map ev_ip events) - {[]}" by (simp add: dloop_keys) (auto simp: dkeys_def)
  have "distinct (dkeys ?d)" using dloop_wf [of "[]" ev_ip bump_source ?es] by (simp add: dwf_def dkeys_def)
  then have m: "mset (dkeys ?d) = mset_set (set (map ev_ip events) - {[]})"
    using mset_set_set [of "dkeys ?d"] k by simp
  have s: "source_of ?es ip = source_of events ip" if "ip \<in> set (dkeys ?d)" for ip
  proof -
    have "ip \<noteq> []" using that unfolding k by simp
    then have "filter (\<lambda>e. ev_ip e = ip) ?es = filter (\<lambda>e. ev_ip e = ip) events"
      unfolding filter_filter by (intro filter_cong) auto
    then show ?thesis by (simp only: source_of_def)
  qed
  have "mset (map snd ?d) = image_mset (source_of events) (mset (dkeys ?d))"
    unfolding sources_map by (simp only: mset_map) (rule image_mset_cong, simp add: s)
  then have "mset (summarizeSources events) = image_mset (source_of events) (mset_set (set (map ev_ip events) - {[]}))"
    by (simp add: summarizeSources_def m)
  moreover have "sorted_wrt (desc_by src_requests) (summarizeSources events)"
    unfolding summarizeSources_def by (rule desc.js_sort_sorted) simp
  ultimately show ?thesis by (simp add: desc_by_eta)
qed

end
