(* ===== verification/SetupChecks.thy ===== *)
theory SetupChecks
  imports Geo
begin

text \<open>
  Deployment mistakes read off the event stream: \<open>lib/setup-checks.mjs\<close>. The events are those of
  \<open>Telemetry\<close>; a warning is a record with its title and detail as the numbers they are built from.
  The lemmas say when each warning appears and that its numbers are those of the window.
\<close>

definition UNMATCHED :: string where "UNMATCHED = ''<unmatched>''"
definition MIN_EVENTS :: nat where "MIN_EVENTS = 30"
definition PRIVATE_SHARE :: jnum where "PRIVATE_SHARE = fl (9 / 10)"
definition MIN_ROUTE_CLIENTS :: nat where "MIN_ROUTE_CLIENTS = 2"
definition MIN_ROUTE_REQUESTS :: nat where "MIN_ROUTE_REQUESTS = 5"
definition MAX_ROUTES_LISTED :: nat where "MAX_ROUTES_LISTED = 5"

definition PATH_ATTACK_SIGNALS :: "string list" where
  "PATH_ATTACK_SIGNALS = [''enumeration_path_traversal'', ''path_traversal'', ''enumeration'', ''sql_injection'']"

definition VARIABLE_SEGMENT :: "re list" where
  "VARIABLE_SEGMENT =
    [Plus digit,
     Cat (Times 8 (Cls hex_cs)) (Cat (Times 3 (Cat (Word ''-'') (Times 4 (Cls hex_cs)))) (Cat (Word ''-'') (Times 12 (Cls hex_cs)))),
     AtLeast 16 (Cls hex_cs),
     Both (Cat (Rep (Cls (CHR ''_'' # CHR ''-'' # alnum_cs))) (Cat digit (Rep (Cls (CHR ''_'' # CHR ''-'' # alnum_cs)))))
       (AtLeast 20 (Cls (CHR ''_'' # CHR ''-'' # alnum_cs)))]"

definition variable_segment :: "string \<Rightarrow> bool" where
  "variable_segment s = list_ex (\<lambda>r. rmatch r s) VARIABLE_SEGMENT"

definition suggestTemplate :: "string \<Rightarrow> string" where
  "suggestTemplate path = join ''/'' (map (\<lambda>s. if variable_segment s then ''{id}'' else s) (split_on (CHR ''/'') path))"

datatype warning =
    PrivateSources nat jnum "(string \<times> nat) list"
  | MissingRoutes nat nat "(string \<times> nat \<times> nat) list"

text \<open>The whole-number percentage of the share, the window and the three busiest private addresses.\<close>

definition privateSources :: "event list \<Rightarrow> warning option" where
  "privateSources events =
     (if length events < MIN_EVENTS then None else
      let priv = filter (\<lambda>e. isPrivateIP (ev_ip e)) events;
          counts = tally (map ev_ip priv) [];
          share = ndiv (nint (int (length priv))) (nint (int (length events)))
      in if nlt share PRIVATE_SHARE then None
         else Some (PrivateSources (length events) (nround (nmul share (Fin 100))) (take 3 (js_sort (desc_by snd) counts))))"

record route_group =
  rg_key :: string
  rg_requests :: nat
  rg_clients :: "string list"

definition route_key :: "event \<Rightarrow> string" where
  "route_key e = (if ev_method e = [] then ''GET'' else ev_method e) @ '' '' @ suggestTemplate (ev_path e)"

definition bump_group :: "route_group option \<Rightarrow> event \<Rightarrow> route_group" where
  "bump_group cur e = (let g = (case cur of None \<Rightarrow> \<lparr>rg_key = route_key e, rg_requests = 0, rg_clients = []\<rparr> | Some g \<Rightarrow> g)
     in g\<lparr>rg_requests := rg_requests g + 1, rg_clients := (if ev_ip e \<in> set (rg_clients g) then rg_clients g else rg_clients g @ [ev_ip e])\<rparr>)"

definition unlisted :: "event \<Rightarrow> bool" where
  "unlisted e \<longleftrightarrow> ev_route e = UNMATCHED \<and> \<not> list_ex (\<lambda>n. n \<in> set PATH_ATTACK_SIGNALS) (ev_fired e)"

definition regular :: "route_group \<Rightarrow> bool" where
  "regular g \<longleftrightarrow> MIN_ROUTE_CLIENTS \<le> length (rg_clients g) \<and> MIN_ROUTE_REQUESTS \<le> rg_requests g \<and>
     2 * length (rg_clients g) \<le> rg_requests g"

definition route_groups :: "event list \<Rightarrow> route_group list" where
  "route_groups events = map snd (dloop route_key bump_group (filter unlisted events) [])"

definition missingRoutes :: "event list \<Rightarrow> warning option" where
  "missingRoutes events =
     (let routes = js_sort (desc_by rg_requests) (filter regular (route_groups events)) in
      if routes = [] then None
      else Some (MissingRoutes (length routes) (sum_list (map rg_requests routes))
        (map (\<lambda>g. (rg_key g, rg_requests g, length (rg_clients g))) (take MAX_ROUTES_LISTED routes))))"

text \<open>The texts of a warning.\<close>

definition plural :: "nat \<Rightarrow> string \<Rightarrow> string \<Rightarrow> string" where
  "plural n one many = (if n = 1 then one else many)"

definition middle_dot :: string where
  "middle_dot = [char_of (183 :: nat)]"

definition warning_json :: "warning \<Rightarrow> jval" where
  "warning_json w = (case w of
     PrivateSources window percent addresses \<Rightarrow> JObj
       [(''id'', JStr ''private-sources''),
        (''title'', JStr ''Most traffic comes from private addresses, which are never blocked''),
        (''detail'', JStr (show_num percent @ ''% of the last '' @ show_nat window @ '' requests came from private addresses, '' @
           ''which the gateway and decision engine never block. If clients reach the gateway through a proxy '' @
           ''or load balancer, add its address to server.trusted_proxies in the gateway config and restart '' @
           ''the gateway. Expected if your clients really are on a private network, or you are testing from '' @
           ''this machine.'')),
        (''items'', JArr (map (\<lambda>(ip, n). JObj [(''label'', JStr ip),
           (''value'', JStr (show_nat n @ '' '' @ plural n ''request'' ''requests''))]) addresses))]
   | MissingRoutes routes requests rows \<Rightarrow> JObj
       [(''id'', JStr ''missing-routes''),
        (''title'', JStr (show_nat routes @ '' '' @ plural routes ''endpoint is'' ''endpoints are'' @ '' missing from the route table'')),
        (''detail'', JStr (show_nat requests @ '' recent requests from several clients matched no route template. Unmatched paths count '' @
           ''toward unknown-route scanning, so regular clients of these endpoints can be flagged as scanners. '' @
           ''Add them to routes.templates in the gateway config and restart the gateway; {id} marks a segment '' @
           ''that varies.'')),
        (''items'', JArr (map (\<lambda>(key, n, c). JObj [(''label'', JStr key),
           (''value'', JStr (show_nat n @ '' requests '' @ middle_dot @ '' '' @ show_nat c @ '' clients''))]) rows))])"

definition setupChecks :: "event list \<Rightarrow> warning list" where
  "setupChecks events = (case privateSources events of None \<Rightarrow> [] | Some w \<Rightarrow> [w]) @
     (case missingRoutes events of None \<Rightarrow> [] | Some w \<Rightarrow> [w])"

section \<open>The share of private requests\<close>

lemma dyadic_steps: "fl (14745 / 16384) = Fin (14745 / 16384)" "fl (29491 / 32768) = Fin (29491 / 32768)"
  using fl_dyadic [of 14745 14] fl_dyadic [of 29491 15] by simp_all

lemma share_boundary:
  assumes "0 < n" "n \<le> (2000::nat)"
  shows "\<not> nlt (ndiv (nint (int p)) (nint (int n))) PRIVATE_SHARE \<longleftrightarrow> 9 * n \<le> 10 * p"
proof -
  have d: "ndiv (nint (int p)) (nint (int n)) = fl (of_nat p / of_nat n)" using assms(1) by simp
  show ?thesis
  proof
    assume le: "9 * n \<le> 10 * p"
    have "(9 / 10 :: rat) \<le> of_nat p / of_nat n"
    proof -
      have "(of_nat (9 * n) :: rat) \<le> of_nat (10 * p)" using le by (simp only: of_nat_le_iff)
      then show ?thesis using assms(1) by (simp add: field_simps)
    qed
    then have "nle (fl (9 / 10)) (fl (of_nat p / of_nat n))" by (rule fl_mono)
    then show "\<not> nlt (ndiv (nint (int p)) (nint (int n))) PRIVATE_SHARE"
      unfolding d PRIVATE_SHARE_def using not_nle nlt_iff nle_antisym by blast
  next
    assume a: "\<not> nlt (ndiv (nint (int p)) (nint (int n))) PRIVATE_SHARE"
    show "9 * n \<le> 10 * p"
    proof (rule ccontr)
      assume "\<not> 9 * n \<le> 10 * p"
      then have "10 * p + 1 \<le> 9 * n" by simp
      then have "(of_nat (10 * p + 1) :: rat) \<le> of_nat (9 * n)" by (simp only: of_nat_le_iff)
      then have "10 * of_nat p + 1 \<le> 9 * (of_nat n :: rat)" by simp
      moreover have "(of_nat n :: rat) \<le> 2000" using assms(2) of_nat_le_iff [of n 2000] by simp
      ultimately have "16384 * (of_nat p :: rat) \<le> 14745 * of_nat n" by linarith
      then have "of_nat p / of_nat n \<le> (14745 / 16384 :: rat)" using assms(1) by (simp add: field_simps)
      then have u: "nle (fl (of_nat p / of_nat n)) (Fin (14745 / 16384))" using fl_mono dyadic_steps(1) by metis
      have "nle (Fin (29491 / 32768)) (fl (9 / 10))" using fl_mono [of "29491 / 32768" "9 / 10"] dyadic_steps(2) by simp
      with u have "nlt (fl (of_nat p / of_nat n)) (fl (9 / 10))"
        by (cases "fl (of_nat p / of_nat n)"; cases "fl (9 / 10)") auto
      then show False using a unfolding d PRIVATE_SHARE_def by blast
    qed
  qed
qed

text \<open>In the window the console reads, the warning about private sources appears exactly
  when there are at least 30 events and at least nine in ten of them come from a private address;
  the rounding of the share never changes the answer.\<close>

theorem private_warning_exact:
  assumes "length events \<le> 2000"
  shows "privateSources events = None \<longleftrightarrow>
    length events < 30 \<or> 10 * length (filter (\<lambda>e. isPrivateIP (ev_ip e)) events) < 9 * length events"
proof (cases "length events < 30")
  case False
  let ?p = "length (filter (\<lambda>e. isPrivateIP (ev_ip e)) events)"
  have "nlt (ndiv (nint (int ?p)) (nint (int (length events)))) PRIVATE_SHARE \<longleftrightarrow> 10 * ?p < 9 * length events"
    using share_boundary [of "length events" ?p] assms False by linarith
  with False show ?thesis by (simp only: privateSources_def MIN_EVENTS_def Let_def if_False split: if_split) simp
qed (simp add: privateSources_def MIN_EVENTS_def)

definition local_event :: event where
  "local_event = \<lparr>ev_id = [], ev_ip = ''localhost'', ev_method = ''GET'', ev_path = ''/'', ev_route = UNMATCHED, ev_status = 200,
     ev_decision = [], ev_risk = jint 0, ev_fired = [], ev_agent = [], ev_reason = [], ev_time = Fin 0, ev_ts = []\<rparr>"

theorem private_warning_exact_witness: "privateSources (replicate 30 local_event) \<noteq> None"
proof -
  have "isPrivateIP (ev_ip local_event)" by (simp add: local_event_def isPrivateIP.simps)
  then have "filter (\<lambda>e. isPrivateIP (ev_ip e)) (replicate 30 local_event) = replicate 30 local_event" by simp
  then show ?thesis using private_warning_exact [of "replicate 30 local_event"] by simp
qed

section \<open>Unlisted endpoints\<close>

definition group_of_key :: "event list \<Rightarrow> string \<Rightarrow> route_group" where
  "group_of_key events k = (let es = filter (\<lambda>e. unlisted e \<and> route_key e = k) events in
     \<lparr>rg_key = k, rg_requests = length es, rg_clients = uniq (map ev_ip es)\<rparr>)"

lemma uniq_snoc: "uniq (xs @ [x]) = (if x \<in> set xs then uniq xs else uniq xs @ [x])"
proof -
  have "uniq_onto seen (xs @ [x]) = (if x \<in> set seen \<union> set xs then uniq_onto seen xs else uniq_onto seen xs @ [x])" for seen
    by (induction seen xs rule: uniq_onto.induct) auto
  from this [of "[]"] show ?thesis by (simp add: uniq_def)
qed

lemma bump_group_fold:
  "es \<noteq> [] \<Longrightarrow> list_all (\<lambda>e. route_key e = k) es \<Longrightarrow>
     fold (\<lambda>e r. Some (bump_group r e)) es None = Some \<lparr>rg_key = k, rg_requests = length es, rg_clients = uniq (map ev_ip es)\<rparr>"
proof (induction es rule: rev_induct)
  case (snoc e es)
  have u: "uniq [x] = [x]" for x :: string by (simp add: uniq_def)
  from snoc show ?case by (cases "es = []") (auto simp: bump_group_def Let_def uniq_snoc u)
qed simp

lemma route_groups_keys:
  "\<exists>ks. distinct ks \<and> set ks = route_key ` set (filter unlisted events) \<and> route_groups events = map (group_of_key events) ks"
proof -
  let ?d = "dloop route_key bump_group (filter unlisted events) []"
  have w: "dwf ?d" by (simp add: dloop_wf)
  have "v = group_of_key events k" if "dget ?d k = Some v" for k v
  proof -
    have v: "fold (\<lambda>e r. Some (bump_group r e)) (filter (\<lambda>e. route_key e = k) (filter unlisted events)) None = Some v"
      using that by (simp add: dloop_get)
    then have "filter (\<lambda>e. route_key e = k) (filter unlisted events) \<noteq> []" by auto
    then have "fold (\<lambda>e r. Some (bump_group r e)) (filter (\<lambda>e. route_key e = k) (filter unlisted events)) None =
        Some (group_of_key events k)"
      unfolding group_of_key_def Let_def filter_filter by (intro bump_group_fold) (auto simp: list_all_iff)
    with v show ?thesis by simp
  qed
  with w have "route_groups events = map (group_of_key events) (dkeys ?d)"
    unfolding route_groups_def by (rule dict_ranges)
  moreover have "set (dkeys ?d) = route_key ` set (filter unlisted events)"
    by (simp add: dloop_keys) (simp add: dkeys_def)
  ultimately show ?thesis using w by (auto simp: dwf_def dkeys_def)
qed

lemma regular_listed: "regular (group_of_key events k) \<Longrightarrow> k \<in> route_key ` set (filter unlisted events)"
proof -
  assume "regular (group_of_key events k)"
  then have "filter (\<lambda>e. unlisted e \<and> route_key e = k) events \<noteq> []"
    by (auto simp: regular_def group_of_key_def MIN_ROUTE_REQUESTS_def Let_def)
  then obtain e where "e \<in> set (filter (\<lambda>e. unlisted e \<and> route_key e = k) events)" by (cases "filter (\<lambda>e. unlisted e \<and> route_key e = k) events") auto
  then show ?thesis by auto
qed

definition regular_keys :: "event list \<Rightarrow> string set" where
  "regular_keys events = {k. regular (group_of_key events k)}"

lemma regular_rows:
  "\<exists>ks. distinct ks \<and> set ks = regular_keys events \<and> filter regular (route_groups events) = map (group_of_key events) ks"
proof -
  obtain ks where ks: "distinct ks" "set ks = route_key ` set (filter unlisted events)" "route_groups events = map (group_of_key events) ks"
    using route_groups_keys by blast
  let ?ks = "filter (\<lambda>k. regular (group_of_key events k)) ks"
  have "set ?ks = regular_keys events" using regular_listed ks(2) by (auto simp: regular_keys_def)
  moreover have "filter regular (route_groups events) = map (group_of_key events) ?ks"
    by (simp add: ks(3) filter_map comp_def)
  ultimately show ?thesis using ks(1) by (intro exI [of _ ?ks]) simp
qed

definition group_row :: "route_group \<Rightarrow> string \<times> nat \<times> nat" where
  "group_row g = (rg_key g, rg_requests g, length (rg_clients g))"

lemma row_eta: "(\<lambda>g. (rg_key g, rg_requests g, length (rg_clients g))) = group_row"
  by (simp add: fun_eq_iff group_row_def)

text \<open>The warning about missing routes appears exactly when some unlisted endpoint is used
  regularly (five requests from two clients, twice per client on average, attacks on the path left
  out); it states how many such endpoints there are and all their requests, and lists up to five of
  them, busiest first.\<close>

theorem missing_routes_exact:
  "case missingRoutes events of
     None \<Rightarrow> regular_keys events = {}
   | Some w \<Rightarrow> (\<exists>rows. w = MissingRoutes (card (regular_keys events))
         (\<Sum>k\<in>regular_keys events. rg_requests (group_of_key events k)) rows \<and> regular_keys events \<noteq> {} \<and>
       length rows = min 5 (card (regular_keys events)) \<and>
       set rows \<subseteq> (\<lambda>k. group_row (group_of_key events k)) ` regular_keys events \<and>
       sorted_wrt (\<lambda>a b. fst (snd b) \<le> fst (snd a)) rows)"
proof -
  obtain ks where ks: "distinct ks" "set ks = regular_keys events" "filter regular (route_groups events) = map (group_of_key events) ks"
    using regular_rows by blast
  let ?r = "js_sort (desc_by rg_requests) (map (group_of_key events) ks)"
  have card: "length ?r = card (regular_keys events)" using ks(1,2) distinct_card by fastforce
  have sum: "sum_list (map rg_requests ?r) = (\<Sum>k\<in>regular_keys events. rg_requests (group_of_key events k))"
    using sum_list_js_sort [of rg_requests "desc_by rg_requests" "map (group_of_key events) ks"] ks(1,2)
    by (simp add: comp_def sum_list_distinct_conv_sum_set)
  have nil: "?r = [] \<longleftrightarrow> regular_keys events = {}" using ks(2) by auto
  have sub: "set (map group_row (take 5 ?r)) \<subseteq> (\<lambda>k. group_row (group_of_key events k)) ` regular_keys events"
    using ks(2) by (auto dest!: in_set_takeD)
  have "sorted_wrt (desc_by rg_requests) (take 5 ?r)" by (intro take_sorted_wrt desc.js_sort_sorted) simp
  then have srt: "sorted_wrt (\<lambda>a b. fst (snd b) \<le> fst (snd a)) (map group_row (take 5 ?r))"
    by (simp add: sorted_wrt_map group_row_def desc_by_eta)
  have m: "missingRoutes events = (if ?r = [] then None else Some (MissingRoutes (length ?r) (sum_list (map rg_requests ?r)) (map group_row (take 5 ?r))))"
    by (simp only: missingRoutes_def ks(3) Let_def MAX_ROUTES_LISTED_def row_eta)
  show ?thesis
  proof (cases "?r = []")
    case False
    then show ?thesis unfolding m using card sum sub srt nil by (simp add: min.commute)
  qed (use m nil in simp)
qed

end
