(* ===== verification/Stores.thy ===== *)
theory Stores
  imports Services
begin

text \<open>
  The two stores of the dashboard: \<open>lib/postgres.js\<close> (the pool and the all-or-nothing clear of
  tables) and \<open>lib/redis.js\<close> (the one shared client, its first connection and its retries). The
  clear is a program over the commands of \<open>Services\<close>; the shared client is a step relation whose
  steps are the calls of \<open>getRedis\<close> and the outcomes of a connection attempt.
\<close>

section \<open>lib/postgres.js\<close>

definition has_pool :: "env \<Rightarrow> bool" where
  "has_pool env = (env_or env ''IASG_POSTGRES_URL'' (env_or env ''DATABASE_URL'' []) \<noteq> [])"

definition query :: "sql \<Rightarrow> jval svc" where
  "query q = await (PQuery q)"

definition release :: "unit svc" where
  "release = Ask PRelease (\<lambda>_. ok ())"

definition rollback :: "unit svc" where
  "rollback = or_else (discard (query Rollback)) ()"

definition sbind :: "'e + 'a \<Rightarrow> ('a \<Rightarrow> 'e + 'b) \<Rightarrow> 'e + 'b" where
  "sbind x f = (case x of Inl e \<Rightarrow> Inl e | Inr a \<Rightarrow> f a)"

text \<open>\<open>(result).rows[0]\<close> and \<open>const { rows: [first] } = result\<close>.\<close>

definition row0 :: "jval \<Rightarrow> jserr + jval" where
  "row0 v = sbind (dot v ''rows'') (\<lambda>rows. dot rows ''0'')"

definition first_row :: "jval \<Rightarrow> jserr + jval" where
  "first_row v = sbind (dot v ''rows'') (\<lambda>rows. sbind (items rows) (\<lambda>xs. Inr (case xs of [] \<Rightarrow> JUndef | x # _ \<Rightarrow> x)))"

definition count_rows :: "string \<Rightarrow> (string \<times> jval) svc" where
  "count_rows t = next_do (query (CountRows t)) (\<lambda>v. next_do (of_sum (sbind (row0 v) (\<lambda>r. dot r ''n''))) (\<lambda>n. ok (t, n)))"

definition clear_failed :: "string \<Rightarrow> (string \<times> jval) list \<Rightarrow> jval" where
  "clear_failed reason failure = JObj (dput_all failure [(''ok'', JBool False), (''reason'', JStr reason)])"

text \<open>
  The pattern every transaction of the dashboard is written in:
  \<open>const client = await pool.connect(); try { body } catch (err) { await client.query("ROLLBACK").catch(() => {}); return h(err); } finally { client.release(); }\<close>
\<close>

definition with_client :: "'a svc \<Rightarrow> (jserr \<Rightarrow> 'a) \<Rightarrow> 'a svc" where
  "with_client body h = next_do (await PConnect) (\<lambda>_.
     try_finally (try_catch body (\<lambda>e. next_do rollback (\<lambda>_. ok (h e)))) release)"

definition truncateTables :: "env \<Rightarrow> string list \<Rightarrow> (string \<times> jval) list \<Rightarrow> jval svc" where
  "truncateTables env tables failure =
     (if \<not> has_pool env then ok (clear_failed ''no durable store (IASG_POSTGRES_URL unset)'' failure)
      else with_client
        (next_do (each count_rows tables) (\<lambda>before.
         next_do (query SequencePresent) (\<lambda>v.
         next_do (of_sum (first_row v)) (\<lambda>sequence.
         next_do (query Begin) (\<lambda>_.
         next_do (query (Truncate tables)) (\<lambda>_.
         next_do (of_sum (dot sequence ''present'')) (\<lambda>present.
         next_do (if truthy present then discard (query ResetSequence) else ok ()) (\<lambda>_.
         next_do (query Commit) (\<lambda>_.
           ok (JObj [(''ok'', JBool True), (''cleared'', JObj (dput_all before []))]))))))))))
        (\<lambda>e. clear_failed (err_message e) failure))"

section \<open>Transactions keep the discipline\<close>

text \<open>A body may fail before the transaction, inside it, or at a refused statement; if it succeeds
  it has committed, and \<open>G\<close> relates what it returns to the number of writes that became durable.\<close>

definition failing :: "pg \<Rightarrow> bool" where
  "failing s = (case s of Opened \<Rightarrow> True | InTx n \<Rightarrow> True | Broken n \<Rightarrow> True | _ \<Rightarrow> False)"

definition tx_post :: "(nat \<Rightarrow> 'a \<Rightarrow> bool) \<Rightarrow> pg \<Rightarrow> jserr + 'a \<Rightarrow> bool" where
  "tx_post G s x = (case x of Inl e \<Rightarrow> failing s
     | Inr v \<Rightarrow> (case s of Committed n \<Rightarrow> G n v | _ \<Rightarrow> False))"

definition tx_body :: "(nat \<Rightarrow> 'a \<Rightarrow> bool) \<Rightarrow> 'a svc \<Rightarrow> pg \<Rightarrow> bool" where
  "tx_body G p s = tx_follows p (tx_post G) s"

definition bystander :: "cmd \<Rightarrow> bool" where
  "bystander c = (case c of PConnect \<Rightarrow> False | PQuery q \<Rightarrow> False | PPool q \<Rightarrow> False | PRelease \<Rightarrow> False | _ \<Rightarrow> True)"

definition plain_read :: "sql \<Rightarrow> bool" where
  "plain_read q \<longleftrightarrow> \<not> writes q \<and> q \<noteq> Begin \<and> q \<noteq> Commit \<and> q \<noteq> Rollback"

lemma bystander_step: "bystander c \<Longrightarrow> pg_allow s c \<and> pg_step s c r = s"
  by (cases c) (auto simp: bystander_def)

lemma read_allow: "plain_read q \<Longrightarrow> pg_allow Opened (PQuery q)" "pg_allow (InTx n) (PQuery q) \<longleftrightarrow> q \<noteq> Begin"
  by (cases q; simp add: plain_read_def)+

lemma read_step: "plain_read q \<Longrightarrow> pg_step Opened (PQuery q) r = (case r of Inl e \<Rightarrow> Broken 0 | Inr v \<Rightarrow> Opened)"
  "plain_read q \<or> writes q \<Longrightarrow> pg_step (InTx n) (PQuery q) r =
     (case r of Inl e \<Rightarrow> Broken n | Inr v \<Rightarrow> InTx (if writes q then Suc n else n))"
  by (cases q; simp add: plain_read_def)+

lemma failing_simps [simp]: "failing Opened" "failing (InTx n)" "failing (Broken n)"
  by (simp_all add: failing_def)

lemma tx_post_Inl [simp]: "tx_post G s (Inl e) = failing s"
  by (simp add: tx_post_def)

lemma tx_body_query:
  "pg_allow s (PQuery q) \<Longrightarrow> (\<And>e. failing (pg_step s (PQuery q) (Inl e))) \<Longrightarrow>
     (\<And>v. tx_body G (f v) (pg_step s (PQuery q) (Inr v))) \<Longrightarrow> tx_body G (next_do (query q) f) s"
  unfolding tx_body_def query_def follows_next_do follows_await by (auto split: sum.split)

named_theorems tx_intros \<open>steps of a transaction body\<close>

lemma tx_read_open [tx_intros]:
  "plain_read q \<Longrightarrow> (\<And>v. tx_body G (f v) Opened) \<Longrightarrow> tx_body G (next_do (query q) f) Opened"
  by (rule tx_body_query) (simp_all add: read_allow read_step)

lemma tx_begin [tx_intros]: "(\<And>v. tx_body G (f v) (InTx 0)) \<Longrightarrow> tx_body G (next_do (query Begin) f) Opened"
  by (rule tx_body_query) simp_all

lemma tx_stmt [tx_intros]:
  "plain_read q \<or> writes q \<Longrightarrow> (\<And>v. tx_body G (f v) (InTx (if writes q then Suc n else n))) \<Longrightarrow>
     tx_body G (next_do (query q) f) (InTx n)"
  by (rule tx_body_query) (auto simp: read_allow read_step plain_read_def)

lemma tx_commit [tx_intros]: "G n a \<Longrightarrow> tx_body G (next_do (query Commit) (\<lambda>_. ok a)) (InTx n)"
  by (rule tx_body_query) (simp_all add: tx_body_def follows_simps tx_post_def)

lemma tx_throw [tx_intros]: "failing s \<Longrightarrow> tx_body G (throw e) s"
  by (simp add: tx_body_def follows_simps)

lemma tx_of_sum [tx_intros]:
  "failing s \<Longrightarrow> (\<And>a. x = Inr a \<Longrightarrow> tx_body G (f a) s) \<Longrightarrow> tx_body G (next_do (of_sum x) f) s"
  unfolding tx_body_def follows_next_do by (cases x) (simp_all add: follows_leaf)

lemma tx_ok [tx_intros]: "tx_body G (f a) s \<Longrightarrow> tx_body G (next_do (ok a) f) s"
  unfolding tx_body_def follows_next_do by (simp add: follows_leaf)

lemma tx_await [tx_intros]:
  "bystander c \<Longrightarrow> failing s \<Longrightarrow> (\<And>v. tx_body G (f v) s) \<Longrightarrow> tx_body G (next_do (await c) f) s"
  unfolding tx_body_def follows_next_do by (auto simp: follows_await bystander_step split: sum.split)

lemma tx_discard [tx_intros]:
  "tx_body G (next_do p (\<lambda>_. f ())) s \<Longrightarrow> tx_body G (next_do (discard p) f) s"
  unfolding tx_body_def follows_next_do follows_discard by (simp cong: sum.case_cong)

lemma tx_assoc [tx_intros]:
  "tx_body G (next_do p (\<lambda>a. next_do (g a) f)) s \<Longrightarrow> tx_body G (next_do (next_do p g) f) s"
  unfolding tx_body_def follows_next_do by (simp cong: sum.case_cong)

lemma tx_if [tx_intros]:
  "(b \<Longrightarrow> tx_body G (next_do p f) s) \<Longrightarrow> (\<not> b \<Longrightarrow> tx_body G (next_do q f) s) \<Longrightarrow>
     tx_body G (next_do (if b then p else q) f) s"
  by simp

lemma tx_each:
  "failing s \<Longrightarrow> (\<And>x g. (\<And>a. tx_body G (g a) s) \<Longrightarrow> tx_body G (next_do (f x) g) s) \<Longrightarrow>
     (\<And>as. tx_body G (k as) s) \<Longrightarrow> tx_body G (next_do (each f xs) k) s"
proof (induction xs arbitrary: k)
  case (Cons x xs)
  show ?case unfolding each.simps
    by (intro tx_intros Cons.prems(2) Cons.IH Cons.prems) auto
qed (simp add: tx_ok)

lemma follows_rollback:
  "failing s \<Longrightarrow> Q RolledBack (Inr ()) \<Longrightarrow> tx_follows rollback Q s"
  unfolding rollback_def query_def follows_or_else follows_discard follows_await
  by (auto simp: failing_def split: pg.splits sum.split)

lemma with_client_follows:
  assumes body: "tx_body G body Opened"
    and refused: "\<And>e. Q Refused (Inl e)"
    and failed: "\<And>e. Q (Released 0) (Inr (h e))"
    and finished: "\<And>n v. G n v \<Longrightarrow> Q (Released n) (Inr v)"
  shows "tx_follows (with_client body h) Q Idle"
proof -
  have rel: "tx_follows release R s \<longleftrightarrow> pg_allow s PRelease \<and> (\<forall>r. R (pg_step s PRelease r) (Inr ()))" for R s
    by (simp add: release_def follows_leaf)
  have "tx_follows (try_finally (try_catch body (\<lambda>e. next_do rollback (\<lambda>_. ok (h e)))) release) Q Opened"
    unfolding follows_try_finally follows_try_catch
    using body unfolding tx_body_def
  proof (rule follows_mono, goal_cases)
    case (1 s x)
    show ?case
    proof (cases x)
      case (Inl e)
      then have "failing s" using 1 by simp
      then show ?thesis unfolding Inl sum.case follows_next_do
        by (rule follows_rollback) (simp add: follows_leaf rel failed)
    next
      case (Inr v)
      then obtain n where "s = Committed n" "G n v" using 1 by (auto simp: tx_post_def split: pg.splits)
      then show ?thesis by (simp add: Inr rel finished)
    qed
  qed
  then show ?thesis
    unfolding with_client_def follows_next_do follows_await by (auto simp: refused split: sum.split)
qed

text \<open>A handler that uses no client.\<close>

lemma no_client_follows: "Q Idle (Inr a) \<Longrightarrow> tx_follows (ok a) Q Idle"
  by (simp add: follows_leaf)

definition clear_outcome :: "pg \<Rightarrow> jserr + jval \<Rightarrow> bool" where
  "clear_outcome s x = (case x of
       Inl e \<Rightarrow> s = Refused
     | Inr v \<Rightarrow> (s = Idle \<or> s = Released (durable s)) \<and> (jget v ''ok'' = JBool True \<longleftrightarrow> durable s \<noteq> 0))"

lemma dget_dput_all: "dget failure k = None \<Longrightarrow> dget (dput_all failure d) k = dget d k"
proof (induction failure arbitrary: d)
  case (Cons x failure)
  then show ?case by (cases x) (auto simp: dput_all_def dget_Cons split: if_splits)
qed (simp add: dput_all_def)

lemma clear_failed_not_ok:
  "dget failure ''ok'' = None \<Longrightarrow> jget (clear_failed reason failure) ''ok'' = JBool False"
  by (simp add: clear_failed_def jget_JObj dget_dput_all) (simp add: dget_def)

lemma count_rows_body: "(\<And>a. tx_body G (g a) Opened) \<Longrightarrow> tx_body G (next_do (count_rows t) g) Opened"
  unfolding count_rows_def by (intro tx_intros) (auto simp: plain_read_def)

lemma truncate_follows:
  assumes "dget failure ''ok'' = None"
  shows "tx_follows (truncateTables env tables failure) clear_outcome Idle"
proof (cases "has_pool env")
  case True
  then show ?thesis
    unfolding truncateTables_def
  proof (simp only: not_True_eq_False if_False, rule_tac G = "\<lambda>n v. n \<noteq> 0 \<and> jget v ''ok'' = JBool True" in with_client_follows, goal_cases)
    case 1
    show ?case
      by (intro tx_each count_rows_body tx_intros) (auto simp: plain_read_def jget_JObj dget_def)
  qed (simp_all add: clear_outcome_def clear_failed_not_ok assms)
next
  case False
  then show ?thesis
    by (simp add: truncateTables_def follows_leaf clear_outcome_def clear_failed_not_ok assms)
qed


definition demo_env :: env where
  "demo_env k = (if k = ''IASG_POSTGRES_URL'' then Some ''postgres'' else None)"

definition demo_rows :: "(string \<times> jval) list \<Rightarrow> reply" where
  "demo_rows r = Inr (JObj [(''rows'', JArr [JObj r])])"

definition demo_run :: "reply list" where
  "demo_run = [Inr JUndef, demo_rows [(''n'', jint 3)], demo_rows [(''present'', JBool False)], Inr JUndef, Inr JUndef, Inl (ServiceError ''gone''), Inr JUndef, Inr JUndef]"

lemmas truncate_eval = demo_run_def demo_env_def demo_rows_def truncateTables_def has_pool_def env_or_def
  with_client_def query_def release_def rollback_def count_rows_def row0_def first_row_def sbind_def dot_def
  items_def clear_failed_def dput_all_def io_unfold jget_def dget_Cons nullish_def


section \<open>lib/redis.js\<close>

definition redis_url :: "env \<Rightarrow> string" where
  "redis_url env = ''redis://'' @ env_or env ''REDIS_HOST'' ''127.0.0.1'' @ '':'' @ env_or env ''REDIS_PORT'' ''6379''"

text \<open>\<open>reconnectStrategy\<close>: the number of milliseconds to wait, or the error that ends the attempt.\<close>

definition reconnectStrategy :: "bool \<Rightarrow> nat \<Rightarrow> jserr \<Rightarrow> jserr + nat" where
  "reconnectStrategy was_up retries cause =
     (if was_up then Inr (min (retries * 200) 2000) else Inl cause)"

text \<open>
  The state behind \<open>getRedis\<close>: the shared client and the promise of its first connection (both are
  numbered by the client they belong to), the clients made so far, which of them connected and
  which failed, the callers still waiting, and what the others got (\<open>None\<close>: the call threw). A
  settled promise resumes every waiting caller before anything else runs.
\<close>

record conn =
  cn_client :: "nat option"
  cn_ready :: "nat option"
  cn_made :: nat
  cn_up :: "nat set"
  cn_failed :: "nat set"
  cn_waiting :: "(nat \<times> nat) list"
  cn_got :: "(nat \<times> nat option) list"

definition conn0 :: conn where
  "conn0 = \<lparr>cn_client = None, cn_ready = None, cn_made = 0, cn_up = {}, cn_failed = {}, cn_waiting = [], cn_got = []\<rparr>"

text \<open>The part of \<open>getRedis\<close> before the await, called by \<open>w\<close>.\<close>

definition get_start :: "nat \<Rightarrow> conn \<Rightarrow> conn" where
  "get_start w s = (let s1 = (if cn_client s = None
       then s\<lparr>cn_client := Some (cn_made s), cn_ready := Some (cn_made s), cn_made := Suc (cn_made s)\<rparr> else s)
     in s1\<lparr>cn_waiting := cn_waiting s1 @ (case cn_ready s1 of Some p \<Rightarrow> [(w, p)] | None \<Rightarrow> [])\<rparr>)"

text \<open>The part after it, for every caller that waits on the promise \<open>p\<close>.\<close>

definition get_return :: "nat \<Rightarrow> conn \<Rightarrow> conn" where
  "get_return p s = s\<lparr>cn_got := cn_got s @ map (\<lambda>(w, _). (w, cn_client s)) (filter (\<lambda>(w, q). q = p) (cn_waiting s)),
     cn_waiting := filter (\<lambda>(w, q). q \<noteq> p) (cn_waiting s)\<rparr>"

definition get_throw :: "nat \<Rightarrow> conn \<Rightarrow> conn" where
  "get_throw p s = (let hit = filter (\<lambda>(w, q). q = p) (cn_waiting s) in
     if hit = [] then s else s\<lparr>cn_client := None, cn_ready := None,
       cn_got := cn_got s @ map (\<lambda>(w, _). (w, None)) hit,
       cn_waiting := filter (\<lambda>(w, q). q \<noteq> p) (cn_waiting s)\<rparr>)"

inductive redis_step :: "conn \<Rightarrow> conn \<Rightarrow> bool" where
  call: "redis_step s (get_start w s)"
| connected: "p < cn_made s \<Longrightarrow> p \<notin> cn_failed s \<Longrightarrow> redis_step s (get_return p (s\<lparr>cn_up := insert p (cn_up s)\<rparr>))"
| refused: "p < cn_made s \<Longrightarrow> p \<notin> cn_up s \<Longrightarrow> p \<notin> cn_failed s \<Longrightarrow>
    redis_step s (get_throw p (s\<lparr>cn_failed := insert p (cn_failed s)\<rparr>))"

inductive redis_reach :: "conn \<Rightarrow> bool" where
  start: "redis_reach conn0"
| more: "redis_reach s \<Longrightarrow> redis_step s t \<Longrightarrow> redis_reach t"

inductive_cases redis_stepE: "redis_step s t"

definition conn_inv :: "conn \<Rightarrow> bool" where
  "conn_inv s \<longleftrightarrow> cn_ready s = cn_client s \<and>
     (\<forall>(w, p) \<in> set (cn_waiting s). cn_client s = Some p) \<and>
     (\<forall>c. cn_client s = Some c \<longrightarrow> c < cn_made s \<and> c \<notin> cn_failed s \<and>
        (c \<notin> cn_up s \<longrightarrow> (\<exists>w. (w, c) \<in> set (cn_waiting s)))) \<and>
     (\<forall>c < cn_made s. c \<in> cn_up s \<or> c \<in> cn_failed s \<or> cn_client s = Some c) \<and>
     (\<forall>c \<in> cn_up s. c < cn_made s \<and> cn_client s = Some c) \<and>
     (\<forall>c \<in> cn_failed s. c < cn_made s) \<and>
     (\<forall>w c. (w, Some c) \<in> set (cn_got s) \<longrightarrow> c \<in> cn_up s)"

lemma conn_inv_start: "conn_inv s \<Longrightarrow> conn_inv (get_start w s)"
  by (cases "cn_client s") (auto simp: conn_inv_def get_start_def Let_def less_Suc_eq)

lemma conn_inv_return:
  "conn_inv s \<Longrightarrow> p < cn_made s \<Longrightarrow> p \<notin> cn_failed s \<Longrightarrow> conn_inv (get_return p (s\<lparr>cn_up := insert p (cn_up s)\<rparr>))"
  unfolding conn_inv_def get_return_def by (auto split: prod.splits)

lemma conn_inv_throw:
  assumes "conn_inv s" "p < cn_made s" "p \<notin> cn_up s" "p \<notin> cn_failed s"
  shows "conn_inv (get_throw p (s\<lparr>cn_failed := insert p (cn_failed s)\<rparr>))"
proof -
  have c: "cn_client s = Some p" using assms by (auto simp: conn_inv_def)
  then obtain w where w: "(w, p) \<in> set (cn_waiting s)" using assms by (auto simp: conn_inv_def)
  have f: "filter (\<lambda>(w, q). q = p) (cn_waiting s) \<noteq> []" using w by (auto simp: filter_empty_conv)
  show ?thesis using assms c f
    by (auto simp: conn_inv_def get_throw_def Let_def)
qed

lemma redis_step_inv: "redis_step s t \<Longrightarrow> conn_inv s \<Longrightarrow> conn_inv t"
  by (erule redis_stepE) (simp_all add: conn_inv_start conn_inv_return conn_inv_throw)

lemma redis_reach_inv: "redis_reach s \<Longrightarrow> conn_inv s"
  by (induction rule: redis_reach.induct) (simp_all add: redis_step_inv, simp add: conn_inv_def conn0_def)

text \<open>Property C29. The dashboard shares one Redis client: at most one connection attempt is under way
  and it is the shared client's, a call only ever returns a client that has connected, a client whose
  attempt failed is dropped so that the next call starts afresh, and no caller is left waiting on a
  dropped one.\<close>

theorem redis_shared_client:
  assumes "redis_reach s"
  shows "(\<forall>c < cn_made s. c \<notin> cn_up s \<and> c \<notin> cn_failed s \<longrightarrow> cn_client s = Some c) \<and>
    (\<forall>w c. (w, Some c) \<in> set (cn_got s) \<longrightarrow> c \<in> cn_up s) \<and>
    (\<forall>c \<in> cn_failed s. cn_client s \<noteq> Some c \<and> cn_client (get_start w s) \<noteq> Some c) \<and>
    (\<forall>(v, p) \<in> set (cn_waiting s). cn_client s = Some p)"
proof -
  have i: "conn_inv s" by (rule redis_reach_inv [OF assms])
  have j: "conn_inv (get_start w s)" by (rule conn_inv_start [OF i])
  have f: "cn_failed (get_start w s) = cn_failed s" by (simp add: get_start_def Let_def)
  have "\<forall>c \<in> cn_failed s. cn_client (get_start w s) \<noteq> Some c"
    using j unfolding conn_inv_def f by blast
  moreover have "\<forall>c \<in> cn_failed s. cn_client s \<noteq> Some c" using i unfolding conn_inv_def by blast
  ultimately show ?thesis using i unfolding conn_inv_def by blast
qed

definition retry_state :: conn where
  "retry_state = get_return 1 ((get_start 8 (get_throw 0 ((get_start 7 conn0)\<lparr>cn_failed := {0}\<rparr>)))\<lparr>cn_up := {1}\<rparr>)"

theorem redis_shared_client_witness:
  "cn_got retry_state = [(7, None), (8, Some 1)] \<and> 1 \<in> cn_up retry_state \<and> cn_client retry_state = Some 1"
proof -
  let ?a = "get_start 7 conn0"
  let ?b = "get_throw 0 (?a\<lparr>cn_failed := insert 0 (cn_failed ?a)\<rparr>)"
  let ?c = "get_start 8 ?b"
  let ?d = "get_return 1 (?c\<lparr>cn_up := insert 1 (cn_up ?c)\<rparr>)"
  note ev = get_start_def get_throw_def get_return_def conn0_def Let_def
  have "redis_reach ?a" by (rule redis_reach.more [OF redis_reach.start redis_step.call])
  then have "redis_reach ?b" by (rule redis_reach.more [OF _ redis_step.refused]) (simp_all add: ev)
  then have "redis_reach ?c" by (rule redis_reach.more [OF _ redis_step.call])
  then have "redis_reach ?d" by (rule redis_reach.more [OF _ redis_step.connected]) (simp_all add: ev)
  moreover have e: "?d = retry_state" by (simp add: retry_state_def ev)
  ultimately have r: "redis_reach retry_state" by simp
  have g: "cn_got retry_state = [(7, None), (8, Some 1)]" "cn_client retry_state = Some 1"
    by (simp_all add: retry_state_def ev)
  then show ?thesis using redis_shared_client [OF r, of 0] by simp
qed

end
