(* ===== verification/Adaptive.thy ===== *)
theory Adaptive
  imports Stores
begin

text \<open>
  The adaptive configuration: \<open>lib/adaptive.js\<close>, \<open>lib/adaptive-mode.mjs\<close>, \<open>lib/adaptive-config.mjs\<close>.
  Validation is a chain of early returns with the code's messages; the sections \<open>baseline\<close>,
  \<open>risk\<close> and \<open>guardrails\<close> are separate groups of checks. \<open>adaptive_ok\<close> says in terms of whole numbers and ranges what an
  accepted configuration is; an approved recommendation is within its guardrails.
\<close>

section \<open>Helpers\<close>

definition MODES :: "string list" where
  "MODES = [''monitor'', ''manual'', ''automatic'']"

definition ACTIONS :: "string list" where
  "ACTIONS = [''monitor'', ''throttle'', ''temp_block'']"

text \<open>\<open>[...].includes(v)\<close>\<close>

definition one_of :: "string list \<Rightarrow> jval \<Rightarrow> bool" where
  "one_of names v = (case v of JStr s \<Rightarrow> s \<in> set names | _ \<Rightarrow> False)"

definition integerBetween :: "jval \<Rightarrow> jval \<Rightarrow> jval \<Rightarrow> bool" where
  "integerBetween v low high = (is_integer v \<and> jle low v \<and> jle v high)"

definition numberBetween :: "jval \<Rightarrow> jnum \<Rightarrow> jnum \<Rightarrow> bool" where
  "numberBetween v low high = (case v of JNum x \<Rightarrow> nis_finite x \<and> nle low x \<and> nle x high | _ \<Rightarrow> False)"

definition isAddressOrCidr :: "jval \<Rightarrow> bool" where
  "isAddressOrCidr v = (case v of JStr s \<Rightarrow>
       (case split_on (CHR ''/'') (trim s) of
          address # rest \<Rightarrow>
            (let version = isIP address in
             if version = 0 \<or> length rest > 1 then False
             else (case rest of [] \<Rightarrow> True
               | bits # _ \<Rightarrow>
                   if \<not> rmatch (Plus digit) bits then False
                   else nle (Fin 0) (str_to_num bits) \<and> nle (str_to_num bits) (if version = 4 then Fin 32 else Fin 128)))
        | [] \<Rightarrow> False)
     | _ \<Rightarrow> False)"

text \<open>The first key that is not allowed; the empty text when there is none.\<close>

definition unknownKeys :: "jval \<Rightarrow> string list \<Rightarrow> string" where
  "unknownKeys v allowed = (case find (\<lambda>k. k \<notin> set allowed) (obj_keys v) of None \<Rightarrow> [] | Some k \<Rightarrow> k)"

definition fail_unknown :: "jval \<Rightarrow> string list \<Rightarrow> string \<Rightarrow> string option" where
  "fail_unknown v allowed msg = fail_if (unknownKeys v allowed \<noteq> []) (msg @ unknownKeys v allowed)"

section \<open>validateAdaptive\<close>

definition TOP_KEYS :: "string list" where
  "TOP_KEYS = [''version'', ''mode'', ''baseline'', ''risk'', ''guardrails'']"

definition BASELINE_KEYS :: "string list" where
  "BASELINE_KEYS = [''method'', ''window_seconds'', ''rolling_windows'', ''warmup_windows'', ''mad_multiplier'',
     ''minimum_mad'', ''minimum_threshold_rpm'', ''maximum_threshold_rpm'', ''hysteresis_ratio'', ''cooldown_seconds'']"

definition RISK_KEYS :: "string list" where
  "RISK_KEYS = [''deterministic_weight'', ''behavioural_weight'', ''campaign_weight'', ''detector_points'',
     ''repeated_evidence_increment'', ''severity_multipliers'', ''throttle_score'', ''temporary_block_score'',
     ''confidence_deterministic_weight'', ''confidence_campaign_weight'']"

definition GUARD_KEYS :: "string list" where
  "GUARD_KEYS = [''maximum_automatic_action'', ''minimum_confidence_throttle'', ''minimum_confidence_temporary_block'',
     ''maximum_policy_duration_seconds'', ''monitor_duration_seconds'', ''throttle_duration_seconds'',
     ''temporary_block_duration_seconds'', ''minimum_throttle_rpm'', ''maximum_throttle_rpm'', ''default_throttle_rpm'',
     ''throttle_baseline_fraction'', ''behavioural_throttle_enabled'', ''behavioural_throttle_minimum_deviation'',
     ''policy_cooldown_seconds'', ''minimum_deterministic_evidence_throttle'',
     ''minimum_deterministic_evidence_temporary_block'', ''analyst_escalation_confidence'',
     ''analyst_escalation_min_clients'', ''analyst_escalation_min_stages'', ''allowlist'', ''blocklist'']"

definition top_checks :: "jval \<Rightarrow> string option list" where
  "top_checks config =
    [fail_unknown config TOP_KEYS ''unknown adaptive setting: '',
     fail_if (\<not> integerBetween (jget config ''version'') (jint 1) (jint (2 ^ 53 - 1))) ''configuration version must be a positive integer'',
     fail_if (\<not> one_of MODES (jget config ''mode'')) (''mode must be one of '' @ join '', '' MODES)]"

definition key_checks :: "jval \<Rightarrow> jval \<Rightarrow> jval \<Rightarrow> string option list" where
  "key_checks b r g =
    [fail_unknown b BASELINE_KEYS ''unknown baseline setting: '',
     fail_unknown r RISK_KEYS ''unknown risk setting: '',
     fail_unknown g GUARD_KEYS ''unknown guardrail setting: '']"

definition baseline_checks :: "jval \<Rightarrow> string option list" where
  "baseline_checks b =
    [fail_if (jget b ''method'' \<noteq> JStr ''median_mad'') ''baseline.method must be median_mad'',
     fail_if (jget b ''window_seconds'' \<noteq> jint 60) ''baseline.window_seconds must remain 60'',
     fail_if (\<not> integerBetween (jget b ''rolling_windows'') (jint 3) (jint 1440)) ''baseline.rolling_windows must be 3..1440'',
     fail_if (\<not> integerBetween (jget b ''warmup_windows'') (jint 1) (jget b ''rolling_windows'')) ''baseline.warmup_windows must be 1..rolling_windows'',
     fail_if (\<not> numberBetween (jget b ''mad_multiplier'') (fl (1 / 10)) (Fin 20)) ''baseline.mad_multiplier must be 0.1..20'',
     fail_if (\<not> numberBetween (jget b ''minimum_mad'') (Fin 0) (Fin 1000)) ''baseline.minimum_mad must be 0..1000'',
     fail_if (\<not> integerBetween (jget b ''minimum_threshold_rpm'') (jint 1) (jint 100000)) ''minimum endpoint threshold must be 1..100000'',
     fail_if (\<not> integerBetween (jget b ''maximum_threshold_rpm'') (jget b ''minimum_threshold_rpm'') (jint 100000)) ''maximum endpoint threshold must be above its minimum'',
     fail_if (\<not> numberBetween (jget b ''hysteresis_ratio'') (Fin 0) (Fin (1 / 2))) ''baseline.hysteresis_ratio must be 0..0.5'',
     fail_if (\<not> integerBetween (jget b ''cooldown_seconds'') (jint 0) (jint 86400)) ''baseline.cooldown_seconds must be 0..86400'']"

definition weights :: "jval \<Rightarrow> jval list" where
  "weights r = [jget r ''deterministic_weight'', jget r ''behavioural_weight'', jget r ''campaign_weight'']"

text \<open>\<open>Math.abs(weights.reduce((a, b) => a + b, 0) - 1) > 0.001\<close>\<close>

definition off_total :: "jval list \<Rightarrow> bool" where
  "off_total ws = nlt (fl (1 / 1000)) (nabs (nsub (foldl (\<lambda>a w. nadd a (to_num w)) (Fin 0) ws) (Fin 1)))"

definition off_confidence :: "jval \<Rightarrow> bool" where
  "off_confidence r = nlt (fl (1 / 100)) (nabs (nsub (nadd (to_num (jget r ''confidence_deterministic_weight''))
     (to_num (jget r ''confidence_campaign_weight''))) (Fin 1)))"

definition unit_range :: "jval \<Rightarrow> bool" where
  "unit_range v = numberBetween v (Fin 0) (Fin 1)"

definition score_range :: "jval \<Rightarrow> bool" where
  "score_range v = numberBetween v (Fin 0) (Fin 100)"

definition risk_checks :: "jval \<Rightarrow> string option list" where
  "risk_checks r =
    [fail_if (list_ex (\<lambda>v. \<not> unit_range v) (weights r) \<or> off_total (weights r)) ''risk weights must each be 0..1 and total 1'',
     fail_if (\<not> score_range (jget r ''throttle_score'') \<or> \<not> score_range (jget r ''temporary_block_score'') \<or>
       jle (jget r ''temporary_block_score'') (jget r ''throttle_score'')) ''risk action thresholds must be ordered within 0..100'',
     fail_if (\<not> truthy (jget r ''detector_points'') \<or> list_ex (\<lambda>v. \<not> score_range v) (obj_values (jget r ''detector_points'')))
       ''detector points must be within 0..100'',
     fail_if (\<not> truthy (jget r ''severity_multipliers'') \<or> list_ex (\<lambda>v. \<not> unit_range v) (obj_values (jget r ''severity_multipliers'')))
       ''severity multipliers must be within 0..1'',
     fail_if (\<not> score_range (jget r ''repeated_evidence_increment'')) ''repeated evidence increment must be 0..100'',
     fail_if (off_confidence r \<or> \<not> unit_range (jget r ''confidence_deterministic_weight'') \<or>
       \<not> unit_range (jget r ''confidence_campaign_weight'')) ''policy-confidence weights must each be 0..1 and total 1'']"

definition duration_check :: "jval \<Rightarrow> string \<Rightarrow> string option" where
  "duration_check g name = fail_if (\<not> integerBetween (jget g name) (jint 1) (jget g ''maximum_policy_duration_seconds''))
     (name @ '' exceeds the maximum policy duration'')"

definition range_list_check :: "string \<Rightarrow> jval \<Rightarrow> string option" where
  "range_list_check name entries = fail_if (case entries of JArr xs \<Rightarrow> list_ex (\<lambda>e. \<not> isAddressOrCidr e) xs | _ \<Rightarrow> True)
     (name @ '' contains an invalid address or CIDR'')"

definition guard_checks :: "jval \<Rightarrow> string option list" where
  "guard_checks g =
    [fail_if (\<not> one_of ACTIONS (jget g ''maximum_automatic_action'')) ''invalid maximum automatic action'',
     fail_if (\<not> unit_range (jget g ''minimum_confidence_throttle'') \<or> \<not> unit_range (jget g ''minimum_confidence_temporary_block''))
       ''confidence guardrails must be within 0..1'',
     fail_if (jlt (jget g ''minimum_confidence_temporary_block'') (jget g ''minimum_confidence_throttle''))
       ''temporary-block confidence cannot be below throttle confidence'',
     fail_if (\<not> integerBetween (jget g ''maximum_policy_duration_seconds'') (jint 30) (jint 86400)) ''maximum policy duration must be 30..86400 seconds'',
     duration_check g ''monitor_duration_seconds'',
     duration_check g ''throttle_duration_seconds'',
     duration_check g ''temporary_block_duration_seconds'',
     fail_if (\<not> integerBetween (jget g ''minimum_throttle_rpm'') (jint 1) (jint 100000) \<or>
       \<not> integerBetween (jget g ''default_throttle_rpm'') (jget g ''minimum_throttle_rpm'') (jint 100000) \<or>
       \<not> integerBetween (jget g ''maximum_throttle_rpm'') (jget g ''default_throttle_rpm'') (jint 100000))
       ''throttle rates must be ordered within 1..100000'',
     fail_if (\<not> numberBetween (jget g ''throttle_baseline_fraction'') (fl (1 / 100)) (Fin 1)) ''throttle baseline fraction must be 0.01..1'',
     fail_if (jget g ''behavioural_throttle_enabled'' \<noteq> JUndef \<and> \<not> is_boolean (jget g ''behavioural_throttle_enabled''))
       ''behavioural throttle enablement must be true or false'',
     fail_if (jget g ''behavioural_throttle_minimum_deviation'' \<noteq> JUndef \<and>
       \<not> numberBetween (jget g ''behavioural_throttle_minimum_deviation'') (fl (1 / 10)) (Fin 100)) ''behavioural throttle deviation must be 0.1..100'',
     fail_if (\<not> integerBetween (jget g ''policy_cooldown_seconds'') (jint 0) (jint 86400)) ''policy cooldown must be 0..86400 seconds'',
     fail_if (\<not> unit_range (jget g ''analyst_escalation_confidence'')) ''analyst escalation confidence must be 0..1'',
     fail_if (\<not> integerBetween (jget g ''analyst_escalation_min_clients'') (jint 1) (jint 100000) \<or>
       \<not> integerBetween (jget g ''analyst_escalation_min_stages'') (jint 2) (jint 20)) ''analyst escalation size/stage minimums are invalid'',
     fail_if (\<not> integerBetween (jget g ''minimum_deterministic_evidence_throttle'') (jint 1) (jint 1000) \<or>
       \<not> integerBetween (jget g ''minimum_deterministic_evidence_temporary_block'') (jget g ''minimum_deterministic_evidence_throttle'') (jint 1000))
       ''deterministic evidence minimums are invalid'',
     fail_if (\<not> is_array (jget g ''allowlist'') \<or> \<not> is_array (jget g ''blocklist'')) ''allowlist and blocklist must be arrays'',
     range_list_check ''allowlist'' (jget g ''allowlist''),
     range_list_check ''blocklist'' (jget g ''blocklist'')]"

definition validateAdaptive :: "jval \<Rightarrow> string option" where
  "validateAdaptive config =
     (if \<not> truthy config \<or> \<not> is_objectlike config then Some ''expected an adaptive configuration object'' else
      let b = jor (jget config ''baseline'') (JObj []); r = jor (jget config ''risk'') (JObj []);
          g = jor (jget config ''guardrails'') (JObj [])
      in first_err (top_checks config @ key_checks b r g @ baseline_checks b @ risk_checks r @ guard_checks g))"

section \<open>Approving a recommendation\<close>

text \<open>Reading a guardrail of an undefined \<open>guardrails\<close> throws.\<close>

definition validateRecommendationEdit :: "jval \<Rightarrow> jval \<Rightarrow> jserr + string option" where
  "validateRecommendationEdit payload config =
     (let action = jget payload ''action''; guard = jget config ''guardrails'';
          confidence = JNum (to_num (jor (jget payload ''confidence'') (jint 0)));
          evidence = JNum (to_num (jor (jget (jget payload ''explanation'') ''deterministic_evidence_count'') (jint 0)));
          throttle = (action = JStr ''throttle''); block = (action = JStr ''temp_block'')
      in if \<not> one_of ACTIONS action then Inr (Some ''invalid action'')
         else if nullish guard then Inl TypeError
         else Inr (first_err
           [fail_if (\<not> integerBetween (jget payload ''expires_in'') (jint 1) (jget guard ''maximum_policy_duration_seconds''))
              ''duration exceeds the configured guardrail'',
            fail_if (throttle \<and> \<not> integerBetween (jget payload ''requests_per_minute'') (jget guard ''minimum_throttle_rpm'') (jget guard ''maximum_throttle_rpm''))
              ''throttle rate is outside configured endpoint bounds'',
            fail_if (throttle \<and> jlt confidence (jget guard ''minimum_confidence_throttle'')) ''recommendation confidence is below the throttle guardrail'',
            fail_if (throttle \<and> jlt evidence (jget guard ''minimum_deterministic_evidence_throttle'')) ''recommendation evidence is below the throttle guardrail'',
            fail_if (block \<and> jlt confidence (jget guard ''minimum_confidence_temporary_block'')) ''recommendation confidence is below the temporary-block guardrail'',
            fail_if (block \<and> jlt evidence (jget guard ''minimum_deterministic_evidence_temporary_block'')) ''recommendation evidence is below the temporary-block guardrail'']))"

section \<open>lib/adaptive-config.mjs and lib/adaptive-mode.mjs\<close>

definition normalizeStoredAdaptive :: "jval \<Rightarrow> jval" where
  "normalizeStoredAdaptive config =
     (if \<not> truthy config \<or> \<not> is_objectlike config \<or> \<not> truthy (jget config ''risk'') \<or> \<not> is_objectlike (jget config ''risk'')
      then config
      else if jget (jget config ''risk'') ''ml_weight'' = JUndef then config
      else JObj (dput ''risk'' (JObj (ddel ''ml_weight'' (spread (jget config ''risk'')))) (spread config)))"

record mode_option =
  mo_value :: string
  mo_label :: string
  mo_heading :: string
  mo_behaviour :: string

definition MODE_OPTIONS :: "mode_option list" where
  "MODE_OPTIONS =
    [\<lparr>mo_value = ''monitor'', mo_label = ''Monitor'', mo_heading = ''Monitor only'',
      mo_behaviour = ''Learn, score, correlate, and show recommendations. Never write an enforcing gateway policy.''\<rparr>,
     \<lparr>mo_value = ''manual'', mo_label = ''Manual'', mo_heading = ''Analyst approval required'',
      mo_behaviour = ''Create pending recommendations. An analyst must approve, edit, or reject before enforcement.''\<rparr>,
     \<lparr>mo_value = ''automatic'', mo_label = ''Automatic'', mo_heading = ''Automatic bounded enforcement'',
      mo_behaviour = ''Automatically apply only guardrail-compliant throttle or temporary-block policies.''\<rparr>]"

definition modeCopy :: "string \<Rightarrow> mode_option" where
  "modeCopy mode = (case find (\<lambda>o'. mo_value o' = mode) MODE_OPTIONS of Some o' \<Rightarrow> o' | None \<Rightarrow> hd MODE_OPTIONS)"

definition effectiveModeText :: "string \<Rightarrow> string" where
  "effectiveModeText mode = ''Current effective mode: '' @ mo_heading (modeCopy mode)"

section \<open>readAdaptive\<close>

text \<open>\<open>Promise.all\<close> of queries: all are sent; the first rejection is the result.\<close>

fun queries :: "sql list \<Rightarrow> (jserr + jval) list \<Rightarrow> ((jserr + jval) list \<Rightarrow> 'a svc) \<Rightarrow> 'a svc" where
  "queries [] got k = k (rev got)"
| "queries (q # qs) got k = Ask (PPool q) (\<lambda>r. queries qs (r # got) k)"

fun all_ok :: "(jserr + jval) list \<Rightarrow> jserr + jval list" where
  "all_ok [] = Inr []"
| "all_ok (Inl e # rs) = Inl e"
| "all_ok (Inr v # rs) = sbind (all_ok rs) (\<lambda>vs. Inr (v # vs))"

definition pool_all :: "sql list \<Rightarrow> (jval list) svc" where
  "pool_all qs = queries qs [] (\<lambda>rs. of_sum (all_ok rs))"

text \<open>\<open>result.rows.map(f)\<close>, where \<open>f\<close> reads fields of the row.\<close>

definition map_rows :: "(jval \<Rightarrow> jval) \<Rightarrow> jval \<Rightarrow> jserr + jval" where
  "map_rows f res = sbind (dot res ''rows'') (\<lambda>rows. sbind (items rows) (\<lambda>xs.
     if list_ex nullish xs then Inl TypeError else Inr (JArr (map f xs))))"

definition jnumber :: "jval \<Rightarrow> jval" where
  "jnumber v = JNum (to_num v)"

definition baseline_row :: "jval \<Rightarrow> jval" where
  "baseline_row r = JObj
    [(''method'', jget r ''method''), (''routeTemplate'', jget r ''route_template''), (''sampleCount'', jget r ''sample_count''),
     (''statistic'', jnumber (jget r ''statistic'')), (''mad'', jnumber (jget r ''mad'')), (''threshold'', jget r ''derived_threshold''),
     (''observedRate'', jget r ''observed_rate''), (''lastUpdate'', jget r ''last_update''), (''version'', jget r ''version''),
     (''ready'', jget r ''ready'')]"

definition recommendation_row :: "jval \<Rightarrow> jval" where
  "recommendation_row r = (let p = jget r ''payload'' in JObj
    [(''policyId'', jget r ''policy_id''), (''targetIdentity'', jget r ''target_identity''), (''method'', jget r ''method''),
     (''routeTemplate'', jget r ''route_template''), (''action'', jget r ''action''), (''status'', jget r ''status''),
     (''riskScore'', jnumber (jget r ''risk_score'')), (''confidence'', jnumber (jget r ''confidence'')), (''mode'', jget r ''mode''),
     (''issuedBy'', jget r ''issued_by''), (''expiresAt'', jget r ''expires_at''),
     (''explanation'', jor (jget p ''explanation'') (JObj [])), (''reason'', jor (jget p ''reason'') (JStr [])),
     (''requestsPerMinute'', jnumber (jor (jget p ''requests_per_minute'') (jint 0))),
     (''createdAt'', jget r ''created_at''), (''updatedAt'', jget r ''updated_at'')])"

definition audit_row :: "jval \<Rightarrow> jval" where
  "audit_row r = JObj
    [(''auditId'', JStr (to_str (jget r ''audit_id''))), (''policyId'', jget r ''policy_id''), (''event'', jget r ''event''),
     (''actor'', jget r ''actor''), (''details'', jor (jget r ''details'') (JObj [])), (''createdAt'', jget r ''created_at'')]"

definition adaptive_body :: "jval \<Rightarrow> jval \<Rightarrow> jval \<Rightarrow> jval \<Rightarrow> jserr + (string \<times> jval) list" where
  "adaptive_body settings baselines recommendations audit =
     sbind (row0 settings) (\<lambda>s.
     sbind (map_rows baseline_row baselines) (\<lambda>bs.
     sbind (map_rows recommendation_row recommendations) (\<lambda>recs.
     sbind (map_rows audit_row audit) (\<lambda>au. Inr
       [(''available'', JBool True), (''config'', normalizeStoredAdaptive (jor (jget s ''config'') JNull)),
        (''fileConfig'', normalizeStoredAdaptive (jor (jget s ''file_config'') JNull)),
        (''source'', if jget s ''source'' = JStr ''console'' then JStr ''console'' else JStr ''file''),
        (''settingsUpdatedAt'', jor (jget s ''updated_at'') JNull), (''settingsUpdatedBy'', jor (jget s ''updated_by'') (JStr [])),
        (''baselines'', bs), (''recommendations'', recs), (''audit'', au)]))))"

definition readAdaptive :: "env \<Rightarrow> ((string \<times> jval) list) svc" where
  "readAdaptive env =
     (if \<not> has_pool env then ok [(''available'', JBool False), (''error'', JStr ''IASG_POSTGRES_URL is unset'')]
      else try_catch
        (next_do (pool_all [SelectAdaptive, SelectBaselines, SelectRecommendations, SelectAudit]) (\<lambda>rs.
           of_sum (adaptive_body (rs ! 0) (rs ! 1) (rs ! 2) (rs ! 3))))
        (\<lambda>e. ok [(''available'', JBool False), (''error'', JStr (err_message e)), (''baselines'', JArr []),
                 (''recommendations'', JArr []), (''audit'', JArr [])]))"

section \<open>What is accepted\<close>

text \<open>\<open>whole v lo hi\<close>: a number without fraction within the bounds; \<open>ival\<close> is its value.\<close>

definition ival :: "jval \<Rightarrow> int" where
  "ival v = (case v of JNum (Fin x) \<Rightarrow> \<lfloor>x\<rfloor> | _ \<Rightarrow> 0)"

definition whole :: "jval \<Rightarrow> int \<Rightarrow> int \<Rightarrow> bool" where
  "whole v lo hi \<longleftrightarrow> is_integer v \<and> lo \<le> ival v \<and> ival v \<le> hi"

lemma ival_jint [simp]: "ival (jint i) = i"
  by (simp add: ival_def)

lemma integerBetween_int: "integerBetween v (jint lo) (jint hi) \<longleftrightarrow> whole v lo hi"
  by (auto simp: integerBetween_def whole_def is_integer_iff)

lemma integerBetween_whole:
  "is_integer a \<Longrightarrow> integerBetween v a (jint hi) \<longleftrightarrow> whole v (ival a) hi"
  "is_integer b \<Longrightarrow> integerBetween v (jint lo) b \<longleftrightarrow> whole v lo (ival b)"
  "is_integer a \<Longrightarrow> is_integer b \<Longrightarrow> integerBetween v a b \<longleftrightarrow> whole v (ival a) (ival b)"
  by (auto simp: integerBetween_def whole_def is_integer_iff)

lemma whole_integer: "whole v lo hi \<Longrightarrow> is_integer v"
  by (simp add: whole_def)

definition known_keys :: "jval \<Rightarrow> string list \<Rightarrow> bool" where
  "known_keys v allowed \<longleftrightarrow> unknownKeys v allowed = []"

definition baseline_ok :: "jval \<Rightarrow> bool" where
  "baseline_ok b \<longleftrightarrow> jget b ''method'' = JStr ''median_mad'' \<and> jget b ''window_seconds'' = jint 60 \<and>
     whole (jget b ''rolling_windows'') 3 1440 \<and> whole (jget b ''warmup_windows'') 1 (ival (jget b ''rolling_windows'')) \<and>
     numberBetween (jget b ''mad_multiplier'') (fl (1 / 10)) (Fin 20) \<and> numberBetween (jget b ''minimum_mad'') (Fin 0) (Fin 1000) \<and>
     whole (jget b ''minimum_threshold_rpm'') 1 100000 \<and>
     whole (jget b ''maximum_threshold_rpm'') (ival (jget b ''minimum_threshold_rpm'')) 100000 \<and>
     numberBetween (jget b ''hysteresis_ratio'') (Fin 0) (Fin (1 / 2)) \<and> whole (jget b ''cooldown_seconds'') 0 86400"

lemma baseline_checks_iff: "first_err (baseline_checks b) = None \<longleftrightarrow> baseline_ok b"
proof -
  have "(whole w 3 1440 \<and> integerBetween v (jint 1) w) = (whole w 3 1440 \<and> whole v 1 (ival w))"
    "(whole w 1 100000 \<and> integerBetween v w (jint 100000)) = (whole w 1 100000 \<and> whole v (ival w) 100000)" for v w
    by (metis integerBetween_whole whole_integer)+
  then show ?thesis
    unfolding baseline_checks_def baseline_ok_def first_err_Cons fail_if_None not_not integerBetween_int first_err.simps
    by blast
qed

definition risk_ok :: "jval \<Rightarrow> bool" where
  "risk_ok r \<longleftrightarrow> list_all unit_range (weights r) \<and> \<not> off_total (weights r) \<and>
     score_range (jget r ''throttle_score'') \<and> score_range (jget r ''temporary_block_score'') \<and>
     jlt (jget r ''throttle_score'') (jget r ''temporary_block_score'') \<and>
     truthy (jget r ''detector_points'') \<and> list_all score_range (obj_values (jget r ''detector_points'')) \<and>
     truthy (jget r ''severity_multipliers'') \<and> list_all unit_range (obj_values (jget r ''severity_multipliers'')) \<and>
     score_range (jget r ''repeated_evidence_increment'') \<and> \<not> off_confidence r \<and>
     unit_range (jget r ''confidence_deterministic_weight'') \<and> unit_range (jget r ''confidence_campaign_weight'')"

lemma numberBetween_num: "numberBetween v lo hi \<Longrightarrow> \<exists>x. v = JNum (Fin x) \<and> nle lo (Fin x) \<and> nle (Fin x) hi"
  by (auto simp: numberBetween_def nis_finite_def split: jval.splits jnum.splits)

lemma number_order: "numberBetween v a b \<Longrightarrow> numberBetween w c d \<Longrightarrow> \<not> jle w v \<longleftrightarrow> jlt v w"
  "numberBetween v a b \<Longrightarrow> numberBetween w c d \<Longrightarrow> \<not> jlt w v \<longleftrightarrow> jle v w"
  by (auto dest!: numberBetween_num)

lemma risk_checks_iff: "first_err (risk_checks r) = None \<longleftrightarrow> risk_ok r"
proof -
  have "(score_range v \<and> score_range w \<and> \<not> jle w v) = (score_range v \<and> score_range w \<and> jlt v w)" for v w
    unfolding score_range_def using number_order(1) [of v "Fin 0" "Fin 100" w "Fin 0" "Fin 100"] by blast
  moreover have "list_ex (\<lambda>v. \<not> P v) xs \<longleftrightarrow> \<not> list_all P xs" for P and xs :: "jval list"
    by (simp add: list_ex_iff list_all_iff)
  ultimately show ?thesis
    by (simp add: risk_checks_def first_err_Cons risk_ok_def) blast
qed

definition guard_ok :: "jval \<Rightarrow> bool" where
  "guard_ok g \<longleftrightarrow> one_of ACTIONS (jget g ''maximum_automatic_action'') \<and>
     unit_range (jget g ''minimum_confidence_throttle'') \<and> unit_range (jget g ''minimum_confidence_temporary_block'') \<and>
     jle (jget g ''minimum_confidence_throttle'') (jget g ''minimum_confidence_temporary_block'') \<and>
     whole (jget g ''maximum_policy_duration_seconds'') 30 86400 \<and>
     list_all (\<lambda>n. whole (jget g n) 1 (ival (jget g ''maximum_policy_duration_seconds'')))
       [''monitor_duration_seconds'', ''throttle_duration_seconds'', ''temporary_block_duration_seconds''] \<and>
     whole (jget g ''minimum_throttle_rpm'') 1 100000 \<and>
     whole (jget g ''default_throttle_rpm'') (ival (jget g ''minimum_throttle_rpm'')) 100000 \<and>
     whole (jget g ''maximum_throttle_rpm'') (ival (jget g ''default_throttle_rpm'')) 100000 \<and>
     numberBetween (jget g ''throttle_baseline_fraction'') (fl (1 / 100)) (Fin 1) \<and>
     (jget g ''behavioural_throttle_enabled'' = JUndef \<or> is_boolean (jget g ''behavioural_throttle_enabled'')) \<and>
     (jget g ''behavioural_throttle_minimum_deviation'' = JUndef \<or>
       numberBetween (jget g ''behavioural_throttle_minimum_deviation'') (fl (1 / 10)) (Fin 100)) \<and>
     whole (jget g ''policy_cooldown_seconds'') 0 86400 \<and> unit_range (jget g ''analyst_escalation_confidence'') \<and>
     whole (jget g ''analyst_escalation_min_clients'') 1 100000 \<and> whole (jget g ''analyst_escalation_min_stages'') 2 20 \<and>
     whole (jget g ''minimum_deterministic_evidence_throttle'') 1 1000 \<and>
     whole (jget g ''minimum_deterministic_evidence_temporary_block'') (ival (jget g ''minimum_deterministic_evidence_throttle'')) 1000 \<and>
     (\<exists>allow block. jget g ''allowlist'' = JArr allow \<and> jget g ''blocklist'' = JArr block \<and>
       list_all isAddressOrCidr allow \<and> list_all isAddressOrCidr block)"

lemma lists_iff:
  "(is_array a \<and> is_array b \<and> range_list_check n a = None \<and> range_list_check m b = None) \<longleftrightarrow>
     (\<exists>allow block. a = JArr allow \<and> b = JArr block \<and> list_all isAddressOrCidr allow \<and> list_all isAddressOrCidr block)"
  by (auto simp: is_array_def range_list_check_def list_ex_iff list_all_iff split: jval.splits)

lemma guard_checks_iff: "first_err (guard_checks g) = None \<longleftrightarrow> guard_ok g"
proof -
  have a: "(unit_range v \<and> unit_range w \<and> \<not> jlt w v) = (unit_range v \<and> unit_range w \<and> jle v w)" for v w
    unfolding unit_range_def using number_order(2) [of v "Fin 0" "Fin 1" w "Fin 0" "Fin 1"] by blast
  have b: "(whole m 30 86400 \<and> integerBetween v (jint 1) m) = (whole m 30 86400 \<and> whole v 1 (ival m))"
    "(whole x 1 100000 \<and> integerBetween y x (jint 100000)) = (whole x 1 100000 \<and> whole y (ival x) 100000)"
    "(whole y l 100000 \<and> integerBetween z y (jint 100000)) = (whole y l 100000 \<and> whole z (ival y) 100000)"
    "(whole x 1 1000 \<and> integerBetween y x (jint 1000)) = (whole x 1 1000 \<and> whole y (ival x) 1000)" for v m x y z l
    by (metis integerBetween_whole whole_integer)+
  show ?thesis
    unfolding guard_checks_def guard_ok_def duration_check_def lists_iff [symmetric, of _ _ "''allowlist''" "''blocklist''"]
    by (simp only: first_err_Cons first_err.simps fail_if_None de_Morgan_disj not_not list_all_Cons_iff list_all_Nil_iff integerBetween_int simp_thms)
      (use a b in blast)
qed

definition adaptive_ok :: "jval \<Rightarrow> bool" where
  "adaptive_ok config \<longleftrightarrow> truthy config \<and> is_objectlike config \<and> known_keys config TOP_KEYS \<and>
     whole (jget config ''version'') 1 (2 ^ 53 - 1) \<and> one_of MODES (jget config ''mode'') \<and>
     known_keys (jget config ''baseline'') BASELINE_KEYS \<and> known_keys (jget config ''risk'') RISK_KEYS \<and>
     known_keys (jget config ''guardrails'') GUARD_KEYS \<and>
     baseline_ok (jget config ''baseline'') \<and> risk_ok (jget config ''risk'') \<and> guard_ok (jget config ''guardrails'')"

lemma falsy_jget: "\<not> truthy v \<Longrightarrow> k \<noteq> ''length'' \<Longrightarrow> jget v k = JUndef"
  by (cases v) (auto simp: jget_def seq_get_def split: option.split)

lemma section_needed: "baseline_ok v \<Longrightarrow> truthy v" "risk_ok v \<Longrightarrow> truthy v" "guard_ok v \<Longrightarrow> truthy v"
  by (rule ccontr, simp add: baseline_ok_def risk_ok_def guard_ok_def falsy_jget one_of_def)+

lemma validate_iff: "validateAdaptive config = None \<longleftrightarrow> adaptive_ok config"
proof -
  let ?b = "jor (jget config ''baseline'') (JObj [])" and ?r = "jor (jget config ''risk'') (JObj [])"
    and ?g = "jor (jget config ''guardrails'') (JObj [])"
  have app: "first_err (xs @ ys) = None \<longleftrightarrow> first_err xs = None \<and> first_err ys = None" for xs ys :: "string option list"
    by (auto simp: first_err_None_iff)
  have top: "first_err (top_checks config) = None \<longleftrightarrow> known_keys config TOP_KEYS \<and>
      whole (jget config ''version'') 1 (2 ^ 53 - 1) \<and> one_of MODES (jget config ''mode'')"
    unfolding top_checks_def first_err_Cons fail_unknown_def fail_if_None not_not integerBetween_int known_keys_def
    by simp
  have keys: "first_err (key_checks b r g) = None \<longleftrightarrow> known_keys b BASELINE_KEYS \<and> known_keys r RISK_KEYS \<and> known_keys g GUARD_KEYS"
    for b r g by (simp add: key_checks_def first_err_Cons fail_unknown_def known_keys_def)
  have empty: "\<not> baseline_ok (JObj [])" "\<not> risk_ok (JObj [])" "\<not> guard_ok (JObj [])"
    by (simp_all add: baseline_ok_def risk_ok_def guard_ok_def jget_JObj one_of_def)
  have b: "(known_keys ?b BASELINE_KEYS \<and> baseline_ok ?b) = (known_keys (jget config ''baseline'') BASELINE_KEYS \<and> baseline_ok (jget config ''baseline''))"
    using section_needed(1) [of "jget config ''baseline''"] empty by (auto simp: jor_def)
  have r: "(known_keys ?r RISK_KEYS \<and> risk_ok ?r) = (known_keys (jget config ''risk'') RISK_KEYS \<and> risk_ok (jget config ''risk''))"
    using section_needed(2) [of "jget config ''risk''"] empty by (auto simp: jor_def)
  have g: "(known_keys ?g GUARD_KEYS \<and> guard_ok ?g) = (known_keys (jget config ''guardrails'') GUARD_KEYS \<and> guard_ok (jget config ''guardrails''))"
    using section_needed(3) [of "jget config ''guardrails''"] empty by (auto simp: jor_def)
  have "validateAdaptive config = None \<longleftrightarrow> truthy config \<and> is_objectlike config \<and> first_err (top_checks config) = None \<and>
      first_err (key_checks ?b ?r ?g) = None \<and> baseline_ok ?b \<and> risk_ok ?r \<and> guard_ok ?g"
    by (auto simp: validateAdaptive_def Let_def app baseline_checks_iff risk_checks_iff guard_checks_iff)
  then show ?thesis unfolding adaptive_ok_def top keys using b r g by blast
qed

section \<open>Properties\<close>


text \<open>A value that is not below a finite minimum: large enough, or not a number at all.\<close>

definition not_below :: "jnum \<Rightarrow> jval \<Rightarrow> bool" where
  "not_below x m \<longleftrightarrow> x = NaN \<or> jle m (JNum x)"

definition edit_confidence :: "jval \<Rightarrow> jnum" where
  "edit_confidence payload = to_num (jor (jget payload ''confidence'') (jint 0))"

definition edit_evidence :: "jval \<Rightarrow> jnum" where
  "edit_evidence payload = to_num (jor (jget (jget payload ''explanation'') ''deterministic_evidence_count'') (jint 0))"

definition within_guardrails :: "jval \<Rightarrow> jval \<Rightarrow> bool" where
  "within_guardrails payload g \<longleftrightarrow> one_of ACTIONS (jget payload ''action'') \<and>
     whole (jget payload ''expires_in'') 1 (ival (jget g ''maximum_policy_duration_seconds'')) \<and>
     ival (jget g ''maximum_policy_duration_seconds'') \<le> 86400 \<and>
     (jget payload ''action'' = JStr ''throttle'' \<longrightarrow>
        whole (jget payload ''requests_per_minute'') (ival (jget g ''minimum_throttle_rpm'')) (ival (jget g ''maximum_throttle_rpm'')) \<and>
        1 \<le> ival (jget g ''minimum_throttle_rpm'') \<and> ival (jget g ''maximum_throttle_rpm'') \<le> 100000 \<and>
        not_below (edit_confidence payload) (jget g ''minimum_confidence_throttle'') \<and>
        not_below (edit_evidence payload) (jget g ''minimum_deterministic_evidence_throttle'')) \<and>
     (jget payload ''action'' = JStr ''temp_block'' \<longrightarrow>
        not_below (edit_confidence payload) (jget g ''minimum_confidence_temporary_block'') \<and>
        not_below (edit_evidence payload) (jget g ''minimum_deterministic_evidence_temporary_block''))"

lemma not_below_iff: "(\<exists>y. m = JNum (Fin y)) \<Longrightarrow> \<not> jlt (JNum x) m \<longleftrightarrow> not_below x m"
  by (cases x) (auto simp: not_below_def)

lemma finite_number: "unit_range v \<Longrightarrow> \<exists>y. v = JNum (Fin y)" "whole v lo hi \<Longrightarrow> \<exists>y. v = JNum (Fin y)"
  by (auto simp: unit_range_def whole_def is_integer_iff dest!: numberBetween_num)

text \<open>Property C12. Under an accepted configuration, an edited recommendation passes exactly when it is
  within the guardrails: a known action, a duration up to the maximum, and for a throttle or a block
  the rate, confidence and evidence minimums; a confidence or evidence that is not a number is not
  refused.\<close>

theorem approval_within_guardrails:
  assumes "validateAdaptive config = None"
  shows "validateRecommendationEdit payload config = Inr None \<longleftrightarrow>
    within_guardrails payload (jget config ''guardrails'')"
proof -
  let ?g = "jget config ''guardrails''"
  have g: "guard_ok ?g" using assms by (simp add: validate_iff adaptive_ok_def)
  then have nn: "\<not> nullish ?g" using section_needed(3) [of ?g] by (auto simp: nullish_def)
  have mx: "whole (jget ?g ''maximum_policy_duration_seconds'') 30 86400"
    and rates: "whole (jget ?g ''minimum_throttle_rpm'') 1 100000"
      "whole (jget ?g ''maximum_throttle_rpm'') (ival (jget ?g ''default_throttle_rpm'')) 100000"
    and conf: "unit_range (jget ?g ''minimum_confidence_throttle'')" "unit_range (jget ?g ''minimum_confidence_temporary_block'')"
    and ev: "whole (jget ?g ''minimum_deterministic_evidence_throttle'') 1 1000"
      "whole (jget ?g ''minimum_deterministic_evidence_temporary_block'') (ival (jget ?g ''minimum_deterministic_evidence_throttle'')) 1000"
    using g unfolding guard_ok_def by blast+
  note nb = not_below_iff [OF finite_number(1) [OF conf(1)]] not_below_iff [OF finite_number(1) [OF conf(2)]]
    not_below_iff [OF finite_number(2) [OF ev(1)]] not_below_iff [OF finite_number(2) [OF ev(2)]]
  have dur: "integerBetween v (jint 1) (jget ?g ''maximum_policy_duration_seconds'') \<longleftrightarrow>
      whole v 1 (ival (jget ?g ''maximum_policy_duration_seconds''))" for v
    by (rule integerBetween_whole(2) [OF whole_integer [OF mx]])
  have rpm: "integerBetween v (jget ?g ''minimum_throttle_rpm'') (jget ?g ''maximum_throttle_rpm'') \<longleftrightarrow>
      whole v (ival (jget ?g ''minimum_throttle_rpm'')) (ival (jget ?g ''maximum_throttle_rpm''))" for v
    by (rule integerBetween_whole(3) [OF whole_integer [OF rates(1)] whole_integer [OF rates(2)]])
  have bnd: "ival (jget ?g ''maximum_policy_duration_seconds'') \<le> 86400" "1 \<le> ival (jget ?g ''minimum_throttle_rpm'')"
    "ival (jget ?g ''maximum_throttle_rpm'') \<le> 100000"
    using mx rates by (simp_all add: whole_def)
  show ?thesis
    unfolding validateRecommendationEdit_def within_guardrails_def edit_confidence_def edit_evidence_def Let_def
    by (simp only: nn if_False sum.inject first_err_Cons first_err.simps fail_if_None dur rpm nb bnd simp_thms de_Morgan_conj not_not split: if_split)
      (auto simp: nb)
qed

definition sample_config :: jval where
  "sample_config = JObj
    [(''version'', jint 4), (''mode'', JStr ''manual''),
     (''baseline'', JObj [(''method'', JStr ''median_mad''), (''window_seconds'', jint 60), (''rolling_windows'', jint 60),
        (''warmup_windows'', jint 5), (''mad_multiplier'', jint 3), (''minimum_mad'', jint 1), (''minimum_threshold_rpm'', jint 30),
        (''maximum_threshold_rpm'', jint 600), (''hysteresis_ratio'', jint 0), (''cooldown_seconds'', jint 60)]),
     (''risk'', JObj [(''deterministic_weight'', jint 1), (''behavioural_weight'', jint 0), (''campaign_weight'', jint 0),
        (''throttle_score'', jint 40), (''temporary_block_score'', jint 70),
        (''detector_points'', JObj [(''sql_injection'', jint 60)]), (''severity_multipliers'', JObj [(''high'', jint 1)]),
        (''repeated_evidence_increment'', jint 5), (''confidence_deterministic_weight'', jint 1), (''confidence_campaign_weight'', jint 0)]),
     (''guardrails'', JObj [(''maximum_automatic_action'', JStr ''throttle''), (''minimum_confidence_throttle'', jint 0),
        (''minimum_confidence_temporary_block'', jint 1), (''maximum_policy_duration_seconds'', jint 900),
        (''monitor_duration_seconds'', jint 300), (''throttle_duration_seconds'', jint 300), (''temporary_block_duration_seconds'', jint 900),
        (''minimum_throttle_rpm'', jint 5), (''default_throttle_rpm'', jint 30), (''maximum_throttle_rpm'', jint 120),
        (''throttle_baseline_fraction'', jint 1), (''policy_cooldown_seconds'', jint 60), (''analyst_escalation_confidence'', jint 1),
        (''analyst_escalation_min_clients'', jint 3), (''analyst_escalation_min_stages'', jint 2),
        (''minimum_deterministic_evidence_throttle'', jint 2), (''minimum_deterministic_evidence_temporary_block'', jint 3),
        (''allowlist'', JArr []), (''blocklist'', JArr [])])]"

definition sample_edit :: jval where
  "sample_edit = JObj [(''action'', JStr ''throttle''), (''expires_in'', jint 600), (''requests_per_minute'', jint 60),
     (''confidence'', jint 1), (''explanation'', JObj [(''deterministic_evidence_count'', jint 2)])]"

lemma fl_tenths: "nle (fl (1 / 10)) (Fin 3)" "nle (fl (1 / 100)) (Fin 1)" "\<not> nlt (fl (1 / 1000)) (Fin 0)" "\<not> nlt (fl (1 / 100)) (Fin 0)"
proof -
  show "nle (fl (1 / 10)) (Fin 3)" using fl_mono [of "1 / 10" "of_int 3"] fl_int [of 3] by simp
  show "nle (fl (1 / 100)) (Fin 1)" using fl_mono [of "1 / 100" "of_int 1"] fl_int [of 1] by simp
  have "\<not> nlt x (Fin 0)" if "nonneg x" for x using that by (cases x) (auto simp: nonneg_def)
  then show "\<not> nlt (fl (1 / 1000)) (Fin 0)" "\<not> nlt (fl (1 / 100)) (Fin 0)" by (simp_all add: fl_nonneg)
qed

lemma known_if: "fst ` set d \<subseteq> set allowed \<Longrightarrow> known_keys (JObj d) allowed"
proof -
  assume "fst ` set d \<subseteq> set allowed"
  then have "find (\<lambda>k. k \<notin> set allowed) (obj_keys (JObj d)) = None"
    unfolding find_None_iff obj_keys_JObj by blast
  then show ?thesis by (simp add: known_keys_def unknownKeys_def)
qed

lemma all_values: "list_all P (obj_values (JObj d)) \<longleftrightarrow> list_all (\<lambda>(k, v). P v) d"
  by (auto simp: obj_values_def obj_entries_def list_all_iff)

lemma jget_Cons: "jget (JObj ((a, v) # d)) k = (if k = a then v else jget (JObj d) k)"
  by (simp add: jget_JObj dget_Cons)

lemma jget_Nil: "jget (JObj []) k = JUndef"
  by (simp add: jget_JObj)

lemma whole_num: "whole (JNum (Fin x)) lo hi \<longleftrightarrow> x = of_int \<lfloor>x\<rfloor> \<and> lo \<le> \<lfloor>x\<rfloor> \<and> \<lfloor>x\<rfloor> \<le> hi"
  by (simp add: whole_def is_integer_def nis_int_def ival_def)

lemma sample_valid: "validateAdaptive sample_config = None"
proof -
  note ev = sample_config_def jget_Cons jget_Nil whole_num numberBetween_def nis_finite_def fl_tenths ival_def
  have k: "known_keys sample_config TOP_KEYS" "known_keys (jget sample_config ''baseline'') BASELINE_KEYS"
    "known_keys (jget sample_config ''risk'') RISK_KEYS" "known_keys (jget sample_config ''guardrails'') GUARD_KEYS"
    by (simp_all add: sample_config_def jget_Cons known_if TOP_KEYS_def BASELINE_KEYS_def RISK_KEYS_def GUARD_KEYS_def)
  have b: "baseline_ok (jget sample_config ''baseline'')"
    unfolding baseline_ok_def by (simp add: ev)
  have i1: "fl 1 = Fin 1" using fl_int [of 1] by simp
  have r: "risk_ok (jget sample_config ''risk'')"
    unfolding risk_ok_def by (simp add: ev i1 nsub_def weights_def unit_range_def score_range_def off_total_def off_confidence_def all_values)
  have g: "guard_ok (jget sample_config ''guardrails'')"
    unfolding guard_ok_def by (simp add: ev unit_range_def one_of_def ACTIONS_def ival_def is_boolean_def)
  have "truthy sample_config" "is_objectlike sample_config" "whole (jget sample_config ''version'') 1 (2 ^ 53 - 1)"
    "one_of MODES (jget sample_config ''mode'')"
    by (simp_all add: ev is_objectlike_def one_of_def MODES_def)
  with k b r g show ?thesis by (simp only: validate_iff adaptive_ok_def)
qed

theorem approval_within_guardrails_witness:
  "validateAdaptive sample_config = None \<and>
   validateRecommendationEdit sample_edit sample_config = Inr None \<and>
   within_guardrails sample_edit (jget sample_config ''guardrails'')"
proof -
  have w: "within_guardrails sample_edit (jget sample_config ''guardrails'')"
    unfolding within_guardrails_def
    by (simp add: sample_edit_def sample_config_def jget_Cons whole_num one_of_def ACTIONS_def ival_def not_below_def
        edit_confidence_def edit_evidence_def jor_def)
  then show ?thesis using approval_within_guardrails [OF sample_valid, of sample_edit] sample_valid by simp
qed

text \<open>An unknown setting with an empty name hides the unknown settings after it.\<close>

lemma empty_key_hides: "unknownKeys (JObj [([], v), (''evil'', w)]) TOP_KEYS = []"
proof -
  have i: "index_key [] = None" "index_key ''evil'' = None" by (simp_all add: index_key_def digits_cs_def)
  show ?thesis by (simp add: unknownKeys_def obj_keys_def obj_entries_def index_sorted_def i TOP_KEYS_def)
qed

end
