(* ===== verification/GatewaySettings.thy ===== *)
theory GatewaySettings
  imports JsValue
begin

text \<open>
  The live enforcement settings the console edits: \<open>lib/gateway-settings.mjs\<close>. The section and
  signal lists, the split of the gateway's published blob into editable and read-only parts, and
  the validation a save must pass. The messages are the constructors of \<open>settings_problem\<close>.
  The lemmas characterise the accepted settings, durations and address ranges declaratively.
\<close>

section \<open>The code\<close>

definition SECTIONS :: "string list" where
  "SECTIONS = [''rate_limit'', ''attack_detection'', ''brute_force'', ''unknown_route_scanning'',
     ''object_enumeration'', ''object_ownership'', ''enumeration_path_traversal'', ''ip_reputation'',
     ''throttle'', ''block'', ''policy'']"

definition OPTIONAL_SECTIONS :: "string list" where
  "OPTIONAL_SECTIONS = [''object_enumeration'', ''object_ownership'']"

definition KNOWN_SIGNALS :: "string list" where
  "KNOWN_SIGNALS = [''api_flooding'', ''sql_injection'', ''enumeration_path_traversal'', ''ip_reputation'']"

text \<open>The default of \<open>source\<close> applies to \<open>undefined\<close> only.\<close>

definition splitSettings :: "jval \<Rightarrow> (string \<times> jval) list \<times> (string \<times> jval) list \<times> jval" where
  "splitSettings effective =
     (let e = jor effective (JObj []);
          source = (if jget e ''source'' = JUndef then JStr ''file'' else jget e ''source'');
          rest = filter (\<lambda>(k, v). k \<noteq> ''source'') (obj_entries e)
      in (filter (\<lambda>(k, v). k \<in> set SECTIONS) rest, filter (\<lambda>(k, v). k \<notin> set SECTIONS) rest, source))"

text \<open>\<open>/^(\d+(\.\d+)?(ns|us|\<mu>s|ms|s|m|h))+$/\<close>; the micro sign is U+00B5.\<close>

definition micro :: char where
  "micro = char_of (181 :: nat)"

definition units :: "string list" where
  "units = [''ns'', ''us'', [micro, CHR ''s''], ''ms'', ''s'', ''m'', ''h'']"

definition duration_re :: re where
  "duration_re = Plus (Cat (Plus digit) (Cat (Opt (Cat (Word ''.'') (Plus digit))) (Alts (map Word units))))"

definition isDuration :: "jval \<Rightarrow> bool" where
  "isDuration v = (case v of JStr s \<Rightarrow> rmatch duration_re (trim s) | _ \<Rightarrow> False)"

definition bits_re :: re where
  "bits_re = Between 1 3 digit"

definition ipv4_shape_re :: re where
  "ipv4_shape_re = Cat (Between 1 3 digit) (Times 3 (Cat (Word ''.'') (Between 1 3 digit)))"

definition ipv6_shape_re :: re where
  "ipv6_shape_re = Plus (Cls (CHR '':'' # hex_cs))"

definition isCidrOrAddress :: "jval \<Rightarrow> bool" where
  "isCidrOrAddress v = (case v of JStr s \<Rightarrow>
       if trim s = [] then False
       else (case split_on (CHR ''/'') (trim s) of
           addr # more \<Rightarrow>
             (let isV4 = rmatch ipv4_shape_re addr;
                  isV6 = rmatch ipv6_shape_re addr \<and> CHR '':'' \<in> set addr
              in if length more > 1 then False
                 else if \<exists>bits \<in> set more. \<not> rmatch bits_re bits then False
                 else if \<not> isV4 \<and> \<not> isV6 then False
                 else if isV4 \<and> (\<exists>q \<in> set (split_on (CHR ''.'') addr). parse_nat q > 255) then False
                 else if \<exists>bits \<in> set more. parse_nat bits > (if isV4 then 32 else 128) then False
                 else True)
         | [] \<Rightarrow> False)
     | _ \<Rightarrow> False)"

datatype settings_problem =
    ExpectedObject
  | NotLive string
  | MissingSections "string list"
  | BadRateLimit
  | BadMaxFailures
  | BadDuration string jval
  | BadScanLimits
  | BadObjectLimits
  | BadOnUnverifiable
  | BadMaxBody
  | BadMinScore
  | BadReputationScore
  | BadDelay
  | SignalsNotList
  | UnknownSignal jval
  | ExemptNotList
  | BadExempt jval

text \<open>A field that may be absent but, when present, is a whole number in the range.\<close>

definition bad_int :: "jval \<Rightarrow> int \<Rightarrow> int option \<Rightarrow> bool" where
  "bad_int v lo hi = (v \<noteq> JUndef \<and> (\<not> is_integer v \<or> jlt v (jint lo) \<or>
     (case hi of None \<Rightarrow> False | Some h \<Rightarrow> jlt (jint h) v)))"

text \<open>The capacity limits of the two enumeration detectors: distinct count, per-client and client capacity.\<close>

definition bad_limits :: "jval \<Rightarrow> string \<Rightarrow> string \<Rightarrow> bool" where
  "bad_limits c distinct_name per_client =
     (\<not> is_integer (jget c distinct_name) \<or> jlt (jget c distinct_name) (jint 2) \<or>
      \<not> is_integer (jget c per_client) \<or> jlt (jget c per_client) (jget c distinct_name) \<or>
      jlt (jint 10000) (jget c per_client) \<or>
      \<not> is_integer (jget c ''max_clients'') \<or> jlt (jget c ''max_clients'') (jint 1) \<or>
      jlt (jint 100000) (jget c ''max_clients''))"

definition not_live :: "jval \<Rightarrow> settings_problem option" where
  "not_live s = first_err (map (\<lambda>k. fail_if (k \<notin> set SECTIONS) (NotLive k)) (obj_keys s))"

definition missing_sections :: "jval \<Rightarrow> string list" where
  "missing_sections s = filter (\<lambda>n. \<not> truthy (jget s n) \<and> n \<notin> set OPTIONAL_SECTIONS) SECTIONS"

text \<open>\<open>for (const x of list) if (bad x) return ...\<close>, after the check that it is a list.\<close>

definition check_list :: "jval \<Rightarrow> 'e \<Rightarrow> (jval \<Rightarrow> 'e option) \<Rightarrow> 'e option" where
  "check_list v not_list f = (case v of JUndef \<Rightarrow> None | JArr xs \<Rightarrow> first_err (map f xs) | _ \<Rightarrow> Some not_list)"

definition validateSettings :: "jval \<Rightarrow> settings_problem option" where
  "validateSettings s =
     (if \<not> truthy s \<or> \<not> is_objectlike s then Some ExpectedObject else
      let block = jget s ''block''; scan = jget s ''unknown_route_scanning'';
          objects = jget s ''object_enumeration''; ownership = jget s ''object_ownership'';
          brute = jget s ''brute_force''; reputation = jget s ''ip_reputation''
      in first_err
       [not_live s,
        fail_if (missing_sections s \<noteq> []) (MissingSections (missing_sections s)),
        fail_if (bad_int (jget (jget s ''rate_limit'') ''requests_per_minute'') 1 None) BadRateLimit,
        fail_if (bad_int (jget brute ''max_failures'') 1 None) BadMaxFailures,
        fail_if (jget brute ''window'' \<noteq> JUndef \<and> \<not> isDuration (jget brute ''window''))
          (BadDuration ''brute_force.window'' (jget brute ''window'')),
        fail_if (truthy scan \<and> bad_limits scan ''distinct_paths'' ''max_paths_per_client'') BadScanLimits,
        fail_if (truthy scan \<and> \<not> isDuration (jget scan ''window''))
          (BadDuration ''unknown_route_scanning.window'' (jget scan ''window'')),
        fail_if (truthy objects \<and> bad_limits objects ''distinct_ids'' ''max_ids_per_client'') BadObjectLimits,
        fail_if (truthy objects \<and> \<not> isDuration (jget objects ''window''))
          (BadDuration ''object_enumeration.window'' (jget objects ''window'')),
        fail_if (truthy ownership \<and> jget ownership ''on_unverifiable'' \<notin> {JStr ''deny'', JStr ''allow''})
          BadOnUnverifiable,
        fail_if (truthy ownership \<and> (\<not> is_integer (jget ownership ''max_body_bytes'') \<or>
            jlt (jget ownership ''max_body_bytes'') (jint 1024) \<or>
            jlt (jint (16 * 1024 * 1024)) (jget ownership ''max_body_bytes''))) BadMaxBody,
        fail_if (jget block ''duration'' \<noteq> JUndef \<and> \<not> isDuration (jget block ''duration''))
          (BadDuration ''block.duration'' (jget block ''duration'')),
        fail_if (bad_int (jget block ''min_score'') 0 (Some 100)) BadMinScore,
        fail_if (bad_int (jget reputation ''score'') 0 (Some 100)) BadReputationScore,
        fail_if (jget reputation ''cooldown'' \<noteq> JUndef \<and> \<not> isDuration (jget reputation ''cooldown''))
          (BadDuration ''ip_reputation.cooldown'' (jget reputation ''cooldown'')),
        fail_if (bad_int (jget (jget s ''throttle'') ''delay_ms'') 0 None) BadDelay,
        check_list (jget block ''signals'') SignalsNotList
          (\<lambda>n. fail_if (n \<notin> JStr ` set KNOWN_SIGNALS) (UnknownSignal n)),
        check_list (jget block ''exempt_cidrs'') ExemptNotList
          (\<lambda>e. fail_if (\<not> isCidrOrAddress e) (BadExempt e))])"

section \<open>What is accepted\<close>

text \<open>Declarative readings of the checks.\<close>

definition opt_int_in :: "jval \<Rightarrow> int \<Rightarrow> int option \<Rightarrow> bool" where
  "opt_int_in v lo hi \<longleftrightarrow> v = JUndef \<or> (\<exists>i. v = jint i \<and> lo \<le> i \<and> (case hi of None \<Rightarrow> True | Some h \<Rightarrow> i \<le> h))"

definition opt_duration :: "jval \<Rightarrow> bool" where
  "opt_duration v \<longleftrightarrow> v = JUndef \<or> isDuration v"

definition limits_ok :: "jval \<Rightarrow> string \<Rightarrow> string \<Rightarrow> bool" where
  "limits_ok c d p \<longleftrightarrow> (\<exists>distinct per_client clients.
     jget c d = jint distinct \<and> jget c p = jint per_client \<and> jget c ''max_clients'' = jint clients \<and>
     2 \<le> distinct \<and> distinct \<le> per_client \<and> per_client \<le> 10000 \<and> 1 \<le> clients \<and> clients \<le> 100000)"

definition list_of :: "(jval \<Rightarrow> bool) \<Rightarrow> jval \<Rightarrow> bool" where
  "list_of P v \<longleftrightarrow> v = JUndef \<or> (\<exists>xs. v = JArr xs \<and> (\<forall>x \<in> set xs. P x))"

definition sections_usable :: "(string \<Rightarrow> jval) \<Rightarrow> bool" where
  "sections_usable sec \<longleftrightarrow>
     (\<forall>n \<in> set SECTIONS - set OPTIONAL_SECTIONS. truthy (sec n)) \<and>
     opt_int_in (jget (sec ''rate_limit'') ''requests_per_minute'') 1 None \<and>
     opt_int_in (jget (sec ''brute_force'') ''max_failures'') 1 None \<and>
     opt_duration (jget (sec ''brute_force'') ''window'') \<and>
     limits_ok (sec ''unknown_route_scanning'') ''distinct_paths'' ''max_paths_per_client'' \<and>
     isDuration (jget (sec ''unknown_route_scanning'') ''window'') \<and>
     (truthy (sec ''object_enumeration'') \<longrightarrow>
        limits_ok (sec ''object_enumeration'') ''distinct_ids'' ''max_ids_per_client'' \<and>
        isDuration (jget (sec ''object_enumeration'') ''window'')) \<and>
     (truthy (sec ''object_ownership'') \<longrightarrow>
        jget (sec ''object_ownership'') ''on_unverifiable'' \<in> {JStr ''deny'', JStr ''allow''} \<and>
        (\<exists>i. jget (sec ''object_ownership'') ''max_body_bytes'' = jint i \<and> 1024 \<le> i \<and> i \<le> 16777216)) \<and>
     opt_duration (jget (sec ''block'') ''duration'') \<and>
     opt_int_in (jget (sec ''block'') ''min_score'') 0 (Some 100) \<and>
     opt_int_in (jget (sec ''ip_reputation'') ''score'') 0 (Some 100) \<and>
     opt_duration (jget (sec ''ip_reputation'') ''cooldown'') \<and>
     opt_int_in (jget (sec ''throttle'') ''delay_ms'') 0 None \<and>
     list_of (\<lambda>n. n \<in> JStr ` set KNOWN_SIGNALS) (jget (sec ''block'') ''signals'') \<and>
     list_of isCidrOrAddress (jget (sec ''block'') ''exempt_cidrs'')"

lemma bad_int_iff [chk_simps]: "\<not> bad_int v lo hi \<longleftrightarrow> opt_int_in v lo hi"
  by (cases hi; cases "is_integer v")
    (auto simp: bad_int_def opt_int_in_def is_integer_iff not_less)

lemma bad_limits_iff [chk_simps]: "\<not> bad_limits c d p \<longleftrightarrow> limits_ok c d p"
  by (auto simp: bad_limits_def limits_ok_def is_integer_iff not_less)

lemma check_list_iff [chk_simps]:
  "check_list v nl f = None \<longleftrightarrow> list_of (\<lambda>x. f x = None) v"
  by (cases v) (auto simp: check_list_def list_of_def first_err_None_iff)

lemma not_live_iff [chk_simps]: "not_live s = None \<longleftrightarrow> set (obj_keys s) \<subseteq> set SECTIONS"
  by (auto simp: not_live_def first_err_None_iff)

lemma missing_iff [chk_simps]:
  "missing_sections s = [] \<longleftrightarrow> (\<forall>n \<in> set SECTIONS - set OPTIONAL_SECTIONS. truthy (jget s n))"
  by (auto simp: missing_sections_def filter_empty_conv)

lemma present_iff: "\<not> (t \<and> b) \<longleftrightarrow> (t \<longrightarrow> \<not> b)"
  by blast

lemma body_iff:
  "\<not> (\<not> is_integer v \<or> jlt v (jint a) \<or> jlt (jint b) v) \<longleftrightarrow> (\<exists>i. v = jint i \<and> a \<le> i \<and> i \<le> b)"
  by (auto simp: is_integer_iff not_less)

lemma in_range_literal: "(16 * 1024 * 1024 :: int) = 16777216"
  by simp

lemmas settings_checks = first_err_Cons first_err.simps(1) fail_if_None bad_int_iff
  check_list_iff body_iff in_range_literal not_not

lemma scan_required: "\<forall>n \<in> set SECTIONS - set OPTIONAL_SECTIONS. truthy (sec n) \<Longrightarrow> truthy (sec ''unknown_route_scanning'')"
  by (simp add: SECTIONS_def OPTIONAL_SECTIONS_def)

lemma validate_None:
  assumes "truthy s" and "is_objectlike s"
  shows "validateSettings s = None \<longleftrightarrow> set (obj_keys s) \<subseteq> set SECTIONS \<and> sections_usable (jget s)"
proof -
  have m: "missing_sections s = [] \<Longrightarrow> truthy (jget s ''unknown_route_scanning'')"
    unfolding missing_iff by (rule scan_required)
  have "validateSettings s = None \<longleftrightarrow> not_live s = None \<and> missing_sections s = [] \<and> sections_usable (jget s)"
    unfolding validateSettings_def Let_def sections_usable_def missing_iff [symmetric] opt_duration_def
    using assms m by (simp only: settings_checks present_iff bad_limits_iff if_False simp_thms) blast
  then show ?thesis by (auto simp: chk_simps sections_usable_def)
qed

lemma sections_cong:
  assumes "\<forall>n \<in> set SECTIONS. f n = g n"
  shows "sections_usable f = sections_usable g"
proof -
  have "f ''rate_limit'' = g ''rate_limit''" "f ''brute_force'' = g ''brute_force''"
    "f ''unknown_route_scanning'' = g ''unknown_route_scanning''"
    "f ''object_enumeration'' = g ''object_enumeration''" "f ''object_ownership'' = g ''object_ownership''"
    "f ''ip_reputation'' = g ''ip_reputation''" "f ''throttle'' = g ''throttle''" "f ''block'' = g ''block''"
    using assms by (simp_all add: SECTIONS_def)
  moreover have "\<forall>n \<in> set SECTIONS - set OPTIONAL_SECTIONS. f n = g n" using assms by blast
  ultimately show ?thesis by (simp add: sections_usable_def)
qed

section \<open>Splitting the published settings\<close>

lemma split_fst: "fst (splitSettings (JObj d)) = filter (\<lambda>(k, v). k \<in> set SECTIONS) (index_sorted d)"
proof -
  have "''source'' \<notin> set SECTIONS" by (simp add: SECTIONS_def)
  then have "(k \<noteq> ''source'' \<and> k \<in> set SECTIONS) \<longleftrightarrow> k \<in> set SECTIONS" for k by blast
  then show ?thesis
    by (simp add: splitSettings_def Let_def jor_def obj_entries_def case_prod_unfold)
qed

lemma dwf_index_sorted: "dwf d \<Longrightarrow> dwf (index_sorted d)"
proof -
  have "mset (map fst (index_sorted d)) = mset (map fst d)" by simp
  then show "dwf d \<Longrightarrow> dwf (index_sorted d)" unfolding dwf_def by (metis mset_eq_imp_distinct_iff)
qed

lemma dget_index_sorted: "dwf d \<Longrightarrow> dget (index_sorted d) k = dget d k"
proof -
  assume d: "dwf d"
  have "dget (index_sorted d) k = Some v \<longleftrightarrow> dget d k = Some v" for v
    using dget_mem [OF d] dget_mem [OF dwf_index_sorted [OF d]] dget_Some_mem set_index_sorted by metis
  then show ?thesis by (metis option.exhaust)
qed

lemma dget_filter: "dget (filter (\<lambda>(k, v). P k) d) k = (if P k then dget d k else None)"
  by (induction d) (auto simp: dget_def)

lemma split_get:
  "dwf d \<Longrightarrow> k \<in> set SECTIONS \<Longrightarrow> jget (JObj (fst (splitSettings (JObj d)))) k = jget (JObj d) k"
  by (simp add: split_fst jget_JObj dget_filter dget_index_sorted)

lemma split_keys: "set (obj_keys (JObj (fst (splitSettings (JObj d))))) \<subseteq> set SECTIONS"
  by (auto simp: obj_keys_JObj split_fst)

lemma check_list_Some: "Some e = check_list v nl f \<Longrightarrow> e = nl \<or> (\<exists>x. f x = Some e)"
proof (cases v)
  case (JArr xs)
  assume "Some e = check_list v nl f"
  then have "first_err (map f xs) = Some e" by (simp add: check_list_def JArr)
  then have "Some e \<in> f ` set xs" using first_err_Some_mem by fastforce
  then show ?thesis by force
qed (simp_all add: check_list_def)

lemma validate_NotLive: "validateSettings s = Some (NotLive k) \<Longrightarrow> not_live s = Some (NotLive k)"
  unfolding validateSettings_def Let_def
  by (cases "truthy s \<and> is_objectlike s")
    (force dest!: first_err_Some_mem dest: check_list_Some simp only: list.set insert_iff Some_fail_if settings_problem.distinct
      fail_if_Some simp_thms empty_iff if_True if_False option.inject, simp)

section \<open>Durations\<close>

text \<open>One segment of a duration: digits, an optional fraction, a unit.\<close>

definition numeral_text :: "string \<Rightarrow> bool" where
  "numeral_text t \<longleftrightarrow> t \<noteq> [] \<and> set t \<subseteq> set digits_cs"

definition segment :: "string \<Rightarrow> bool" where
  "segment t \<longleftrightarrow> (\<exists>a f u. t = a @ f @ u \<and> numeral_text a \<and>
     (f = [] \<or> (\<exists>b. f = CHR ''.'' # b \<and> numeral_text b)) \<and> u \<in> set units)"

lemma rlang_Plus_concat: "rlang (Plus r) u \<longleftrightarrow> (\<exists>ws. ws \<noteq> [] \<and> (\<forall>w \<in> set ws. rlang r w) \<and> u = concat ws)"
proof -
  have rep: "rlang (Rep r) u \<Longrightarrow> \<exists>ws. (\<forall>w \<in> set ws. rlang r w) \<and> u = concat ws" for u
  proof (induction "Rep r" u rule: rlang.induct)
    case rep0
    show ?case by (rule exI [of _ "[]"]) simp
  next
    case (rep1 u v w)
    then obtain ws where "(\<forall>w \<in> set ws. rlang r w) \<and> v = concat ws" by blast
    with rep1 show ?case by (intro exI [of _ "u # ws"]) simp
  qed
  have unrep: "(\<forall>w \<in> set ws. rlang r w) \<Longrightarrow> rlang (Rep r) (concat ws)" for ws
    by (induction ws) (auto intro: rlang.intros)
  show ?thesis
  proof
    assume "rlang (Plus r) u"
    then obtain a b where ab: "u = a @ b" "rlang r a" "rlang (Rep r) b" by (auto simp: Plus_def rlang_Cat)
    from rep [OF ab(3)] obtain ws where "(\<forall>w \<in> set ws. rlang r w) \<and> b = concat ws" by blast
    with ab show "\<exists>ws. ws \<noteq> [] \<and> (\<forall>w \<in> set ws. rlang r w) \<and> u = concat ws"
      by (intro exI [of _ "a # ws"]) simp
  next
    assume "\<exists>ws. ws \<noteq> [] \<and> (\<forall>w \<in> set ws. rlang r w) \<and> u = concat ws"
    then obtain w ws where "rlang r w" "\<forall>w \<in> set ws. rlang r w" "u = w @ concat ws"
      by (metis concat.simps(2) list.exhaust list.set_intros)
    then show "rlang (Plus r) u" by (auto simp: Plus_def rlang_Cat intro: unrep)
  qed
qed

lemma rlang_segment:
  "rlang (Cat (Plus digit) (Cat (Opt (Cat (Word ''.'') (Plus digit))) (Alts (map Word units)))) t \<longleftrightarrow> segment t"
  by (auto simp: segment_def rlang_Cat digit_def rlang_Cls_Plus numeral_text_def rlang_Alts simp del: Word.simps)

lemma isDuration_iff:
  "isDuration (JStr t) \<longleftrightarrow> (\<exists>ws. ws \<noteq> [] \<and> (\<forall>w \<in> set ws. segment w) \<and> trim t = concat ws)"
  by (simp only: isDuration_def jval.case rmatch_iff duration_re_def rlang_Plus_concat rlang_segment)

lemma segment_nat: "u \<in> set units \<Longrightarrow> segment (show_nat n @ u)"
  unfolding segment_def numeral_text_def
  by (rule exI [of _ "show_nat n"], rule exI [of _ "[]"], rule exI [of _ u]) (use show_nat_digits [of n] in auto)

lemma trim_id: "s \<noteq> [] \<Longrightarrow> \<not> is_space (hd s) \<Longrightarrow> \<not> is_space (last s) \<Longrightarrow> trim s = s"
proof -
  assume s: "s \<noteq> []" "\<not> is_space (hd s)" "\<not> is_space (last s)"
  then have "dropWhile is_space s = s" by (cases s) auto
  moreover have "dropWhile is_space (rev s) = rev s" using s by (cases "rev s") (auto simp: last_rev [symmetric])
  ultimately show "trim s = s" by (simp add: trim_def)
qed

lemma digit_not_space: "c \<in> set digits_cs \<Longrightarrow> \<not> is_space c"
proof -
  have "\<forall>c \<in> set digits_cs. \<not> is_space c" by code_simp
  then show "c \<in> set digits_cs \<Longrightarrow> \<not> is_space c" by blast
qed

lemma show_nat_hd: "hd (show_nat n) \<in> set digits_cs" and show_nat_last: "last (show_nat n) \<in> set digits_cs"
  using show_nat_digits [of n] by (auto intro: hd_in_set last_in_set)

section \<open>Address ranges\<close>

lemma show_nat_step: "10 \<le> n \<Longrightarrow> show_nat n = show_nat (n div 10) @ [digit_char (n mod 10)]"
  by (subst show_nat.simps) simp

lemma length_show_nat_le: "length (show_nat n) \<le> Suc k \<longleftrightarrow> n < 10 ^ Suc k"
proof (induction k arbitrary: n)
  case 0
  show ?case
  proof (cases "n < 10")
    case False
    then show ?thesis using show_nat_digits [of "n div 10"] by (simp add: show_nat_step)
  qed (simp add: show_nat.simps)
next
  case (Suc k)
  show ?case
  proof (cases "n < 10")
    case True
    then show ?thesis by (auto simp: show_nat.simps intro: less_le_trans [of n 10])
  next
    case False
    have "length (show_nat n) \<le> Suc (Suc k) \<longleftrightarrow> n div 10 < 10 ^ Suc k"
      using False Suc [of "n div 10"] by (simp add: show_nat_step)
    also have "\<dots> \<longleftrightarrow> n < 10 ^ Suc (Suc k)" by (simp add: div_less_iff_less_mult mult.commute)
    finally show ?thesis .
  qed
qed

lemma rlang_Between13_show_nat: "rlang (Between (Suc 0) 3 digit) (show_nat n) \<longleftrightarrow> n < 1000"
proof -
  have "length (show_nat n) \<le> 3 \<longleftrightarrow> n < 1000" using length_show_nat_le [of n 2] by simp
  moreover have "Suc 0 \<le> length (show_nat n)" using show_nat_digits [of n] by (simp add: Suc_le_eq)
  ultimately show ?thesis using show_nat_digits [of n] by (auto simp: digit_def rlang_Cls_Between)
qed

text \<open>The text of an IPv4 range.\<close>

definition quad_text :: "nat \<Rightarrow> nat \<Rightarrow> nat \<Rightarrow> nat \<Rightarrow> string" where
  "quad_text a b c d = join ''.'' [show_nat a, show_nat b, show_nat c, show_nat d]"

lemma show_nat_no: "x \<notin> set digits_cs \<Longrightarrow> x \<notin> set (show_nat n)"
  using show_nat_digits [of n] by auto

lemma special_not_digit: "CHR ''.'' \<notin> set digits_cs" "CHR ''/'' \<notin> set digits_cs" "CHR '':'' \<notin> set digits_cs"
  by (simp_all add: digits_cs_def)

lemma split_quad: "split_on (CHR ''.'') (quad_text a b c d) = [show_nat a, show_nat b, show_nat c, show_nat d]"
  unfolding quad_text_def by (rule split_on_join) (simp_all add: show_nat_no special_not_digit)

lemma quad_no: "x \<notin> set digits_cs \<Longrightarrow> x \<noteq> CHR ''.'' \<Longrightarrow> x \<notin> set (quad_text a b c d)"
  by (simp add: quad_text_def show_nat_no)

lemma quad_shape:
  "a < 1000 \<and> b < 1000 \<and> c < 1000 \<and> d < 1000 \<Longrightarrow> rmatch ipv4_shape_re (quad_text a b c d)"
proof -
  assume "a < 1000 \<and> b < 1000 \<and> c < 1000 \<and> d < 1000"
  then have o: "rlang (Cat (Word ''.'') (Between 1 3 digit)) (''.'' @ show_nat x)" if "x \<in> {b, c, d}" for x
    using that by (auto simp: rlang_Cat rlang_Between13_show_nat simp del: Word.simps)
  have t: "rlang (Times 3 (Cat (Word ''.'') (Between 1 3 digit)))
      ((''.'' @ show_nat b) @ (''.'' @ show_nat c) @ (''.'' @ show_nat d))"
    by (rule rlang_Times3) (rule o, simp)+
  have a: "rlang (Between 1 3 digit) (show_nat a)"
    using \<open>a < 1000 \<and> _\<close> by (simp add: rlang_Between13_show_nat)
  show ?thesis
    unfolding rmatch_iff ipv4_shape_re_def by (rule rlang.cat [OF a t]) (simp add: quad_text_def)
qed

lemma quad_trim: "trim (quad_text a b c d @ ''/'' @ show_nat p) = quad_text a b c d @ ''/'' @ show_nat p"
proof (rule trim_id)
  have "hd (quad_text a b c d @ ''/'' @ show_nat p) = hd (show_nat a)"
    using show_nat_digits [of a] by (simp add: quad_text_def)
  then show "\<not> is_space (hd (quad_text a b c d @ ''/'' @ show_nat p))"
    using show_nat_hd digit_not_space by simp
  have "last (quad_text a b c d @ ''/'' @ show_nat p) = last (show_nat p)"
    using show_nat_digits [of p] by simp
  then show "\<not> is_space (last (quad_text a b c d @ ''/'' @ show_nat p))"
    using show_nat_last digit_not_space by simp
qed simp

lemma quad_split: "split_on (CHR ''/'') (quad_text a b c d @ ''/'' @ show_nat p) = [quad_text a b c d, show_nat p]"
  using split_on_append [of "CHR ''/''" "quad_text a b c d" "show_nat p"]
  by (simp add: quad_no special_not_digit split_on_single show_nat_no)

section \<open>Properties\<close>

text \<open>
  Property C14. A save is accepted exactly when it is a non-null object whose keys are all live
  sections and whose sections are usable: every mandatory section is present, every count and score
  is a whole number in its range, the scan and enumeration capacities are ordered and bounded, every
  duration parses, every armed signal exists and every exempt entry is an address or a range.
\<close>

theorem validate_settings_exact:
  "validateSettings s = None \<longleftrightarrow>
     truthy s \<and> is_objectlike s \<and> set (obj_keys s) \<subseteq> set SECTIONS \<and> sections_usable (jget s)"
  by (cases "truthy s \<and> is_objectlike s") (auto simp: validate_None, auto simp: validateSettings_def)

text \<open>
  Whatever else the gateway publishes beside the editable sections, the part the
  console sends back is judged by its sections alone: saving it unchanged is accepted exactly when
  the published sections are usable, and never refused for carrying a boot-time setting.
\<close>

theorem split_settings_savable:
  assumes "dwf d"
  shows "(validateSettings (JObj (fst (splitSettings (JObj d)))) = None \<longleftrightarrow> sections_usable (jget (JObj d))) \<and>
    validateSettings (JObj (fst (splitSettings (JObj d)))) \<noteq> Some (NotLive k)"
proof
  let ?s = "JObj (fst (splitSettings (JObj d)))"
  have t: "truthy ?s" "is_objectlike ?s" by (simp_all add: is_objectlike_def)
  have "sections_usable (jget ?s) = sections_usable (jget (JObj d))"
    by (rule sections_cong) (simp add: split_get [OF assms])
  then show "validateSettings ?s = None \<longleftrightarrow> sections_usable (jget (JObj d))"
    using split_keys by (simp add: validate_None [OF t])
  have "not_live ?s = None" using split_keys by (simp only: not_live_iff)
  then show "validateSettings ?s \<noteq> Some (NotLive k)"
    using validate_NotLive by (metis option.distinct(1))
qed

text \<open>The hypothesis holds of a blob that publishes a boot-time setting; its editable part is judged alone.\<close>

definition sample_published :: "(string \<times> jval) list" where
  "sample_published = [(''source'', JStr ''console''), (''adaptive_rate_limit'', JObj []), (''throttle'', JObj [])]"

theorem split_settings_savable_witness:
  "dwf sample_published \<and>
   (validateSettings (JObj (fst (splitSettings (JObj sample_published)))) = None
      \<longleftrightarrow> sections_usable (jget (JObj sample_published))) \<and>
   validateSettings (JObj (fst (splitSettings (JObj sample_published)))) \<noteq> Some (NotLive ''adaptive_rate_limit'')"
proof -
  have "dwf sample_published" by (simp add: dwf_def sample_published_def)
  with split_settings_savable [OF this, of "''adaptive_rate_limit''"] show ?thesis by blast
qed

text \<open>
  A duration is accepted exactly when, without surrounding white space, it is a
  non-empty sequence of segments, each a number with an optional fraction and a unit of Go's
  \<open>time.ParseDuration\<close>; in particular every hours-minutes-seconds rendering of
  \<open>Duration.String()\<close> is, and a number without a unit is not.
\<close>

theorem duration_grammar:
  "(isDuration (JStr t) \<longleftrightarrow> (\<exists>ws. ws \<noteq> [] \<and> list_all segment ws \<and> trim t = concat ws)) \<and>
   isDuration (JStr (show_nat h @ ''h'' @ show_nat m @ ''m'' @ show_nat s @ ''s'')) \<and>
   \<not> isDuration (JStr (show_nat n))"
proof (intro conjI)
  let ?t = "show_nat h @ ''h'' @ show_nat m @ ''m'' @ show_nat s @ ''s''"
  have "trim ?t = ?t"
    by (rule trim_id) (use show_nat_digits [of h] show_nat_hd [of h] digit_not_space in \<open>auto simp: is_space_def space_cs_def char_of_def\<close>)
  moreover have "?t = concat [show_nat h @ ''h'', show_nat m @ ''m'', show_nat s @ ''s'']" by simp
  moreover have "\<forall>w \<in> set [show_nat h @ ''h'', show_nat m @ ''m'', show_nat s @ ''s'']. segment w"
    using segment_nat [of "''h''" h] segment_nat [of "''m''" m] segment_nat [of "''s''" s] by (simp add: units_def)
  ultimately show "isDuration (JStr ?t)" unfolding isDuration_iff by (metis list.distinct(1))
  have "trim (show_nat n) = show_nat n"
    by (rule trim_id) (use show_nat_digits [of n] show_nat_hd [of n] show_nat_last [of n] digit_not_space in auto)
  moreover have "\<not> (\<exists>ws. ws \<noteq> [] \<and> (\<forall>w \<in> set ws. segment w) \<and> show_nat n = concat ws)"
  proof
    assume "\<exists>ws. ws \<noteq> [] \<and> (\<forall>w \<in> set ws. segment w) \<and> show_nat n = concat ws"
    then obtain w ws where "segment w" and e: "show_nat n = concat (w # ws)"
      by (metis list.exhaust list.set_intros(1))
    then obtain a f u where "w = a @ f @ u" "u \<in> set units" by (auto simp: segment_def)
    then have "set u \<subseteq> set digits_cs" using show_nat_digits [of n] e by auto
    with \<open>u \<in> set units\<close> show False by (auto simp: units_def digits_cs_def)
  qed
  ultimately show "\<not> isDuration (JStr (show_nat n))" unfolding isDuration_iff by simp
qed (simp add: isDuration_iff list_all_iff)

text \<open>
  A dotted quad with a prefix length is accepted as an exempt range exactly when each
  of the four numbers is at most 255 and the prefix length is at most 32.
\<close>

theorem cidr_quad_exact:
  "isCidrOrAddress (JStr (quad_text a b c d @ ''/'' @ show_nat p)) \<longleftrightarrow>
     a \<le> 255 \<and> b \<le> 255 \<and> c \<le> 255 \<and> d \<le> 255 \<and> p \<le> 32"
proof -
  have nocolon: "CHR '':'' \<notin> set (quad_text a b c d)" by (rule quad_no) (simp_all add: special_not_digit)
  have shape: "rmatch ipv4_shape_re (quad_text a b c d)"
    if "a \<le> 255 \<and> b \<le> 255 \<and> c \<le> 255 \<and> d \<le> 255"
    using that by (intro quad_shape) auto
  have bits: "rmatch bits_re (show_nat p) \<longleftrightarrow> p < 1000"
    by (simp add: rmatch_iff bits_re_def rlang_Between13_show_nat)
  show ?thesis
    using shape by (auto simp: isCidrOrAddress_def quad_trim quad_split Let_def nocolon split_quad bits
        simp del: append_Cons)
qed

end
