(* ===== verification/Plane.thy ===== *)
theory Plane
  imports Stores
begin

text \<open>
  The console's readers of what the decision engine writes to Redis: \<open>lib/plane.js\<close>. \<open>parse\<close> is
  \<open>JSON.parse\<close> (\<open>None\<close>: it threw) and \<open>time_of\<close> the reading of a date; both are arguments. The
  policies of one address become one row of the console; the lemmas say that nothing is lost or
  doubled on the way and that the row shows the strongest action and the first expiry.
\<close>

definition CAMPAIGN_PREFIX :: string where "CAMPAIGN_PREFIX = ''campaign:''"
definition POLICY_PREFIX :: string where "POLICY_PREFIX = ''policy:''"
definition FEEDBACK_PREFIX :: string where "FEEDBACK_PREFIX = ''feedback:''"
definition ALERT_STREAM :: string where "ALERT_STREAM = ''iasg_alerts''"

definition HEARTBEAT_KEY :: "env \<Rightarrow> string" where
  "HEARTBEAT_KEY env = env_or env ''IASG_HEARTBEAT_KEY'' ''iasg:heartbeat''"

definition COUNTER_KEY :: string where
  "COUNTER_KEY = CAMPAIGN_PREFIX @ ''next_id''"

text \<open>The answer of \<open>RScan\<close> is the list of steps of the iterator: a key, or a batch of keys.\<close>

definition step_keys :: "jval \<Rightarrow> string list" where
  "step_keys v = (case v of JArr ks \<Rightarrow> map text_of ks | _ \<Rightarrow> [text_of v])"

definition scanKeys :: "string \<Rightarrow> string list svc" where
  "scanKeys pattern = next_do (await (RScan pattern)) (\<lambda>v. next_do (of_sum (items v)) (\<lambda>ss. ok (concat (map step_keys ss))))"

definition parseJson :: "(string \<Rightarrow> jval option) \<Rightarrow> jval \<Rightarrow> jval" where
  "parseJson parse raw = (if \<not> truthy raw then JNull else case parse (text_of raw) of None \<Rightarrow> JNull | Some v \<Rightarrow> v)"

definition mGet :: "string list \<Rightarrow> jval list svc" where
  "mGet keys = next_do (await (RMGet keys)) (\<lambda>v. of_sum (items v))"

text \<open>\<open>v || d\<close> for a text, and \<open>Number(v || 0)\<close>.\<close>

definition text_or :: "jval \<Rightarrow> string \<Rightarrow> jval" where
  "text_or v d = jor v (JStr d)"

definition count_of :: "jval \<Rightarrow> jnum" where
  "count_of v = to_num (jor v (jint 0))"

text \<open>\<open>(a, b) => b - a\<close> on numbers: \<open>a\<close> may stay first unless the difference is positive; a
  difference that is not a number counts as none.\<close>

definition num_desc :: "jnum \<Rightarrow> jnum \<Rightarrow> bool" where
  "num_desc a b \<longleftrightarrow> a = NaN \<or> b = NaN \<or> nle b a"

section \<open>Campaigns\<close>

definition campaign_row :: "jval \<Rightarrow> jval" where
  "campaign_row c = JObj
    [(''id'', text_or (jget c ''campaign_id'') []), (''type'', text_or (jget c ''type'') ''Unclassified Activity''),
     (''severity'', text_or (jget c ''severity'') ''low''), (''confidence'', JNum (count_of (jget c ''confidence''))),
     (''status'', text_or (jget c ''status'') ''active''), (''ips'', jor (jget c ''ips'') (JArr [])),
     (''events'', JNum (count_of (jget c ''event_count''))), (''reason'', text_or (jget c ''reason'') []),
     (''stages'', jor (jget c ''stages'') (JArr [])), (''rotations'', JNum (count_of (jget c ''rotations''))),
     (''persistence'', JNum (count_of (jget c ''persistence''))), (''quietCycles'', JNum (count_of (jget c ''quiet_cycles''))),
     (''lastAction'', text_or (jget c ''last_action'') []), (''outcome'', text_or (jget c ''outcome'') []),
     (''explanation'', text_or (jget c ''explanation'') []), (''assessment'', text_or (jget c ''assessment'') []),
     (''firstSeen'', jor (jget c ''first_seen'') JNull), (''lastSeen'', jor (jget c ''last_seen'') JNull)]"

definition row_status :: "jval \<Rightarrow> jval" where
  "row_status r = jget r ''status''"

definition row_confidence :: "jval \<Rightarrow> jnum" where
  "row_confidence r = to_num (jget r ''confidence'')"

definition campaign_before :: "jval \<Rightarrow> jval \<Rightarrow> bool" where
  "campaign_before a b = (if row_status a \<noteq> row_status b then row_status a = JStr ''active''
     else num_desc (row_confidence a) (row_confidence b))"

definition campaign_rows :: "(string \<Rightarrow> jval option) \<Rightarrow> jval list \<Rightarrow> jval list" where
  "campaign_rows parse values = js_sort campaign_before (map campaign_row (filter truthy (map (parseJson parse) values)))"

definition readCampaigns :: "(string \<Rightarrow> jval option) \<Rightarrow> jval list svc" where
  "readCampaigns parse = next_do (scanKeys (CAMPAIGN_PREFIX @ ''*'')) (\<lambda>found.
     let keys = filter (\<lambda>k. k \<noteq> COUNTER_KEY) found in
     if keys = [] then ok [] else next_do (mGet keys) (\<lambda>values. ok (campaign_rows parse values)))"

section \<open>Policies\<close>

record policy =
  pl_key :: string
  pl_id :: jval
  pl_ip :: jval
  pl_scope :: jval
  pl_method :: jval
  pl_route :: jval
  pl_action :: jval
  pl_campaign :: jval
  pl_confidence :: jnum
  pl_risk :: jnum
  pl_reason :: jval
  pl_source :: jval
  pl_issued_at :: jval
  pl_issued_by :: jval
  pl_mode :: jval
  pl_baseline_version :: jval
  pl_config_version :: jnum
  pl_explanation :: jval
  pl_expires :: jnum

record policy_row = policy +
  pr_ids :: "jval list"
  pr_count :: nat
  pr_scopes :: "string list"

definition key_address :: "string \<Rightarrow> string" where
  "key_address key = hd (split_on (CHR '':'') (drop (length POLICY_PREFIX) key))"

definition policy_of :: "string \<Rightarrow> jval \<Rightarrow> jval \<Rightarrow> policy" where
  "policy_of key d ttl = (let scope = jget d ''endpoint_scope'' in
     \<lparr>pl_key = key, pl_id = text_or (jget d ''policy_id'') key, pl_ip = text_or (jget d ''target_identity'') (key_address key),
      pl_scope = text_or (jget d ''scope'') ''client'',
      pl_method = jor (jget scope ''method'') (text_or (jget d ''method'') []),
      pl_route = jor (jget scope ''route_template'') (text_or (jget d ''route'') []),
      pl_action = text_or (jget d ''action'') [], pl_campaign = text_or (jget d ''campaign_id'') [],
      pl_confidence = count_of (jget d ''confidence''), pl_risk = count_of (jget d ''risk_score''),
      pl_reason = text_or (jget d ''reason'') [], pl_source = text_or (jget d ''source'') ''agent'',
      pl_issued_at = jor (jget d ''issued_at'') JNull, pl_issued_by = text_or (jget d ''issued_by'') ''decision-engine'',
      pl_mode = text_or (jget d ''mode'') ''automatic'', pl_baseline_version = text_or (jget d ''baseline_version'') [],
      pl_config_version = count_of (jget d ''config_version''), pl_explanation = jor (jget d ''explanation'') (JObj []),
      pl_expires = to_num (jcoalesce ttl (jint (- 1)))\<rparr>)"

definition ACTION_PRIORITY :: "(string \<times> nat) list" where
  "ACTION_PRIORITY = [(''monitor'', 0), (''allow'', 0), (''throttle'', 1), (''temp_block'', 2),
     (''temporary_block'', 2), (''block'', 2), (''escalate'', 3)]"

definition priority :: "policy \<Rightarrow> nat" where
  "priority p = (case dget ACTION_PRIORITY (to_str (pl_action p)) of Some n \<Rightarrow> n | None \<Rightarrow> 0)"

definition scopeLabel :: "policy \<Rightarrow> string" where
  "scopeLabel p = (if \<not> truthy (pl_method p) \<and> \<not> truthy (pl_route p) then ''All routes''
     else to_str (pl_method p) @ '' '' @ to_str (pl_route p))"

definition stronger :: "policy \<Rightarrow> policy \<Rightarrow> bool" where
  "stronger a b = (if priority a \<noteq> priority b then priority b < priority a
     else num_desc (pl_confidence a) (pl_confidence b))"

definition nmins :: "jnum list \<Rightarrow> jnum" where
  "nmins xs = foldr nmin xs PInf"

definition merge_group :: "policy list \<Rightarrow> policy_row" where
  "merge_group g = (let primary = hd (js_sort stronger g) in
     policy.extend (primary\<lparr>pl_expires := nmins (map pl_expires g)\<rparr>)
       (policy_row.fields (map pl_id g) (length g) (uniq (map scopeLabel g))))"

definition coalescePolicies :: "policy list \<Rightarrow> policy_row list" where
  "coalescePolicies ps = js_sort (\<lambda>a b. num_desc (pl_confidence a) (pl_confidence b))
     (map (\<lambda>(ip, g). merge_group g) (group_by pl_ip ps))"

text \<open>\<open>Promise.all(keys.map((key) => redis.ttl(key)))\<close>, started together with the values.\<close>

fun ask_ttls :: "string list \<Rightarrow> reply list \<Rightarrow> (reply list \<Rightarrow> 'a svc) \<Rightarrow> 'a svc" where
  "ask_ttls [] got k = k (rev got)"
| "ask_ttls (key # keys) got k = Ask (RTtl key) (\<lambda>r. ask_ttls keys (r # got) k)"

fun replies_ok :: "reply list \<Rightarrow> jserr + jval list" where
  "replies_ok [] = Inr []"
| "replies_ok (Inl e # rs) = Inl e"
| "replies_ok (Inr v # rs) = sbind (replies_ok rs) (\<lambda>vs. Inr (v # vs))"

definition nth_or_undef :: "jval list \<Rightarrow> nat \<Rightarrow> jval" where
  "nth_or_undef xs i = (if i < length xs then xs ! i else JUndef)"

definition policies_of :: "(string \<Rightarrow> jval option) \<Rightarrow> string list \<Rightarrow> jval list \<Rightarrow> jval list \<Rightarrow> policy list" where
  "policies_of parse keys values ttls = concat (map (\<lambda>i.
     let d = parseJson parse (nth_or_undef values i) in
     if truthy d then [policy_of (keys ! i) d (nth_or_undef ttls i)] else []) [0..<length keys])"

definition readPolicies :: "(string \<Rightarrow> jval option) \<Rightarrow> policy_row list svc" where
  "readPolicies parse = next_do (scanKeys (POLICY_PREFIX @ ''*'')) (\<lambda>keys.
     if keys = [] then ok [] else
     Ask (RMGet keys) (\<lambda>values. ask_ttls keys [] (\<lambda>ttls.
       next_do (of_sum (sbind values items)) (\<lambda>vs.
       next_do (of_sum (replies_ok ttls)) (\<lambda>ts. ok (coalescePolicies (policies_of parse keys vs ts)))))))"

definition readPolicyFor :: "(string \<Rightarrow> jval option) \<Rightarrow> string \<Rightarrow> policy_row option svc" where
  "readPolicyFor parse ip = next_do (readPolicies parse) (\<lambda>rows. ok (find (\<lambda>r. pl_ip r = JStr ip) rows))"

section \<open>Alerts, feedback and the heartbeat\<close>

definition alert_row :: "jval \<Rightarrow> jserr + jval" where
  "alert_row entry = sbind (dot entry ''message'') (\<lambda>msg. if nullish msg then Inl TypeError else Inr (JObj
    [(''id'', jget entry ''id''), (''campaignId'', text_or (jget msg ''campaign_id'') []), (''type'', text_or (jget msg ''type'') []),
     (''severity'', text_or (jget msg ''severity'') []), (''confidence'', JNum (count_of (jget msg ''confidence''))),
     (''ipCount'', JNum (count_of (jget msg ''ip_count''))), (''action'', text_or (jget msg ''action'') []),
     (''explanation'', text_or (jget msg ''explanation'') []), (''lastSeen'', jor (jget msg ''last_seen'') JNull)]))"

fun sum_map :: "('b \<Rightarrow> 'e + 'a) \<Rightarrow> 'b list \<Rightarrow> 'e + 'a list" where
  "sum_map f [] = Inr []"
| "sum_map f (x # xs) = sbind (f x) (\<lambda>a. sbind (sum_map f xs) (\<lambda>as. Inr (a # as)))"

definition readAlerts :: "jval list svc" where
  "readAlerts = try_catch
     (next_do (await (RXRevRange ALERT_STREAM ''+'' (jint 20))) (\<lambda>entries.
      next_do (of_sum (items (jor entries (JArr [])))) (\<lambda>xs. of_sum (sum_map alert_row xs))))
     (\<lambda>e. ok [])"

record learned =
  ln_type :: string
  ln_up :: jnum
  ln_down :: jnum
  ln_net :: jnum

definition learned_of :: "string \<Rightarrow> jval \<Rightarrow> learned list" where
  "learned_of key t = (if \<not> truthy t then [] else
     let up = count_of (jget t ''up''); down = count_of (jget t ''down'') in
     if \<not> truthy (JNum up) \<and> \<not> truthy (JNum down) then []
     else [\<lparr>ln_type = drop (length FEEDBACK_PREFIX) key, ln_up = up, ln_down = down, ln_net = nsub up down\<rparr>])"

definition learned_rows :: "(string \<Rightarrow> jval option) \<Rightarrow> string list \<Rightarrow> jval list \<Rightarrow> learned list" where
  "learned_rows parse keys values = js_sort (\<lambda>a b. num_desc (nabs (ln_net a)) (nabs (ln_net b)))
     (concat (map (\<lambda>i. learned_of (keys ! i) (parseJson parse (nth_or_undef values i))) [0..<length keys]))"

definition readLearned :: "(string \<Rightarrow> jval option) \<Rightarrow> learned list svc" where
  "readLearned parse = next_do (scanKeys (FEEDBACK_PREFIX @ ''*'')) (\<lambda>keys.
     if keys = [] then ok [] else next_do (mGet keys) (\<lambda>values. ok (learned_rows parse keys values)))"

definition heartbeat_body :: "jval \<Rightarrow> jnum \<Rightarrow> jnum \<Rightarrow> (string \<times> jval) list" where
  "heartbeat_body beat now beat_at =
     (let secondsAgo = nmax (Fin 0) (nround (ndiv (nsub now beat_at) (Fin 1000)));
          interval = to_num (jor (jget beat ''interval_seconds'') (jint 30))
      in [(''alive'', JBool True), (''at'', jget beat ''at''), (''secondsAgo'', JNum secondsAgo), (''intervalSeconds'', JNum interval),
          (''late'', JBool (nlt (nmul interval (Fin 2)) secondsAgo)), (''durable'', JBool (truthy (jget beat ''durable''))),
          (''dryRun'', JBool (truthy (jget beat ''dry_run''))), (''mode'', text_or (jget beat ''mode'') ''unknown''),
          (''configVersion'', JNum (count_of (jget beat ''config_version''))),
          (''narrationProvider'', text_or (jget beat ''narration_provider'') ''null''),
          (''lastCycle'', JObj [(''evidence'', JNum (count_of (jget beat ''evidence''))), (''campaigns'', JNum (count_of (jget beat ''campaigns''))),
             (''policiesWritten'', JNum (count_of (jget beat ''policies_written'')))])])"

definition readHeartbeat :: "env \<Rightarrow> (string \<Rightarrow> jval option) \<Rightarrow> (jval \<Rightarrow> jnum) \<Rightarrow> (string \<times> jval) list svc" where
  "readHeartbeat env parse time_of = next_do (await (RGet (HEARTBEAT_KEY env))) (\<lambda>raw.
     let beat = parseJson parse raw in
     if \<not> truthy (jget beat ''at'') then ok [(''alive'', JBool False)]
     else next_do (await Now) (\<lambda>now. ok (heartbeat_body beat (to_num now) (time_of (jget beat ''at'')))))"

section \<open>Lemmas\<close>

lemma num_desc_total: "num_desc a b \<or> num_desc b a"
  using nle_total [of a b] by (auto simp: num_desc_def)

lemma num_desc_trans: "b \<noteq> NaN \<Longrightarrow> num_desc a b \<Longrightarrow> num_desc b c \<Longrightarrow> num_desc a c"
  using nle_trans [of c b a] by (auto simp: num_desc_def)

interpretation strength: preference stronger "\<lambda>p. pl_confidence p \<noteq> NaN"
proof (unfold_locales, goal_cases)
  case (1 a b)
  then show ?case using num_desc_total [of "pl_confidence a" "pl_confidence b"] by (auto simp: stronger_def)
next
  case (2 a b c)
  then show ?case
    using num_desc_trans [of "pl_confidence b" "pl_confidence a" "pl_confidence c"]
    by (auto simp: stronger_def split: if_splits)
qed

definition live_status :: "jval \<Rightarrow> bool" where
  "live_status r \<longleftrightarrow> (row_status r = JStr ''active'' \<or> row_status r = JStr ''contained'') \<and> row_confidence r \<noteq> NaN"

interpretation campaign_order: preference campaign_before live_status
proof (unfold_locales, goal_cases)
  case (1 a b)
  then show ?case using num_desc_total [of "row_confidence a" "row_confidence b"]
    by (auto simp: campaign_before_def live_status_def)
next
  case (2 a b c)
  have "JStr ''active'' \<noteq> JStr ''contained''" by simp
  with 2 show ?case
    using num_desc_trans [of "row_confidence b" "row_confidence a" "row_confidence c"]
    unfolding campaign_before_def live_status_def by metis
qed

lemma nmins_le: "x \<in> set xs \<Longrightarrow> list_all (\<lambda>y. y \<noteq> NaN) xs \<Longrightarrow> nmins xs \<noteq> NaN \<and> nle (nmins xs) x"
proof (induction xs arbitrary: x)
  case (Cons y ys)
  have ys: "nmins ys \<noteq> NaN"
  proof (cases ys)
    case (Cons z zs)
    with Cons.IH [of z] Cons.prems show ?thesis by simp
  qed (simp add: nmins_def)
  then have m: "nmin y (nmins ys) \<noteq> NaN" "nle (nmin y (nmins ys)) y \<and> nle (nmin y (nmins ys)) (nmins ys)"
    using nmin_nle1 [of y "nmins ys"] Cons.prems by (auto simp: nmin_def)
  have e: "nmins (y # ys) = nmin y (nmins ys)" by (simp add: nmins_def)
  show ?case
  proof (cases "x = y")
    case False
    then show ?thesis unfolding e using m Cons.IH [of x] Cons.prems nle_trans [of _ "nmins ys" x] by auto
  qed (use m e in simp)
qed simp

lemma js_sort_hd_mem: "g \<noteq> [] \<Longrightarrow> hd (js_sort before g) \<in> set g"
  by (metis hd_in_set js_sort_eq_Nil set_js_sort)

lemma merge_group_fields:
  "pl_ip (merge_group g) = pl_ip (hd (js_sort stronger g))" "pr_count (merge_group g) = length g"
  "pr_ids (merge_group g) = map pl_id g" "pr_scopes (merge_group g) = uniq (map scopeLabel g)"
  "pl_expires (merge_group g) = nmins (map pl_expires g)" "pl_action (merge_group g) = pl_action (hd (js_sort stronger g))"
  "pl_confidence (merge_group g) = pl_confidence (hd (js_sort stronger g))"
  by (simp_all add: merge_group_def Let_def policy.defs policy_row.defs)

lemma group_ip: "(ip, g) \<in> set (group_by pl_ip ps) \<Longrightarrow> pl_ip (merge_group g) = ip"
  using js_sort_hd_mem [of g stronger] by (auto simp: merge_group_fields group_by_mem_iff)

definition action_rank :: "jval \<Rightarrow> nat" where
  "action_rank a = (case dget ACTION_PRIORITY (to_str a) of Some n \<Rightarrow> n | None \<Rightarrow> 0)"

text \<open>What a row says about the policies of its address.\<close>

definition row_of_group :: "policy list \<Rightarrow> policy_row \<Rightarrow> bool" where
  "row_of_group g r \<longleftrightarrow> g \<noteq> [] \<and> pr_count r = length g \<and> pr_ids r = map pl_id g \<and>
     distinct (pr_scopes r) \<and> set (pr_scopes r) = scopeLabel ` set g \<and>
     (\<exists>p \<in> set g. pl_action p = pl_action r \<and> pl_confidence p = pl_confidence r) \<and>
     (\<forall>p \<in> set g. action_rank (pl_action p) \<le> action_rank (pl_action r) \<and>
        (action_rank (pl_action p) = action_rank (pl_action r) \<longrightarrow> nle (pl_confidence p) (pl_confidence r)) \<and>
        nle (pl_expires r) (pl_expires p))"

lemma merge_row:
  assumes "g \<noteq> []" "\<forall>p \<in> set g. pl_confidence p \<noteq> NaN \<and> pl_expires p \<noteq> NaN"
  shows "row_of_group g (merge_group g)"
proof -
  let ?h = "hd (js_sort stronger g)"
  have h: "?h \<in> set g" by (rule js_sort_hd_mem [OF assms(1)])
  have s: "stronger ?h p" if "p \<in> set g" for p using assms(2) that by (intro strength.js_sort_hd) auto
  have pr: "priority p = action_rank (pl_action p)" for p by (simp add: priority_def action_rank_def)
  have "action_rank (pl_action p) \<le> action_rank (pl_action ?h) \<and>
      (action_rank (pl_action p) = action_rank (pl_action ?h) \<longrightarrow> nle (pl_confidence p) (pl_confidence ?h)) \<and>
      nle (nmins (map pl_expires g)) (pl_expires p)" if p: "p \<in> set g" for p
    using s [OF p] assms(2) p h nmins_le [of "pl_expires p" "map pl_expires g"]
    by (auto simp: stronger_def pr num_desc_def list_all_iff split: if_splits)
  then show ?thesis unfolding row_of_group_def merge_group_fields using assms(1) h by auto
qed


definition sample_policy :: "string \<Rightarrow> string \<Rightarrow> jval" where
  "sample_policy action path = JObj [(''policy_id'', JStr (action @ path)), (''target_identity'', JStr ''203.0.113.9''),
     (''action'', JStr action), (''confidence'', jint 1), (''endpoint_scope'', JObj [(''method'', JStr ''GET''), (''route_template'', JStr path)])]"

definition sample_policies :: "policy list" where
  "sample_policies = [policy_of ''policy:a'' (sample_policy ''throttle'' ''/login'') (jint 600),
     policy_of ''policy:b'' (sample_policy ''temp_block'' ''/orders'') (jint 90)]"


text \<open>Campaigns are listed active ones first and the surest first among equals, each
  campaign Redis holds exactly once, in every case where the engine's two states and a numeric
  confidence were stored.\<close>

theorem campaigns_active_first:
  assumes "list_all live_status (campaign_rows parse values)"
  shows "sorted_wrt (\<lambda>a b. (row_status b = JStr ''active'' \<longrightarrow> row_status a = JStr ''active'') \<and>
      (row_status a = row_status b \<longrightarrow> nle (row_confidence b) (row_confidence a))) (campaign_rows parse values) \<and>
    mset (campaign_rows parse values) = mset (map campaign_row (filter truthy (map (parseJson parse) values)))"
proof -
  let ?rows = "map campaign_row (filter truthy (map (parseJson parse) values))"
  have m: "mset (campaign_rows parse values) = mset ?rows" by (simp only: campaign_rows_def mset_js_sort)
  have l: "\<forall>r \<in> set (campaign_rows parse values). live_status r" using assms by (simp add: list_all_iff)
  then have "\<forall>r \<in> set ?rows. live_status r" unfolding mset_eq_setD [OF m] .
  then have "sorted_wrt campaign_before (campaign_rows parse values)"
    unfolding campaign_rows_def by (rule campaign_order.js_sort_sorted)
  then have "sorted_wrt (\<lambda>a b. (row_status b = JStr ''active'' \<longrightarrow> row_status a = JStr ''active'') \<and>
      (row_status a = row_status b \<longrightarrow> nle (row_confidence b) (row_confidence a))) (campaign_rows parse values)"
    by (rule sorted_wrt_mono_rel [rotated])
      (use l in \<open>auto simp: campaign_before_def num_desc_def live_status_def split: if_splits\<close>)
  with m show ?thesis by simp
qed

definition sample_parse :: "string \<Rightarrow> jval option" where
  "sample_parse t = (if t = ''bad'' then None else Some (JObj [(''campaign_id'', JStr t), (''confidence'', jint 1),
     (''status'', JStr (if t = ''old'' then ''contained'' else ''active''))]))"

theorem campaigns_active_first_witness:
  "list_all live_status (campaign_rows sample_parse [JStr ''old'', JStr ''bad'', JStr ''new'']) \<and>
   map (\<lambda>r. jget r ''id'') (campaign_rows sample_parse [JStr ''old'', JStr ''bad'', JStr ''new'']) = [JStr ''new'', JStr ''old''] \<and>
   sorted_wrt (\<lambda>a b. (row_status b = JStr ''active'' \<longrightarrow> row_status a = JStr ''active'') \<and>
      (row_status a = row_status b \<longrightarrow> nle (row_confidence b) (row_confidence a)))
     (campaign_rows sample_parse [JStr ''old'', JStr ''bad'', JStr ''new''])"
proof -
  have l: "list_all live_status (campaign_rows sample_parse [JStr ''old'', JStr ''bad'', JStr ''new''])" by code_simp
  have i: "map (\<lambda>r. jget r ''id'') (campaign_rows sample_parse [JStr ''old'', JStr ''bad'', JStr ''new'']) = [JStr ''new'', JStr ''old'']"
    by code_simp
  show ?thesis using campaigns_active_first [OF l] l i by blast
qed

end
