(* ===== verification/RoutesAdmin.thy ===== *)
theory RoutesAdmin
  imports GatewaySettings Plane
begin

text \<open>
  The administrative routes: \<open>api/settings\<close>, \<open>api/admin/reset\<close>, \<open>api/admin/clear-campaigns\<close> and
  \<open>api/health\<close>. A handler is a program that returns a status and a JSON body; a body that is not JSON
  is \<open>None\<close>. \<open>JSON.stringify\<close> is the argument \<open>stringify\<close>. In messages the dash U+2014 is written
  as two hyphens. \<open>Promise.all\<close> of the two stores is \<open>both\<close>: they are different services, so only the
  order of the commands to each of them matters.
\<close>

section \<open>api/settings\<close>

definition OVERRIDE_KEY :: string where "OVERRIDE_KEY = ''iasg:settings''"
definition EFFECTIVE_KEY :: string where "EFFECTIVE_KEY = ''iasg:settings:effective''"

definition not_duration :: "(jval \<Rightarrow> string) \<Rightarrow> string \<Rightarrow> jval \<Rightarrow> string \<Rightarrow> string" where
  "not_duration stringify name v eg = name @ '': '' @ stringify v @ '' is not a duration like '' @ eg"

definition settings_message :: "(jval \<Rightarrow> string) \<Rightarrow> settings_problem \<Rightarrow> string" where
  "settings_message stringify p = (case p of
     ExpectedObject \<Rightarrow> ''expected a settings object''
   | NotLive key \<Rightarrow> key @ '' cannot be changed while the gateway is running -- it is set in the config file''
   | MissingSections ms \<Rightarrow> ''send the whole settings block -- missing '' @ join '', '' ms
   | BadRateLimit \<Rightarrow> ''rate_limit.requests_per_minute must be a whole number of at least 1''
   | BadMaxFailures \<Rightarrow> ''brute_force.max_failures must be a whole number of at least 1''
   | BadDuration name v \<Rightarrow> not_duration stringify name v
       (if name = ''brute_force.window'' \<or> name = ''block.duration'' then ''\"60s\" or \"5m\"'' else ''\"5m\"'')
   | BadScanLimits \<Rightarrow> ''unknown_route_scanning limits must keep distinct paths within bounded client and path capacity''
   | BadObjectLimits \<Rightarrow> ''object_enumeration limits must keep distinct ids within bounded client and id capacity''
   | BadOnUnverifiable \<Rightarrow> ''object_ownership.on_unverifiable must be deny or allow''
   | BadMaxBody \<Rightarrow> ''object_ownership.max_body_bytes must be a whole number between 1KB and 16MB''
   | BadMinScore \<Rightarrow> ''block.min_score must be a whole number between 0 and 100''
   | BadReputationScore \<Rightarrow> ''ip_reputation.score must be a whole number between 0 and 100''
   | BadDelay \<Rightarrow> ''throttle.delay_ms must be a whole number of milliseconds''
   | SignalsNotList \<Rightarrow> ''block.signals must be a list''
   | UnknownSignal n \<Rightarrow> ''block.signals: no detector is called '' @ stringify n @ '' -- it would arm nothing''
   | ExemptNotList \<Rightarrow> ''block.exempt_cidrs must be a list''
   | BadExempt e \<Rightarrow> ''block.exempt_cidrs: '' @ stringify e @ '' is not an address or CIDR range'')"

text \<open>\<open>connect()\<close>: the response to give when Redis is unavailable.\<close>

definition connect :: "http option svc" where
  "connect = try_catch (next_do (await RConnect) (\<lambda>_. ok None))
     (\<lambda>e. ok (Some (refuse 503 (''redis unavailable: '' @ err_message e))))"

definition connected_do :: "http svc \<Rightarrow> http svc" where
  "connected_do p = next_do connect (\<lambda>u. case u of Some r \<Rightarrow> ok r | None \<Rightarrow> p)"

definition settings_GET :: "(string \<Rightarrow> jval option) \<Rightarrow> http svc" where
  "settings_GET parse = gated (requireRole ''admin'') (connected_do
     (next_do (both (await (RGet EFFECTIVE_KEY)) (await (RGet OVERRIDE_KEY))) (\<lambda>(effectiveRaw, overrideRaw).
        if \<not> truthy effectiveRaw then
          ok (json_status 503 [(''ok'', JBool False), (''error'', JStr (''the gateway has not published its settings -- '' @
               ''it may be stopped, or built before live settings existed'')), (''overridePresent'', JBool (truthy overrideRaw))])
        else let effective = parseJson parse effectiveRaw in
          if \<not> truthy effective then ok (refuse 502 ''the gateway published settings that will not parse'')
          else (case splitSettings effective of (settings, readOnly, source) \<Rightarrow>
            ok (json [(''ok'', JBool True), (''settings'', JObj settings), (''readOnly'', JObj readOnly), (''source'', source)])))))"

definition settings_POST :: "(jval \<Rightarrow> string) \<Rightarrow> jval option \<Rightarrow> http svc" where
  "settings_POST stringify body = gated (requireRole ''admin'')
     (case body of None \<Rightarrow> ok (refuse 400 ''expected a JSON body'')
      | Some b \<Rightarrow> next_do (of_sum (dot b ''confirm'')) (\<lambda>c.
          if c \<noteq> JStr ''apply'' then ok (refuse 400 ''type \"apply\" to confirm'')
          else let settings = jget b ''settings'' in
          (case validateSettings settings of Some p \<Rightarrow> ok (refuse 400 (settings_message stringify p))
           | None \<Rightarrow> connected_do (next_do (await (RSet OVERRIDE_KEY (stringify settings))) (\<lambda>_.
               ok (json [(''ok'', JBool True), (''stored'', JBool True)]))))))"

definition settings_DELETE :: "http svc" where
  "settings_DELETE = gated (requireRole ''admin'') (connected_do
     (next_do (await (RDel [OVERRIDE_KEY])) (\<lambda>removed.
        ok (json [(''ok'', JBool True), (''reverted'', JBool (jlt (jint 0) removed))]))))"

section \<open>api/health\<close>

definition health_GET :: "http svc" where
  "health_GET = try_catch
     (next_do (await RConnect) (\<lambda>_. next_do (await RPing) (\<lambda>_.
        ok (json [(''status'', JStr ''ok''), (''redis'', JBool True)]))))
     (\<lambda>e. ok (json_status 503 [(''status'', JStr ''degraded''), (''redis'', JBool False)]))"

section \<open>api/admin/reset\<close>

definition RESET_TABLES :: "string list" where
  "RESET_TABLES = [''policy_audit'', ''policy_recommendations'', ''endpoint_baselines'', ''campaigns'', ''feedback'']"

definition OVERRIDE_STREAM :: "env \<Rightarrow> string" where
  "OVERRIDE_STREAM env = env_or env ''IASG_OVERRIDE_STREAM'' ''iasg_overrides''"

definition REDIS_STREAMS :: "env \<Rightarrow> string list" where
  "REDIS_STREAMS env = [''iasg:events'', ''iasg:arrivals'', ''iasg:telemetry:health'', OVERRIDE_STREAM env, ''iasg_alerts'']"

definition REDIS_KEYS :: "string list" where
  "REDIS_KEYS = [''iasg:stats'', ''iasg:attackers'']"

definition RESET_WATERMARK_KEY :: "env \<Rightarrow> string" where
  "RESET_WATERMARK_KEY env = env_or env ''IASG_RESET_WATERMARK_KEY'' ''iasg:reset_at''"

definition REDIS_PATTERNS :: "string list" where
  "REDIS_PATTERNS = [''campaign:*'', ''feedback:*'', ''iasg:ip:*'']"

definition set_watermark :: "env \<Rightarrow> unit svc" where
  "set_watermark env = next_do (await Now) (\<lambda>now. discard (await (RSet (RESET_WATERMARK_KEY env) (to_str now))))"

definition scan_all :: "string list \<Rightarrow> string list svc" where
  "scan_all patterns = next_do (each scanKeys patterns) (\<lambda>kss. ok (concat kss))"

definition delete_keys :: "string list \<Rightarrow> jval svc" where
  "delete_keys keys = (if keys = [] then ok (jint 0) else await (RDel keys))"

definition reset_failed :: "string \<Rightarrow> jval" where
  "reset_failed reason = JObj [(''ok'', JBool False), (''reason'', JStr reason)]"

definition clearRedis :: "env \<Rightarrow> jval svc" where
  "clearRedis env = try_catch
     (next_do (await RConnect) (\<lambda>_.
      next_do (set_watermark env) (\<lambda>_.
      next_do (each (\<lambda>s. await (RXTrim s)) (REDIS_STREAMS env)) (\<lambda>ns.
      next_do (scan_all REDIS_PATTERNS) (\<lambda>found.
      next_do (delete_keys (REDIS_KEYS @ found)) (\<lambda>removed.
        ok (JObj [(''ok'', JBool True), (''removed'', removed),
                  (''trimmed'', JNum (foldl (\<lambda>n v. nadd n (to_num v)) (Fin 0) ns))])))))))
     (\<lambda>e. ok (reset_failed (err_message e)))"

text \<open>The body of a request that is not JSON is an empty object, which does not confirm.\<close>

definition body_or_empty :: "jval option \<Rightarrow> jval" where
  "body_or_empty body = (case body of None \<Rightarrow> JObj [] | Some b \<Rightarrow> b)"

definition reason_of :: "jval \<Rightarrow> string" where
  "reason_of v = to_str (jget v ''reason'')"

definition nothing_cleared :: "jval \<Rightarrow> jval \<Rightarrow> http" where
  "nothing_cleared postgres redis =
     refuse 500 (''nothing cleared -- postgres: '' @ reason_of postgres @ ''; redis: '' @ reason_of redis)"

definition is_ok :: "jval \<Rightarrow> bool" where
  "is_ok v = truthy (jget v ''ok'')"

definition reset_POST :: "env \<Rightarrow> jval option \<Rightarrow> http svc" where
  "reset_POST env body = gated (requireRole ''admin'')
     (next_do (of_sum (dot (body_or_empty body) ''confirm'')) (\<lambda>c.
        if c \<noteq> JStr ''reset'' then ok (refuse 400 ''type \"reset\" to confirm'')
        else next_do (both (truncateTables env RESET_TABLES []) (clearRedis env)) (\<lambda>(postgres, redis).
          if \<not> is_ok postgres \<and> \<not> is_ok redis then ok (nothing_cleared postgres redis)
          else ok (json [(''ok'', JBool True), (''postgres'', postgres), (''redis'', redis)]))))"

section \<open>api/admin/clear-campaigns\<close>

definition CLEAR_TABLES :: "string list" where
  "CLEAR_TABLES = [''campaigns'', ''feedback'']"

definition CLEAR_PATTERNS :: "string list" where
  "CLEAR_PATTERNS = [''campaign:*'', ''feedback:*'']"

definition clearRedisCampaigns :: "jval svc" where
  "clearRedisCampaigns = next_do (scan_all CLEAR_PATTERNS) (\<lambda>keys.
     next_do (delete_keys keys) (\<lambda>removed. ok (JObj [(''ok'', JBool True), (''removed'', removed)])))"

definition number_plus :: "jval \<Rightarrow> jval \<Rightarrow> jval" where
  "number_plus a b = JNum (nadd (to_num a) (to_num b))"

definition clear_response :: "jval \<Rightarrow> jval \<Rightarrow> http" where
  "clear_response postgres redis =
     (let campaigns = (if is_ok postgres then jor (jget (jget postgres ''cleared'') ''campaigns'') (jint 0) else jint 0);
          feedback = (if is_ok postgres then jor (jget (jget postgres ''cleared'') ''feedback'') (jint 0) else jint 0)
      in if \<not> is_ok postgres \<and> \<not> is_ok redis then nothing_cleared postgres redis
         else json [(''ok'', JBool True), (''cleared'', number_plus campaigns feedback), (''campaigns'', campaigns),
                    (''feedback'', feedback), (''redisKeysRemoved'', jor (jget redis ''removed'') (jint 0)),
                    (''postgres'', postgres), (''redis'', redis)])"

definition clear_POST :: "env \<Rightarrow> jval option \<Rightarrow> http svc" where
  "clear_POST env body = gated (requireRole ''admin'')
     (next_do (of_sum (dot (body_or_empty body) ''confirm'')) (\<lambda>c.
        if c \<noteq> JStr ''clear'' then ok (refuse 400 ''type \"clear\" to confirm'')
        else next_do (try_catch (next_do (await RConnect) (\<lambda>_. next_do (set_watermark env) (\<lambda>_. ok None)))
               (\<lambda>e. ok (Some (refuse 503 (''redis unavailable: '' @ err_message e))))) (\<lambda>u.
          case u of Some r \<Rightarrow> ok r
          | None \<Rightarrow> next_do (try_catch clearRedisCampaigns
                (\<lambda>e. ok (JObj [(''ok'', JBool False), (''reason'', JStr (err_message e)), (''removed'', jint 0)]))) (\<lambda>redis.
              next_do (truncateTables env CLEAR_TABLES [(''cleared'', JObj [])]) (\<lambda>postgres.
                ok (clear_response postgres redis))))))"

section \<open>Saving settings\<close>

text \<open>What a request that may change the settings looks like.\<close>

definition settings_accepted :: "jval option \<Rightarrow> bool" where
  "settings_accepted body = (case body of None \<Rightarrow> False
     | Some b \<Rightarrow> jget b ''confirm'' = JStr ''apply'' \<and> validateSettings (jget b ''settings'') = None)"

definition saved_text :: "(jval \<Rightarrow> string) \<Rightarrow> jval option \<Rightarrow> string" where
  "saved_text stringify body = (case body of None \<Rightarrow> [] | Some b \<Rightarrow> stringify (jget b ''settings''))"

lemma dot_confirm: "dot b k = (if nullish b then Inl TypeError else Inr (jget b k))"
  by (simp add: dot_def)

lemma nullish_jget: "nullish b \<Longrightarrow> jget b k = JUndef"
  by (auto simp: nullish_def jget_def)

definition settings_run :: "(jval \<Rightarrow> string) \<Rightarrow> jval option \<Rightarrow> http svc" where
  "settings_run stringify body = next_do connect (\<lambda>u. case u of Some r \<Rightarrow> ok r
     | None \<Rightarrow> next_do (await (RSet OVERRIDE_KEY (saved_text stringify body))) (\<lambda>_.
         ok (json [(''ok'', JBool True), (''stored'', JBool True)])))"

lemma settings_POST_split:
  "settings_accepted body \<Longrightarrow> settings_POST stringify body = settings_run stringify body"
  "\<not> settings_accepted body \<Longrightarrow> \<exists>x. settings_POST stringify body = Ret x \<and> (case x of Inl e \<Rightarrow> True | Inr r \<Rightarrow> \<not> http_ok r)"
proof -
  assume a: "settings_accepted body"
  then obtain b where b: "body = Some b" "jget b ''confirm'' = JStr ''apply''" "validateSettings (jget b ''settings'') = None"
    by (auto simp: settings_accepted_def split: option.splits)
  moreover from b(2) have "\<not> nullish b" using nullish_jget [of b "''confirm''"] by auto
  ultimately show "settings_POST stringify body = settings_run stringify body"
    unfolding settings_run_def saved_text_def b(1) option.case
    by (simp add: settings_POST_def connected_do_def dot_confirm Let_def)
next
  assume a: "\<not> settings_accepted body"
  have nr: "\<not> http_ok (refuse 400 m)" for m by (simp add: http_ok_def refuse_def json_status_def)
  show "\<exists>x. settings_POST stringify body = Ret x \<and> (case x of Inl e \<Rightarrow> True | Inr r \<Rightarrow> \<not> http_ok r)"
    using a by (cases body) (auto simp: settings_POST_def settings_accepted_def dot_confirm Let_def throw_def ok_def nr split: option.split)
qed

lemma settings_run_trace:
  "list_all (\<lambda>(c, r). c = RConnect \<or> c = RSet OVERRIDE_KEY (saved_text stringify body)) (fst (run (settings_run stringify body) rs)) \<and>
   (case answer (settings_run stringify body) rs of
      Some (Inr r) \<Rightarrow> http_ok r \<longleftrightarrow> (\<exists>v. (RSet OVERRIDE_KEY (saved_text stringify body), Some (Inr v)) \<in> set (fst (run (settings_run stringify body) rs)))
    | _ \<Rightarrow> True)"
proof -
  have h: "\<not> http_ok (refuse 503 m)" "http_ok (json [(''ok'', JBool True), (''stored'', JBool True)])" for m
    by (simp_all add: http_ok_def refuse_def json_status_def json_def jget_JObj dget_Cons)
  show ?thesis
  proof (cases rs)
    case (Cons r rs')
    then show ?thesis
      by (cases r; cases rs') (auto simp: settings_run_def connect_def io_unfold answer_def h split: sum.splits)
  qed (simp add: settings_run_def connect_def io_unfold answer_def)
qed

text \<open>Property C18. A save touches Redis only when the request confirms and its settings pass
  validation; what it stores is the text of exactly those settings, under the override key; and it
  answers that they are stored exactly when Redis acknowledged them.\<close>

theorem settings_saved_only_if_valid:
  "list_all (\<lambda>(c, r). settings_accepted body \<and> (c = RConnect \<or> c = RSet OVERRIDE_KEY (saved_text stringify body)))
     (fst (run (settings_POST stringify body) rs)) \<and>
   (case answer (settings_POST stringify body) rs of
      Some (Inr r) \<Rightarrow> http_ok r \<longleftrightarrow> (\<exists>v. (RSet OVERRIDE_KEY (saved_text stringify body), Some (Inr v)) \<in> set (fst (run (settings_POST stringify body) rs)))
    | _ \<Rightarrow> True)"
proof (cases "settings_accepted body")
  case True
  then show ?thesis unfolding settings_POST_split(1) [OF True]
    using settings_run_trace [of stringify body rs] by (auto simp: list_all_iff)
next
  case False
  then obtain x where x: "settings_POST stringify body = Ret x" "case x of Inl e \<Rightarrow> True | Inr r \<Rightarrow> \<not> http_ok r"
    using settings_POST_split(2) by blast
  then show ?thesis by (auto simp: answer_def split: sum.splits)
qed

section \<open>Clearing: the watermark first, and nothing else deleted\<close>

text \<open>
  Redis data may be trimmed or deleted only after the reset watermark has been stored; only the
  listed streams are trimmed; only the listed keys, and keys of the listed families, are deleted;
  nothing but the watermark is written. In a \<open>strict\<close> clear the durable tables wait for the
  watermark as well.
\<close>

datatype mark = Unmarked | Marked

record clear_plan =
  cp_watermark :: string
  cp_streams :: "string list"
  cp_keys :: "string list"
  cp_patterns :: "string list"
  cp_strict :: bool

definition reset_plan :: "env \<Rightarrow> clear_plan" where
  "reset_plan env = \<lparr>cp_watermark = RESET_WATERMARK_KEY env, cp_streams = REDIS_STREAMS env, cp_keys = REDIS_KEYS,
     cp_patterns = REDIS_PATTERNS, cp_strict = False\<rparr>"

definition campaigns_plan :: "env \<Rightarrow> clear_plan" where
  "campaigns_plan env = \<lparr>cp_watermark = RESET_WATERMARK_KEY env, cp_streams = [], cp_keys = [],
     cp_patterns = CLEAR_PATTERNS, cp_strict = True\<rparr>"

text \<open>A pattern is a prefix and a star.\<close>

definition in_family :: "string \<Rightarrow> string \<Rightarrow> bool" where
  "in_family pattern k \<longleftrightarrow> starts_with (butlast pattern) k"

definition deletable :: "clear_plan \<Rightarrow> string \<Rightarrow> bool" where
  "deletable pl k \<longleftrightarrow> k \<in> set (cp_keys pl) \<or> list_ex (\<lambda>p. in_family p k) (cp_patterns pl)"

fun clear_allow :: "clear_plan \<Rightarrow> mark \<Rightarrow> cmd \<Rightarrow> bool" where
  "clear_allow pl s (RDel ks) = (s = Marked \<and> list_all (deletable pl) ks)"
| "clear_allow pl s (RXTrim st) = (s = Marked \<and> st \<in> set (cp_streams pl))"
| "clear_allow pl s (RSet k v) = (k = cp_watermark pl)"
| "clear_allow pl s (RScan p) = (p \<in> set (cp_patterns pl))"
| "clear_allow pl s (PQuery q) = (\<not> cp_strict pl \<or> s = Marked)"
| "clear_allow pl s RConnect = True"
| "clear_allow pl s PConnect = True"
| "clear_allow pl s PRelease = True"
| "clear_allow pl s Now = True"
| "clear_allow pl s c = False"

fun clear_step :: "mark \<Rightarrow> cmd \<Rightarrow> reply \<Rightarrow> mark" where
  "clear_step s (RSet k v) r = (case r of Inl e \<Rightarrow> s | Inr x \<Rightarrow> Marked)"
| "clear_step s c r = s"

text \<open>\<open>SCAN\<close> with \<open>MATCH\<close> returns keys that match.\<close>

definition scan_honest :: "mark \<Rightarrow> cmd \<Rightarrow> reply \<Rightarrow> bool" where
  "scan_honest s c r = (case c of
       RScan p \<Rightarrow> (case r of Inl e \<Rightarrow> True | Inr v \<Rightarrow>
         (case items v of Inl e \<Rightarrow> True | Inr ss \<Rightarrow> list_all (in_family p) (concat (map step_keys ss))))
     | _ \<Rightarrow> True)"

definition mark_count :: "mark \<Rightarrow> nat" where
  "mark_count s = (case s of Unmarked \<Rightarrow> 0 | Marked \<Rightarrow> 1)"

definition watermark_stored :: "cmd \<Rightarrow> reply \<Rightarrow> bool" where
  "watermark_stored c r = ((case c of RSet k v \<Rightarrow> True | _ \<Rightarrow> False) \<and> \<not> isl r)"

interpretation clearing: protocol "clear_allow pl" clear_step Unmarked mark_count watermark_stored
proof (unfold_locales, goal_cases)
  case (2 s c r)
  then show ?case by (cases c; cases r) (simp_all add: watermark_stored_def)
qed (simp add: mark_count_def)

abbreviation clears :: "clear_plan \<Rightarrow> 'a svc \<Rightarrow> (mark \<Rightarrow> 'a \<Rightarrow> bool) \<Rightarrow> mark \<Rightarrow> bool" where
  "clears pl \<equiv> phase (clear_allow pl) scan_honest clear_step"

definition pg_command :: "cmd \<Rightarrow> bool" where
  "pg_command c = (case c of PConnect \<Rightarrow> True | PQuery q \<Rightarrow> True | PRelease \<Rightarrow> True | _ \<Rightarrow> False)"

lemma asks_truncate: "asks pg_command (truncateTables env tables failure)"
  by (auto simp: truncateTables_def with_client_def rollback_def query_def release_def count_rows_def pg_command_def
      intro!: asks_intros)

lemma clear_pg: "asks pg_command p \<Longrightarrow> \<not> cp_strict pl \<or> s = Marked \<Longrightarrow> clears pl p (\<lambda>s' a. s' = s) s"
proof (unfold phase_def, rule follows_unaffected [OF _ rets_True])
  assume p: "asks pg_command p" and m: "\<not> cp_strict pl \<or> s = Marked"
  have "pg_command c \<Longrightarrow> clear_allow pl s c \<and> (\<forall>r. clear_step s c r = s)" for c
    using m by (cases c) (auto simp: pg_command_def)
  with p show "asks (\<lambda>c. clear_allow pl s c \<and> (\<forall>r. clear_step s c r = s)) p"
    by (induction p) auto
qed (auto split: sum.split)

lemma family_deletable: "p \<in> set (cp_patterns pl) \<Longrightarrow> list_all (in_family p) ks \<Longrightarrow> list_all (deletable pl) ks"
  by (auto simp: deletable_def list_all_iff list_ex_iff)

lemma clear_scan: "p \<in> set (cp_patterns pl) \<Longrightarrow> clears pl (scanKeys p) (\<lambda>s' ks. s' = s \<and> list_all (deletable pl) ks) s"
  unfolding scanKeys_def
  by (rule phase_next [where V = "\<lambda>s' v. s' = s \<and> scan_honest s (RScan p) (Inr v)"], rule phase_await, simp, simp,
      rule phase_next [where V = "\<lambda>s' ss. s' = s \<and> list_all (in_family p) (concat (map step_keys ss))"], rule phase_leaf)
    (auto simp: scan_honest_def family_deletable simp del: list_all_append intro!: phase_leaf)

lemma clear_scan_all:
  assumes "set ps \<subseteq> set (cp_patterns pl)"
  shows "clears pl (scan_all ps) (\<lambda>s' ks. s' = s \<and> list_all (deletable pl) ks) s"
proof -
  have "clears pl (each scanKeys ps) (\<lambda>s' kss. s' = s \<and> list_all (list_all (deletable pl)) kss) s"
    by (rule phase_each, rule clear_scan) (use assms in auto)
  then show ?thesis
    unfolding scan_all_def by (rule phase_next) (rule phase_leaf, auto simp: list_all_iff)
qed

lemma clear_delete: "list_all (deletable pl) ks \<Longrightarrow> clears pl (delete_keys ks) (\<lambda>s' a. s' = Marked) Marked"
  by (auto simp: delete_keys_def intro!: phase_leaf phase_await)

lemma clear_watermark:
  "cp_watermark pl = RESET_WATERMARK_KEY env \<Longrightarrow> clears pl (set_watermark env) (\<lambda>s' a. s' = Marked) s"
  unfolding set_watermark_def
  by (rule phase_next [where V = "\<lambda>s' v. True"]) (auto intro!: phase_await phase_discard)

lemma clear_connect: "clears pl (await RConnect) (\<lambda>s' a. s' = s) s"
  by (rule phase_await) simp_all

text \<open>A reset: its tables are cleared beside the watermark. A clear of campaigns: after it.\<close>

lemma plan_fields [simp]:
  "cp_watermark (reset_plan env) = RESET_WATERMARK_KEY env" "cp_streams (reset_plan env) = REDIS_STREAMS env"
  "cp_keys (reset_plan env) = REDIS_KEYS" "cp_patterns (reset_plan env) = REDIS_PATTERNS" "\<not> cp_strict (reset_plan env)"
  "cp_watermark (campaigns_plan env) = RESET_WATERMARK_KEY env" "cp_patterns (campaigns_plan env) = CLEAR_PATTERNS"
  by (simp_all add: reset_plan_def campaigns_plan_def)

lemma reset_redis_clears: "clears (reset_plan env) (clearRedis env) (\<lambda>s' a. True) s"
proof -
  have trim: "clears (reset_plan env) (each (\<lambda>st. await (RXTrim st)) (REDIS_STREAMS env)) (\<lambda>s' as. s' = Marked \<and> list_all (\<lambda>_. True) as) Marked"
    by (rule phase_each) (auto intro!: phase_await)
  have scan: "clears (reset_plan env) (scan_all REDIS_PATTERNS) (\<lambda>s' ks. s' = Marked \<and> list_all (deletable (reset_plan env)) ks) Marked"
    by (rule clear_scan_all) simp
  have del: "list_all (deletable (reset_plan env)) ks \<Longrightarrow>
      clears (reset_plan env) (delete_keys (REDIS_KEYS @ ks)) (\<lambda>s' a. s' = Marked) Marked" for ks
    by (rule clear_delete) (auto simp: list_all_iff deletable_def)
  show ?thesis
    unfolding clearRedis_def
    by (intro phase_try phase_next [OF clear_connect] phase_next [OF clear_watermark [where pl = "reset_plan env"]] phase_leaf, simp)
      (auto intro!: phase_next [OF trim] phase_next [OF scan] phase_next [OF del] phase_leaf)
qed

lemma reset_clears: "clears (reset_plan env) (reset_POST env body) (\<lambda>s' a. True) Unmarked"
proof -
  have pg: "clears (reset_plan env) (truncateTables env RESET_TABLES []) (\<lambda>s' a. True) s" for s
    by (rule phase_mono [OF clear_pg [OF asks_truncate]]) simp_all
  show ?thesis
    unfolding reset_POST_def gated_require
    by (auto intro!: phase_next [where V = "\<lambda>s' a. True"] phase_leaf phase_both pg reset_redis_clears split: prod.split)
qed

lemma campaigns_clears: "clears (campaigns_plan env) (clear_POST env body) (\<lambda>s' a. True) Unmarked"
proof -
  let ?pl = "campaigns_plan env"
  have mark: "clears ?pl (try_catch (next_do (await RConnect) (\<lambda>_. next_do (set_watermark env) (\<lambda>_. ok None)))
      (\<lambda>e. ok (Some (r e)))) (\<lambda>s' u. u = None \<longrightarrow> s' = Marked) s" for r s
    by (intro phase_try phase_next [OF clear_connect] phase_next [OF clear_watermark [where pl = ?pl]] phase_leaf) simp_all
  have scan: "clears ?pl (scan_all CLEAR_PATTERNS) (\<lambda>s' ks. s' = Marked \<and> list_all (deletable ?pl) ks) Marked"
    by (rule clear_scan_all) simp
  have redis: "clears ?pl clearRedisCampaigns (\<lambda>s' a. s' = Marked) Marked"
    unfolding clearRedisCampaigns_def
    by (auto intro!: phase_next [OF scan] phase_next [OF clear_delete] phase_leaf)
  have stay: "clear_step Marked c r = Marked" for c r by (cases c; cases r) simp_all
  have caught: "clears ?pl (try_catch clearRedisCampaigns (\<lambda>e. ok (h e))) (\<lambda>s' a. s' = Marked) Marked" for h
    by (rule phase_try_inv [OF redis, where I = "\<lambda>s. s = Marked"]) (auto simp: stay intro: phase_leaf)
  have pg: "clears ?pl (truncateTables env CLEAR_TABLES f) (\<lambda>s' a. True) Marked" for f
    by (rule phase_mono [OF clear_pg [OF asks_truncate]]) simp_all
  have rest: "clears ?pl (next_do (try_catch clearRedisCampaigns (\<lambda>e. ok (h e))) (\<lambda>redis.
      next_do (truncateTables env CLEAR_TABLES f) (\<lambda>postgres. ok (k redis postgres)))) (\<lambda>s' a. True) Marked" for h f k
    by (rule phase_next [OF caught]) (auto intro!: phase_next [OF pg] phase_leaf)
  show ?thesis
    unfolding clear_POST_def gated_require
    by (rule phase_next [where V = "\<lambda>s' a. True"], rule phase_leaf, simp)
      (auto intro!: phase_leaf phase_next [OF mark] rest split: option.split)
qed

definition leaves_policies :: "cmd \<Rightarrow> bool" where
  "leaves_policies c = (case c of
       RDel ks \<Rightarrow> list_all (\<lambda>k. \<not> starts_with POLICY_PREFIX k \<and> k \<noteq> ''iasg:heartbeat'') ks
     | _ \<Rightarrow> True)"

lemma obeys_all: "obeys allow step s t \<Longrightarrow> (\<And>s c. allow s c \<Longrightarrow> P c) \<Longrightarrow> list_all P (map fst t)"
  by (induction allow step s t rule: obeys.induct) auto

lemma families_spared:
  "deletable (reset_plan env) k \<or> deletable (campaigns_plan env) k \<Longrightarrow> \<not> starts_with POLICY_PREFIX k \<and> k \<noteq> ''iasg:heartbeat''"
  by (auto simp: deletable_def reset_plan_def campaigns_plan_def REDIS_KEYS_def REDIS_PATTERNS_def CLEAR_PATTERNS_def
      in_family_def starts_with_def POLICY_PREFIX_def prefix_def)

lemma allow_leaves:
  "clear_allow (reset_plan env) s c \<Longrightarrow> leaves_policies c" "clear_allow (campaigns_plan env) s c \<Longrightarrow> leaves_policies c"
  using families_spared [of env] by (cases c; fastforce simp: leaves_policies_def list_all_iff)+

definition honest_run :: "http svc \<Rightarrow> reply list \<Rightarrow> bool" where
  "honest_run p rs = trusted scan_honest clear_step Unmarked (fst (run p rs))"

definition clear_run_ok :: "clear_plan \<Rightarrow> http svc \<Rightarrow> reply list \<Rightarrow> bool" where
  "clear_run_ok pl p rs = obeys (clear_allow pl) clear_step Unmarked (fst (run p rs))"

lemma clears_run:
  "clears pl p (\<lambda>s' a. True) Unmarked \<Longrightarrow> honest_run p rs \<Longrightarrow> clear_run_ok pl p rs"
  unfolding phase_def honest_run_def clear_run_ok_def by (rule follows_obeys)

text \<open>Property C8. A reset of the console stores the watermark before it trims or deletes anything in
  Redis, trims exactly the listed streams, and deletes only the fixed telemetry keys and the
  campaign, feedback and per-address families: never a policy and never the heartbeat, provided
  Redis returns matching keys for a scan.\<close>

theorem reset_spares_policies:
  assumes "honest_run (reset_POST env body) rs"
  shows "clear_run_ok (reset_plan env) (reset_POST env body) rs \<and>
    list_all leaves_policies (calls (reset_POST env body) rs)"
proof -
  have r: "clear_run_ok (reset_plan env) (reset_POST env body) rs" by (rule clears_run [OF reset_clears assms])
  then show ?thesis
    unfolding clear_run_ok_def calls_def by (auto intro: obeys_all allow_leaves(1))
qed

text \<open>Property C7. A clear of campaigns touches neither store before the watermark is stored, and
  then deletes campaign and feedback keys only, provided Redis returns matching keys for a scan.\<close>

theorem clear_waits_for_watermark:
  assumes "honest_run (clear_POST env body) rs"
  shows "clear_run_ok (campaigns_plan env) (clear_POST env body) rs \<and>
    list_all leaves_policies (calls (clear_POST env body) rs)"
proof -
  have r: "clear_run_ok (campaigns_plan env) (clear_POST env body) rs" by (rule clears_run [OF campaigns_clears assms])
  then show ?thesis
    unfolding clear_run_ok_def calls_def by (auto intro: obeys_all allow_leaves(2))
qed

definition no_env :: env where
  "no_env k = None"

definition reset_body :: "jval option" where
  "reset_body = Some (JObj [(''confirm'', JStr ''reset'')])"

definition clear_body :: "jval option" where
  "clear_body = Some (JObj [(''confirm'', JStr ''clear'')])"

definition reset_replies :: "reply list" where
  "reset_replies = [Inr JUndef, Inr (jint 5), Inr JNull, Inr (jint 2), Inr (jint 0), Inr (jint 0), Inr (jint 0), Inr (jint 1),
     Inr (JArr [JStr ''campaign:7'', JArr [JStr ''campaign:next_id'']]), Inr (JArr []), Inr (JArr [JStr ''iasg:ip:10.0.0.9'']), Inr (jint 4)]"

definition clear_replies :: "reply list" where
  "clear_replies = [Inr JUndef, Inr (jint 5), Inr JNull, Inr (JArr [JStr ''campaign:7'']), Inr (JArr []), Inr (jint 1)]"

lemmas admin_eval = no_env_def reset_body_def clear_body_def reset_replies_def clear_replies_def reset_POST_def clear_POST_def
  body_or_empty_def dot_def nullish_def truncateTables_def has_pool_def env_or_def clearRedis_def clearRedisCampaigns_def
  set_watermark_def scan_all_def scanKeys_def delete_keys_def REDIS_STREAMS_def REDIS_KEYS_def REDIS_PATTERNS_def CLEAR_PATTERNS_def
  OVERRIDE_STREAM_def items_def step_keys_def text_of_def io_unfold jget_JObj dget_Cons dput_all_def clear_failed_def is_ok_def

theorem reset_spares_policies_witness:
  "honest_run (reset_POST no_env reset_body) reset_replies \<and>
   RDel [''iasg:stats'', ''iasg:attackers'', ''campaign:7'', ''campaign:next_id'', ''iasg:ip:10.0.0.9'']
     \<in> set (calls (reset_POST no_env reset_body) reset_replies) \<and>
   list_all leaves_policies (calls (reset_POST no_env reset_body) reset_replies)"
proof -
  have h: "honest_run (reset_POST no_env reset_body) reset_replies"
    by (simp add: honest_run_def admin_eval scan_honest_def in_family_def starts_with_def)
  have c: "RDel [''iasg:stats'', ''iasg:attackers'', ''campaign:7'', ''campaign:next_id'', ''iasg:ip:10.0.0.9'']
     \<in> set (calls (reset_POST no_env reset_body) reset_replies)"
    by (simp add: admin_eval)
  show ?thesis using reset_spares_policies [OF h] h c by blast
qed

theorem clear_waits_for_watermark_witness:
  "honest_run (clear_POST no_env clear_body) clear_replies \<and>
   RDel [''campaign:7''] \<in> set (calls (clear_POST no_env clear_body) clear_replies) \<and>
   clear_run_ok (campaigns_plan no_env) (clear_POST no_env clear_body) clear_replies"
proof -
  have h: "honest_run (clear_POST no_env clear_body) clear_replies"
    by (simp add: honest_run_def admin_eval scan_honest_def in_family_def starts_with_def)
  have c: "RDel [''campaign:7''] \<in> set (calls (clear_POST no_env clear_body) clear_replies)"
    by (simp add: admin_eval)
  show ?thesis using clear_waits_for_watermark [OF h] h c by blast
qed

section \<open>What the routes report of the durable store\<close>

definition reports_durable :: "pg \<Rightarrow> jserr + http \<Rightarrow> bool" where
  "reports_durable s x = (case x of Inl e \<Rightarrow> durable s = 0
     | Inr r \<Rightarrow> jget (jget (snd r) ''postgres'') ''ok'' = JBool True \<longleftrightarrow> durable s \<noteq> 0)"

lemma tx_bystander: "asks bystander p \<Longrightarrow> rets R p \<Longrightarrow> (\<And>a. R a \<Longrightarrow> Q s a) \<Longrightarrow> tx_follows p Q s"
proof (rule follows_unaffected)
  assume "asks bystander p"
  then show "asks (\<lambda>c. pg_allow s c \<and> (\<forall>r. pg_step s c r = s)) p"
    by (induction p) (auto simp: bystander_step)
qed

lemma asks_clearRedis: "asks bystander (clearRedis env)" "asks bystander clearRedisCampaigns" "asks bystander (set_watermark env)"
  by (auto simp: clearRedis_def clearRedisCampaigns_def set_watermark_def scan_all_def scanKeys_def delete_keys_def bystander_def
      intro!: asks_intros)

lemma reports_refusal: "durable s = 0 \<Longrightarrow> reports_durable s (Inr (refuse st m))"
  by (simp add: reports_durable_def refuse_def json_status_def jget_JObj dget_Cons)

lemma not_ok_nothing: "clear_outcome s (Inr v) \<Longrightarrow> \<not> is_ok v \<Longrightarrow> durable s = 0"
  by (auto simp: clear_outcome_def is_ok_def)

lemma reports_response: "clear_outcome s (Inr v) \<Longrightarrow> jget b ''postgres'' = v \<Longrightarrow> reports_durable s (Inr (n, b))"
  by (simp add: reports_durable_def clear_outcome_def)

lemma reset_response:
  assumes "clear_outcome s (Inr v)"
  shows "reports_durable s (Inr (if \<not> is_ok v \<and> \<not> is_ok w then nothing_cleared v w
      else json [(''ok'', JBool True), (''postgres'', v), (''redis'', w)]))"
  using assms not_ok_nothing [OF assms]
  by (auto simp: nothing_cleared_def reports_refusal json_def jget_JObj dget_Cons intro!: reports_response)

lemma reset_tx: "tx_follows (reset_POST env body) reports_durable Idle"
proof -
  let ?k = "\<lambda>(postgres, redis). if \<not> is_ok postgres \<and> \<not> is_ok redis then ok (nothing_cleared postgres redis)
          else ok (json [(''ok'', JBool True), (''postgres'', postgres), (''redis'', redis)])"
  have k: "?k (v, w) = ok (if \<not> is_ok v \<and> \<not> is_ok w then nothing_cleared v w
      else json [(''ok'', JBool True), (''postgres'', v), (''redis'', w)])" for v w by simp
  have clear_rets: "rets (\<lambda>x. \<not> isl x) (clearRedis env)" unfolding clearRedis_def by (rule rets_caught)
  have both: "tx_follows (next_do (both (truncateTables env RESET_TABLES []) (clearRedis env)) ?k) reports_durable Idle"
    unfolding follows_next_do both_def follows_bnd
  proof (rule follows_mono [OF truncate_follows], simp add: dget_def, rule tx_bystander [OF asks_clearRedis(1) clear_rets], goal_cases)
    case (1 s x y)
    obtain w where y: "y = Inr w" using 1(2) by (cases y) auto
    show ?case
    proof (cases x)
      case (Inl e)
      then show ?thesis using 1(1) by (simp add: y follows_leaf reports_durable_def clear_outcome_def)
    next
      case (Inr v)
      show ?thesis unfolding Inr y follows.simps sum.case k follows_leaf
        by (rule reset_response) (use 1(1) Inr in simp)
    qed
  qed
  show ?thesis
    unfolding reset_POST_def gated_require follows_next_do follows_leaf(3)
    using both reports_refusal [of Idle]
    by (simp add: follows_if follows_leaf follows_next_do [symmetric] reports_durable_def [of Idle "Inl _"] split: sum.split)
qed

lemma clear_response_reports:
  "clear_outcome s (Inr v) \<Longrightarrow> reports_durable s (Inr (clear_response v w))"
  using not_ok_nothing [of s v]
  by (auto simp: clear_response_def Let_def nothing_cleared_def reports_refusal json_def jget_JObj dget_Cons intro!: reports_response)

lemma campaigns_tx: "tx_follows (clear_POST env body) reports_durable Idle"
proof -
  have trunc: "tx_follows (next_do (truncateTables env CLEAR_TABLES [(''cleared'', JObj [])]) (\<lambda>postgres. ok (clear_response postgres w))) reports_durable Idle" for w
    unfolding follows_next_do
    by (rule follows_mono [OF truncate_follows])
      (auto simp: dget_def follows_leaf clear_response_reports reports_durable_def [of _ "Inl _"] clear_outcome_def [of _ "Inl _"] split: sum.split)
  have redis: "tx_follows (next_do (try_catch clearRedisCampaigns (\<lambda>e. ok (h e))) (\<lambda>redis.
      next_do (truncateTables env CLEAR_TABLES [(''cleared'', JObj [])]) (\<lambda>postgres. ok (clear_response postgres redis)))) reports_durable Idle" for h
    unfolding follows_next_do [of _ _ _ "try_catch clearRedisCampaigns (\<lambda>e. ok (h e))"]
    by (rule tx_bystander [OF _ rets_caught]) (auto intro!: asks_try_catch asks_clearRedis trunc simp: isl_def split: sum.split)
  have mark: "asks bystander (try_catch (next_do (await RConnect) (\<lambda>_. next_do (set_watermark env) (\<lambda>_. ok None))) (\<lambda>e. ok (r e)))" for r
    by (auto intro!: asks_intros asks_clearRedis simp: bystander_def)
  have all: "tx_follows (next_do (try_catch (next_do (await RConnect) (\<lambda>_. next_do (set_watermark env) (\<lambda>_. ok None))) (\<lambda>e. ok (Some (refuse 503 (m e)))))
      (\<lambda>u. case u of Some r \<Rightarrow> ok r | None \<Rightarrow> p)) reports_durable Idle"
    if p: "tx_follows p reports_durable Idle" for m p
  proof -
    have "rets (\<lambda>x. case x of Inr (Some r) \<Rightarrow> \<exists>msg. r = refuse 503 msg | Inr None \<Rightarrow> True | Inl e \<Rightarrow> False)
        (try_catch (next_do (await RConnect) (\<lambda>_. next_do (set_watermark env) (\<lambda>_. ok None))) (\<lambda>e. ok (Some (refuse 503 (m e)))))"
      unfolding try_catch_def next_do_def
      by (intro rets_bnd [where Q = "\<lambda>x. case x of Inl e \<Rightarrow> True | Inr u \<Rightarrow> u = None"] rets_bnd [OF rets_True])
        (auto simp: ok_def rets_bnd [OF rets_True] split: sum.splits intro!: rets_bnd [OF rets_True])
    then show ?thesis
      unfolding follows_next_do [of _ _ _ "try_catch _ _"]
      by (rule tx_bystander [OF mark]) (auto simp: follows_leaf reports_refusal p split: sum.splits option.splits)
  qed
  show ?thesis
    unfolding clear_POST_def gated_require follows_next_do [of _ _ _ "of_sum _"] follows_leaf(3)
    by (auto simp: follows_leaf reports_refusal reports_durable_def [of Idle "Inl _"] intro!: all redis split: sum.split)
qed

text \<open>Property C9. Both clearing routes tell the truth about the durable store: the statements keep the
  transaction discipline, and the answer says that Postgres was cleared exactly when the transaction
  committed; a refusal, an error or a failure leaves the tables as they were.\<close>

theorem clearing_reports_durable:
  "tx_run_ok (reset_POST env body) rs \<and> tx_run_ok (clear_POST env body) rs \<and>
   (case answer (reset_POST env body) rs of None \<Rightarrow> True | Some x \<Rightarrow> reports_durable (tx_state (reset_POST env body) rs) x) \<and>
   (case answer (clear_POST env body) rs of None \<Rightarrow> True | Some x \<Rightarrow> reports_durable (tx_state (clear_POST env body) rs) x)"
  using tx_run [OF reset_tx] tx_run [OF campaigns_tx] tx_result [OF reset_tx] tx_result [OF campaigns_tx]
  by (auto split: option.split)

end
