(* ===== verification/JsDate.thy ===== *)
theory JsDate
  imports JsValue
begin

text \<open>
  Instants of the language: \<open>new Date(t).toISOString()\<close> on a time value in milliseconds, with the
  proleptic Gregorian calendar written out. A time outside the range of \<open>Date\<close> has no text.
\<close>

text \<open>\<open>TimeClip\<close>: at most 100 million days from the epoch, fraction dropped.\<close>

definition time_clip :: "jnum \<Rightarrow> int option" where
  "time_clip t = (case t of Fin x \<Rightarrow> if \<bar>x\<bar> \<le> 8640000000000000 then Some (if 0 \<le> x then \<lfloor>x\<rfloor> else \<lceil>x\<rceil>) else None | _ \<Rightarrow> None)"

text \<open>Days from the epoch to year, month and day; years start in March and eras have 146097 days.\<close>

definition year_of_era :: "int \<Rightarrow> int" where
  "year_of_era doe = (doe - doe div 1460 + doe div 36524 - doe div 146096) div 365"

definition civil :: "int \<Rightarrow> int \<times> int \<times> int" where
  "civil days = (let z = days + 719468; era = z div 146097; doe = z mod 146097; yoe = year_of_era doe;
       doy = doe - (365 * yoe + yoe div 4 - yoe div 100); mp = (5 * doy + 2) div 153;
       m = (if mp < 10 then mp + 3 else mp - 9)
     in (yoe + era * 400 + (if m \<le> 2 then 1 else 0), m, doy - (153 * mp + 2) div 5 + 1))"

definition pad :: "nat \<Rightarrow> int \<Rightarrow> string" where
  "pad w i = (let d = show_nat (nat i) in replicate (w - length d) (CHR ''0'') @ d)"

definition iso_year :: "int \<Rightarrow> string" where
  "iso_year y = (if 0 \<le> y \<and> y \<le> 9999 then pad 4 y else (if y < 0 then ''-'' else ''+'') @ pad 6 \<bar>y\<bar>)"

definition toISOString :: "jnum \<Rightarrow> string option" where
  "toISOString t = map_option (\<lambda>ms. (case civil (ms div 86400000) of (y, m, d) \<Rightarrow>
       (let r = ms mod 86400000 in iso_year y @ ''-'' @ pad 2 m @ ''-'' @ pad 2 d @ ''T'' @
          pad 2 (r div 3600000) @ '':'' @ pad 2 (r div 60000 mod 60) @ '':'' @ pad 2 (r div 1000 mod 60) @ ''.'' @ pad 3 (r mod 1000) @ ''Z'')))
     (time_clip t)"

lemma toISOString_some: "0 \<le> i \<Longrightarrow> i \<le> 8640000000000000 \<Longrightarrow> toISOString (nint i) \<noteq> None"
proof -
  assume "0 \<le> i" "i \<le> 8640000000000000"
  then have "\<bar>of_int i\<bar> \<le> (8640000000000000 :: rat)" by (metis abs_of_nonneg of_int_0_le_iff of_int_le_iff of_int_numeral)
  then show ?thesis by (simp add: toISOString_def time_clip_def)
qed

end
