(* ===== verification/RoutesAdaptive.thy ===== *)
theory RoutesAdaptive
  imports Adaptive RoutesAdmin JsDate
begin

text \<open>
  The routes that change what is enforced: \<open>api/adaptive\<close>, its settings, recommendations and
  emergency overrides, \<open>api/overrides\<close> and \<open>api/policies/[address]\<close>. JSON columns hold the JSON value
  itself. The settings routes are compared with an atomic compare-and-set on a small database, the
  approval of a recommendation with a discipline that knows the rows it read, and the overrides with
  the commands they may send.
\<close>

section \<open>api/adaptive\<close>

record adaptive_view =
  av_durable :: "(string \<times> jval) list"
  av_redis :: bool
  av_policies :: "policy_row list"

definition adaptive_GET :: "env \<Rightarrow> (string \<Rightarrow> jval option) \<Rightarrow> adaptive_view svc" where
  "adaptive_GET env parse = next_do (readAdaptive env) (\<lambda>durable.
     next_do (try_catch (next_do (await RConnect) (\<lambda>_. next_do (readPolicies parse) (\<lambda>ps. ok (Some ps)))) (\<lambda>e. ok None)) (\<lambda>ps.
       ok \<lparr>av_durable = durable, av_redis = (ps \<noteq> None), av_policies = (case ps of None \<Rightarrow> [] | Some qs \<Rightarrow> qs)\<rparr>))"

section \<open>api/adaptive/settings\<close>

text \<open>\<open>err.status || 503\<close>\<close>

definition err_status :: "jserr \<Rightarrow> nat" where
  "err_status e = (case e of ApiError st m \<Rightarrow> (if st = 0 then 503 else st) | _ \<Rightarrow> 503)"

definition api_failure :: "jserr \<Rightarrow> http" where
  "api_failure e = refuse (err_status e) (err_message e)"

text \<open>The statements that put a configuration in force, under the next version, with its audit row.\<close>

definition store_settings :: "jval \<Rightarrow> jval \<Rightarrow> string \<Rightarrow> string \<Rightarrow> http svc" where
  "store_settings config version source event =
     (let config' = jset config ''version'' version; actor = username (gate_user (requireRole ''admin'')) in
      next_do (query (UpdateSettings version (jget config' ''mode'') config' source actor)) (\<lambda>_.
      next_do (query (InsertAudit (JStr (''settings-v'' @ to_str version)) event actor
          (JObj [(''mode'', jget config' ''mode''), (''version'', version)]))) (\<lambda>_.
      next_do (query Commit) (\<lambda>_. ok (json [(''ok'', JBool True), (''config'', config')])))))"

definition next_version :: "jval \<Rightarrow> jval" where
  "next_version v = JNum (nadd (to_num v) (Fin 1))"

definition settings_PUT :: "env \<Rightarrow> jval option \<Rightarrow> http svc" where
  "settings_PUT env body = gated (requireRole ''admin'')
     (if \<not> has_pool env then ok (refuse 503 ''durable store unavailable'')
      else case body of None \<Rightarrow> ok (refuse 400 ''expected JSON'')
      | Some b \<Rightarrow> next_do (of_sum (dot b ''confirm'')) (\<lambda>c.
          if c \<noteq> JStr ''apply'' then ok (refuse 400 ''type \"apply\" to confirm'')
          else let config = jget b ''config'' in
          (case validateAdaptive config of Some problem \<Rightarrow> ok (refuse 400 problem)
           | None \<Rightarrow> with_client
               (next_do (query Begin) (\<lambda>_.
                next_do (query SelectVersionForUpdate) (\<lambda>current.
                next_do (of_sum (dot current ''rowCount'')) (\<lambda>n.
                if \<not> truthy n then throw (ApiError 409 ''run the decision engine migration first'')
                else next_do (of_sum (sbind (row0 current) (\<lambda>r. dot r ''version''))) (\<lambda>version.
                if \<not> neq (to_num (jget config ''version'')) (to_num version)
                then throw (ApiError 409 ''settings changed since this page loaded; reload before saving'')
                else store_settings config (next_version version) ''console'' ''settings_updated'')))))
               api_failure)))"

definition settings_revert :: "env \<Rightarrow> http svc" where
  "settings_revert env = gated (requireRole ''admin'')
     (if \<not> has_pool env then ok (refuse 503 ''durable store unavailable'')
      else with_client
        (next_do (query Begin) (\<lambda>_.
         next_do (query SelectFileConfigForUpdate) (\<lambda>current.
         next_do (of_sum (dot current ''rowCount'')) (\<lambda>n.
         if \<not> truthy n then throw (ApiError 409 ''run the decision engine migration first'')
         else next_do (of_sum (sbind (row0 current) (\<lambda>r. dot r ''file_config''))) (\<lambda>fileConfig.
         case validateAdaptive fileConfig of
           Some problem \<Rightarrow> throw (ApiError 409 (''the config-file adaptive settings are invalid: '' @ problem))
         | None \<Rightarrow> next_do (of_sum (sbind (row0 current) (\<lambda>r. dot r ''version''))) (\<lambda>version.
             store_settings fileConfig (next_version version) ''file'' ''settings_reverted''))))))
        api_failure)"

section \<open>api/adaptive/recommendations/[id]\<close>

text \<open>\<open>a || payload.k\<close> and \<open>a ?? payload.k\<close>: the payload is read only when it is needed.\<close>

definition or_dot :: "jval \<Rightarrow> jval \<Rightarrow> string \<Rightarrow> jserr + jval" where
  "or_dot a payload k = (if truthy a then Inr a else dot payload k)"

definition coalesce_dot :: "jval \<Rightarrow> jval \<Rightarrow> string \<Rightarrow> jserr + jval" where
  "coalesce_dot a payload k = (if nullish a then dot payload k else Inr a)"

definition iso_or_error :: "jnum \<Rightarrow> jserr + jval" where
  "iso_or_error t = (case toISOString t of None \<Rightarrow> Inl (ServiceError ''Invalid time value'') | Some s \<Rightarrow> Inr (JStr s))"

definition approved_payload :: "jval \<Rightarrow> jval \<Rightarrow> jnum \<Rightarrow> jserr + jval" where
  "approved_payload payload edits now =
     sbind (or_dot (jget edits ''action'') payload ''action'') (\<lambda>action.
     sbind (coalesce_dot (jget edits ''requests_per_minute'') payload ''requests_per_minute'') (\<lambda>rpm.
     sbind (coalesce_dot (jget edits ''duration_seconds'') payload ''expires_in'') (\<lambda>expires.
     sbind (or_dot (jget edits ''reason'') payload ''reason'') (\<lambda>reason.
     sbind (iso_or_error now) (\<lambda>at'. Inr (JObj (dput_all
       [(''action'', action), (''requests_per_minute'', rpm), (''expires_in'', expires),
        (''reason'', JStr (take 500 (to_str (jor reason (JStr []))))), (''source'', JStr ''approved''),
        (''issued_by'', JStr (username (gate_user (requireRole ''operator'')))), (''issued_at'', at')] (spread payload))))))))"

text \<open>The status and payload a decision leads to.\<close>

definition decide :: "jval \<Rightarrow> jval \<Rightarrow> jval \<Rightarrow> (string \<times> jval) svc" where
  "decide b payload config =
     (if jget b ''decision'' \<noteq> JStr ''approve'' then ok (''rejected'', payload)
      else next_do (await Now) (\<lambda>now.
        next_do (of_sum (approved_payload payload (jor (jget b ''edits'') (JObj [])) (to_num now))) (\<lambda>p.
        next_do (of_sum (validateRecommendationEdit p config)) (\<lambda>problem.
        case problem of Some msg \<Rightarrow> throw (ApiError 400 msg)
        | None \<Rightarrow> next_do (await Now) (\<lambda>now2.
            next_do (of_sum (iso_or_error (nadd (to_num now2) (nmul (to_num (jget p ''expires_in'')) (Fin 1000))))) (\<lambda>at'.
              ok (''approved'', jset p ''expires_at'' at')))))))"

definition recommendation_PATCH :: "env \<Rightarrow> string \<Rightarrow> jval option \<Rightarrow> http svc" where
  "recommendation_PATCH env rid body = gated (requireRole ''operator'')
     (if \<not> has_pool env then ok (refuse 503 ''durable store unavailable'')
      else case body of None \<Rightarrow> ok (refuse 400 ''expected JSON'')
      | Some b \<Rightarrow> next_do (of_sum (dot b ''decision'')) (\<lambda>d.
          if \<not> one_of [''approve'', ''reject''] d then ok (refuse 400 ''decision must be approve or reject'')
          else with_client
            (next_do (query Begin) (\<lambda>_.
             next_do (query (SelectRecommendationForUpdate rid)) (\<lambda>rowResult.
             next_do (query SelectConfig) (\<lambda>settingsResult.
             next_do (of_sum (row0 rowResult)) (\<lambda>row.
             next_do (of_sum (row0 settingsResult)) (\<lambda>first.
             let config = jget first ''config'' in
             if \<not> truthy row \<or> \<not> truthy config then throw (ApiError 404 ''recommendation or settings not found'')
             else if jget row ''status'' \<noteq> JStr ''pending_approval'' then throw (ApiError 409 ''recommendation is no longer pending'')
             else next_do (decide b (jget row ''payload'') config) (\<lambda>(status, payload).
             next_do (of_sum (dot payload ''action'')) (\<lambda>action.
             next_do (query (UpdateRecommendation rid action status (username (gate_user (requireRole ''operator'')))
                 (jget payload ''expires_at'') payload)) (\<lambda>_.
             next_do (query (InsertAudit (JStr rid) status (username (gate_user (requireRole ''operator'')))
                 (JObj [(''edited'', jor (jget b ''edits'') (JObj []))]))) (\<lambda>_.
             next_do (query Commit) (\<lambda>_.
               ok (json [(''ok'', JBool True), (''policyId'', JStr rid), (''status'', JStr status)]))))))))))))
            api_failure))"

section \<open>api/overrides and api/adaptive/overrides\<close>

definition isAddress :: "string \<Rightarrow> bool" where
  "isAddress v \<longleftrightarrow> isIP v \<noteq> 0"

text \<open>\<open>String(v || "")\<close>\<close>

definition string_or_empty :: "jval \<Rightarrow> string" where
  "string_or_empty v = to_str (jor v (JStr []))"

definition OVERRIDE_ACTIONS :: "string list" where
  "OVERRIDE_ACTIONS = [''monitor'', ''throttle'', ''temp_block'', ''escalate'']"

definition EMERGENCY_ACTIONS :: "string list" where
  "EMERGENCY_ACTIONS = [''allow'', ''temp_block'']"

definition override_POST :: "env \<Rightarrow> jval option \<Rightarrow> http svc" where
  "override_POST env body = gated (requireRole ''operator'')
     (case body of None \<Rightarrow> ok (refuse 400 ''expected JSON'')
      | Some b \<Rightarrow> next_do (of_sum (dot b ''ip'')) (\<lambda>ip0.
          let ip = trim (string_or_empty ip0); action = trim (string_or_empty (jget b ''action''));
              actor = username (gate_user (requireRole ''operator''));
              reason = take 280 (trim (string_or_empty (jget b ''reason'')))
          in if ip = [] then ok (refuse 400 ''ip is required'')
             else if action \<notin> set OVERRIDE_ACTIONS then ok (refuse 400 (''action must be one of '' @ join '', '' OVERRIDE_ACTIONS))
             else if \<not> isAddress ip then ok (refuse 400 ''not an IP address'')
             else try_catch
               (next_do (await RConnect) (\<lambda>_.
                next_do (await (RXAdd (OVERRIDE_STREAM env) [(''ip'', JStr ip), (''action'', JStr action), (''actor'', JStr actor),
                    (''reason'', JStr (if reason = [] then ''set from the dashboard'' else reason))])) (\<lambda>entry.
                  ok (json [(''ok'', JBool True), (''id'', entry), (''ip'', JStr ip), (''action'', JStr action), (''applied'', JStr ''next cycle'')]))))
               (\<lambda>e. ok (refuse 503 (err_message e)))))"

text \<open>The longest emergency policy the stored configuration allows.\<close>

definition maximum_duration :: "jval \<Rightarrow> jnum" where
  "maximum_duration config = to_num (jor (jget (jget config ''guardrails'') ''maximum_policy_duration_seconds'') (jint 0))"

definition bad_duration :: "jnum \<Rightarrow> jnum \<Rightarrow> bool" where
  "bad_duration duration maximum \<longleftrightarrow> \<not> nis_int duration \<or> nlt duration (Fin 30) \<or> nlt maximum duration"

definition emergency_entry :: "jval \<Rightarrow> string \<Rightarrow> string \<Rightarrow> string \<Rightarrow> string \<Rightarrow> jnum \<Rightarrow> (string \<times> jval) list" where
  "emergency_entry policyId target action actor reason duration =
     [(''policy_id'', policyId), (''ip'', JStr target), (''action'', JStr action), (''actor'', JStr actor), (''reason'', JStr reason),
      (''ttl_seconds'', JStr (show_num duration)), (''method'', JStr []), (''route_template'', JStr []), (''emergency'', JStr ''true'')]"

definition emergency_run :: "env \<Rightarrow> string \<Rightarrow> string \<Rightarrow> string \<Rightarrow> string \<Rightarrow> jnum \<Rightarrow> http svc" where
  "emergency_run env actor reason target action duration =
     next_do (await Uuid) (\<lambda>policyId. try_catch
       (next_do (await (PPool (InsertAudit policyId ''emergency_requested'' actor
            (JObj [(''target'', JStr target), (''action'', JStr action), (''duration'', JNum duration), (''reason'', JStr reason)])))) (\<lambda>_.
        next_do (await RConnect) (\<lambda>_.
        next_do (await (RXAdd (OVERRIDE_STREAM env) (emergency_entry policyId target action actor reason duration))) (\<lambda>_.
          ok (json [(''ok'', JBool True), (''policyId'', policyId), (''applied'', JStr ''next decision-engine cycle'')])))))
       (\<lambda>e. next_do (or_else (discard (await (PPool (InsertAudit policyId ''emergency_failed'' actor
            (JObj [(''error'', JStr (err_message e))]))))) ()) (\<lambda>_. ok (refuse 503 (err_message e)))))"

definition emergency_POST :: "env \<Rightarrow> jval option \<Rightarrow> http svc" where
  "emergency_POST env body = gated (requireRole ''operator'')
     (case body of None \<Rightarrow> ok (refuse 400 ''expected JSON'')
      | Some b \<Rightarrow> next_do (of_sum (dot b ''target_identity'')) (\<lambda>t0.
          let target = trim (string_or_empty t0); action = string_or_empty (jget b ''action'');
              duration = to_num (jor (jget b ''duration_seconds'') (jint 900))
          in if \<not> isAddress target then ok (refuse 400 ''valid target_identity is required'')
             else if action \<notin> set EMERGENCY_ACTIONS then ok (refuse 400 ''emergency action must be allow or temp_block'')
             else if \<not> has_pool env then ok (refuse 503 ''durable adaptive settings are unavailable'')
             else next_do (try_catch
                 (next_do (await (PPool SelectConfig)) (\<lambda>v. next_do (of_sum (row0 v)) (\<lambda>r. ok (Inr (jget r ''config'')))))
                 (\<lambda>e. ok (Inl (refuse 503 (err_message e))))) (\<lambda>u.
               case u of Inl r \<Rightarrow> ok r
               | Inr config \<Rightarrow> (let maximum = maximum_duration config in
                   if bad_duration duration maximum then ok (refuse 400 (''duration_seconds must be 30..'' @ show_num maximum))
                   else emergency_run env (username (gate_user (requireRole ''operator'')))
                     (take 500 (to_str (jor (jget b ''reason'') (JStr ''emergency analyst override'')))) target action duration))))"

section \<open>api/policies/[address]\<close>

definition policy_ids :: "(string \<Rightarrow> jval option) \<Rightarrow> jval list \<Rightarrow> jval list" where
  "policy_ids parse values = filter truthy (map (\<lambda>raw. jget (parseJson parse raw) ''policy_id'') values)"

text \<open>The durable half of a revocation: the result says whether it was recorded.\<close>

definition revoke_audit :: "jval list \<Rightarrow> string \<Rightarrow> bool svc" where
  "revoke_audit ids ip = with_client
     (next_do (query Begin) (\<lambda>_.
      next_do (query (RevokeRecommendations ids)) (\<lambda>_.
      next_do (each (\<lambda>p. query (InsertAudit p ''revoked'' (username (gate_user (requireRole ''operator'')))
          (JObj [(''target_identity'', JStr ip)]))) ids) (\<lambda>_.
      next_do (query Commit) (\<lambda>_. ok True)))))
     (\<lambda>e. False)"

text \<open>\<open>decode\<close> is \<open>decodeURIComponent\<close>; it throws on a malformed escape.\<close>

definition policy_DELETE :: "env \<Rightarrow> (string \<Rightarrow> string option) \<Rightarrow> (string \<Rightarrow> jval option) \<Rightarrow> string \<Rightarrow> http svc" where
  "policy_DELETE env decode parse address = gated (requireRole ''operator'')
     (case decode address of None \<Rightarrow> throw (ServiceError ''URI malformed'')
      | Some text \<Rightarrow> (let ip = trim text in
          if \<not> isAddress ip then ok (refuse 400 ''not an IP address'')
          else try_catch
            (next_do (await RConnect) (\<lambda>_.
             next_do (scanKeys (POLICY_PREFIX @ ip @ '':*'')) (\<lambda>found.
             let keys = found @ [POLICY_PREFIX @ ip] in
             next_do (mGet keys) (\<lambda>values.
             let ids = policy_ids parse values in
             next_do (await (RDel keys)) (\<lambda>removed.
             next_do (if has_pool env \<and> ids \<noteq> [] then revoke_audit ids ip else ok False) (\<lambda>auditRecorded.
               ok (json [(''ok'', JBool True), (''ip'', JStr ip), (''removed'', JBool (jlt (jint 0) removed)),
                         (''auditRecorded'', JBool auditRecorded)])))))))
            (\<lambda>e. ok (refuse 503 (err_message e)))))"

section \<open>Changes are transactions\<close>

text \<open>An accepted change is durable with its audit row; everything else leaves the tables alone.\<close>

definition settled :: "pg \<Rightarrow> jserr + http \<Rightarrow> bool" where
  "settled s x = (durable s = (case x of Inl e \<Rightarrow> 0 | Inr r \<Rightarrow> if http_ok r then 2 else 0))"

definition accepted :: "nat \<Rightarrow> http \<Rightarrow> bool" where
  "accepted n r \<longleftrightarrow> n = 2 \<and> http_ok r"

lemma refuse_not_ok [simp]: "\<not> http_ok (refuse st m)"
  by (simp add: http_ok_def refuse_def json_status_def jget_JObj dget_Cons)

lemma json_ok [simp]: "http_ok (json ((''ok'', JBool True) # r))"
  by (simp add: http_ok_def json_def jget_JObj dget_Cons)

lemma settled_start [simp]: "settled Idle (Inl e)" "settled Idle (Inr (refuse st m))"
  by (simp_all add: settled_def)

lemma tx_branch [tx_intros]:
  "(b \<Longrightarrow> tx_body G p s) \<Longrightarrow> (\<not> b \<Longrightarrow> tx_body G q s) \<Longrightarrow> tx_body G (if b then p else q) s"
  by simp

lemma transaction_settled: "tx_body accepted body Opened \<Longrightarrow> tx_follows (with_client body api_failure) settled Idle"
  by (rule with_client_follows [where G = accepted]) (auto simp: settled_def accepted_def api_failure_def)

lemma store_settings_body: "tx_body accepted (store_settings config version source event) (InTx 0)"
  unfolding store_settings_def Let_def
  by (intro tx_intros) (simp_all add: accepted_def numeral_2_eq_2)

lemma PUT_settled: "tx_follows (settings_PUT env body) settled Idle"
proof -
  have t: "tx_follows (with_client
               (next_do (query Begin) (\<lambda>_.
                next_do (query SelectVersionForUpdate) (\<lambda>current.
                next_do (of_sum (dot current ''rowCount'')) (\<lambda>n.
                if \<not> truthy n then throw (ApiError 409 ''run the decision engine migration first'')
                else next_do (of_sum (sbind (row0 current) (\<lambda>r. dot r ''version''))) (\<lambda>version.
                if \<not> neq (to_num (jget config ''version'')) (to_num version)
                then throw (ApiError 409 ''settings changed since this page loaded; reload before saving'')
                else store_settings config (next_version version) ''console'' ''settings_updated'')))))
               api_failure) settled Idle" for config
    by (intro transaction_settled tx_intros store_settings_body) (simp_all add: plain_read_def store_settings_body)
  then show ?thesis
    unfolding settings_PUT_def gated_require
    by (auto simp: follows_leaf dot_def Let_def split: option.split)
qed

lemma revert_settled: "tx_follows (settings_revert env) settled Idle"
  unfolding settings_revert_def gated_require follows_if
  by (auto simp: follows_leaf plain_read_def split: option.split intro!: transaction_settled tx_intros store_settings_body)

lemma tx_option [tx_intros]:
  "(x = None \<Longrightarrow> tx_body G (next_do p f) s) \<Longrightarrow> (\<And>a. x = Some a \<Longrightarrow> tx_body G (next_do (q a) f) s) \<Longrightarrow>
     tx_body G (next_do (case x of None \<Rightarrow> p | Some a \<Rightarrow> q a) f) s"
  by (cases x) simp_all

lemma decide_body:
  "failing s \<Longrightarrow> (\<And>a. tx_body G (f a) s) \<Longrightarrow> tx_body G (next_do (decide b payload config) f) s"
  unfolding decide_def
  by (intro tx_intros) (auto simp: bystander_def tx_throw)

lemma PATCH_settled: "tx_follows (recommendation_PATCH env rid body) settled Idle"
  unfolding recommendation_PATCH_def gated_require
  by (auto simp: follows_leaf dot_def Let_def plain_read_def accepted_def numeral_2_eq_2 split: option.split
      intro!: transaction_settled tx_intros decide_body)

text \<open>Property C4. Saving or reverting the adaptive settings and deciding a recommendation are
  transactions: whatever the database answers, the statements keep the transaction discipline, the
  request reports success exactly when the change and its audit row are both durable, and after any
  refusal or error nothing has been written.\<close>

theorem adaptive_changes_settled:
  "(tx_run_ok (settings_PUT env body) rs \<and> tx_run_ok (settings_revert env) rs \<and> tx_run_ok (recommendation_PATCH env rid body) rs) \<and>
   (case answer (settings_PUT env body) rs of None \<Rightarrow> True | Some x \<Rightarrow> settled (tx_state (settings_PUT env body) rs) x) \<and>
   (case answer (settings_revert env) rs of None \<Rightarrow> True | Some x \<Rightarrow> settled (tx_state (settings_revert env) rs) x) \<and>
   (case answer (recommendation_PATCH env rid body) rs of None \<Rightarrow> True
      | Some x \<Rightarrow> settled (tx_state (recommendation_PATCH env rid body) rs) x)"
  using tx_run [OF PUT_settled] tx_run [OF revert_settled] tx_run [OF PATCH_settled]
    tx_result [OF PUT_settled] tx_result [OF revert_settled] tx_result [OF PATCH_settled]
  by (auto split: option.split)

section \<open>Saving is a compare-and-set\<close>

text \<open>
  A database that serves one transaction at a time, as the row lock of \<open>FOR UPDATE\<close> makes it for this
  row: the settings row, the audit log, and the copy a rollback restores.
\<close>

record settings_row =
  sr_version :: jval
  sr_mode :: jval
  sr_config :: jval
  sr_file :: jval
  sr_source :: string
  sr_by :: string

type_synonym audit_entry = "jval \<times> string \<times> string \<times> jval"

record adb =
  ab_row :: "settings_row option"
  ab_audit :: "audit_entry list"
  ab_undo :: "(settings_row option \<times> audit_entry list) option"

definition result_rows :: "jval list \<Rightarrow> reply" where
  "result_rows rows = Inr (JObj [(''rows'', JArr rows), (''rowCount'', jint (int (length rows)))])"

definition stored_rows :: "(settings_row \<Rightarrow> jval) \<Rightarrow> adb \<Rightarrow> jval list" where
  "stored_rows f s = (case ab_row s of None \<Rightarrow> [] | Some r \<Rightarrow> [f r])"

definition put_row :: "jval \<Rightarrow> jval \<Rightarrow> jval \<Rightarrow> string \<Rightarrow> string \<Rightarrow> settings_row \<Rightarrow> settings_row" where
  "put_row v m c src by r = r\<lparr>sr_version := v, sr_mode := m, sr_config := c, sr_source := src, sr_by := by\<rparr>"

fun adb_sql :: "adb \<Rightarrow> sql \<Rightarrow> adb \<times> reply" where
  "adb_sql s Begin = (s\<lparr>ab_undo := Some (ab_row s, ab_audit s)\<rparr>, result_rows [])"
| "adb_sql s Commit = (s\<lparr>ab_undo := None\<rparr>, result_rows [])"
| "adb_sql s Rollback = ((case ab_undo s of None \<Rightarrow> s
     | Some (r, a) \<Rightarrow> s\<lparr>ab_row := r, ab_audit := a, ab_undo := None\<rparr>), result_rows [])"
| "adb_sql s SelectVersionForUpdate = (s, result_rows (stored_rows (\<lambda>r. JObj [(''version'', sr_version r)]) s))"
| "adb_sql s SelectFileConfigForUpdate =
     (s, result_rows (stored_rows (\<lambda>r. JObj [(''version'', sr_version r), (''file_config'', sr_file r)]) s))"
| "adb_sql s (UpdateSettings v m c src by) = (s\<lparr>ab_row := map_option (put_row v m c src by) (ab_row s)\<rparr>, result_rows [])"
| "adb_sql s (InsertAudit i e a d) = (s\<lparr>ab_audit := ab_audit s @ [(i, e, a, d)]\<rparr>, result_rows [])"
| "adb_sql s q = (s, result_rows [])"

fun adb_serve :: "adb \<Rightarrow> cmd \<Rightarrow> adb \<times> reply" where
  "adb_serve s (PQuery q) = adb_sql s q"
| "adb_serve s c = (s, Inr JUndef)"

text \<open>The specification: one step on the row and the log.\<close>

definition install :: "jval \<Rightarrow> string \<Rightarrow> string \<Rightarrow> settings_row \<Rightarrow> adb \<Rightarrow> adb \<times> http" where
  "install config source event r s =
     (let v = next_version (sr_version r); c = jset config ''version'' v
      in (s\<lparr>ab_row := Some (put_row v (jget c ''mode'') c source ''operator'' r),
            ab_audit := ab_audit s @ [(JStr (''settings-v'' @ to_str v), event, ''operator'', JObj [(''mode'', jget c ''mode''), (''version'', v)])]\<rparr>,
          json [(''ok'', JBool True), (''config'', c)]))"

definition compare_and_set :: "jval \<Rightarrow> adb \<Rightarrow> adb \<times> http" where
  "compare_and_set config s = (case ab_row s of
       None \<Rightarrow> (s, refuse 409 ''run the decision engine migration first'')
     | Some r \<Rightarrow> if neq (to_num (jget config ''version'')) (to_num (sr_version r))
         then install config ''console'' ''settings_updated'' r s
         else (s, refuse 409 ''settings changed since this page loaded; reload before saving''))"

definition revert_spec :: "adb \<Rightarrow> adb \<times> http" where
  "revert_spec s = (case ab_row s of
       None \<Rightarrow> (s, refuse 409 ''run the decision engine migration first'')
     | Some r \<Rightarrow> (case validateAdaptive (sr_file r) of
         Some problem \<Rightarrow> (s, refuse 409 (''the config-file adaptive settings are invalid: '' @ problem))
       | None \<Rightarrow> install (sr_file r) ''file'' ''settings_reverted'' r s))"

definition save_request :: "jval \<Rightarrow> jval" where
  "save_request config = JObj [(''confirm'', JStr ''apply''), (''config'', config)]"

lemma exec_with_client:
  "exec adb_serve (with_client p h) s = (case exec adb_serve p s of (t, x) \<Rightarrow>
     (case x of Inr a \<Rightarrow> (t, Inr a) | Inl e \<Rightarrow> (fst (adb_sql t Rollback), Inr (h e))))"
  by (auto simp: with_client_def exec_next_do exec_io try_finally_def exec_bnd exec_try_catch rollback_def query_def
      or_else_def discard_def release_def result_rows_def split: prod.split sum.split)

lemma exec_query: "exec adb_serve (query q) s = adb_sql s q"
  by (simp add: query_def exec_io)

lemma row0_result: "row0 (JObj [(''rows'', JArr rows), (''rowCount'', n)]) = Inr (case rows of [] \<Rightarrow> JUndef | x # _ \<Rightarrow> x)"
  by (simp add: row0_def sbind_def dot_def nullish_def jget_JObj dget_Cons) (simp add: jget_def)

lemma exec_store:
  "ab_row s = Some r \<Longrightarrow> ab_undo s = Some u \<Longrightarrow>
     exec adb_serve (store_settings config (next_version (sr_version r)) source event) s =
       (case install config source event r (s\<lparr>ab_undo := None\<rparr>) of (t, x) \<Rightarrow> (t, Inr x))"
  by (simp add: store_settings_def install_def Let_def exec_next_do exec_query exec_io result_rows_def)

lemma dot_JObj: "dot (JObj d) k = Inr (jget (JObj d) k)"
  by (simp add: dot_def nullish_def)

lemmas adb_eval = exec_with_client exec_next_do exec_query exec_io exec_store result_rows_def stored_rows_def row0_result sbind_def dot_JObj
  jget_JObj dget_Cons api_failure_def err_status_def

lemma put_exec:
  assumes "has_pool env" "validateAdaptive config = None" "ab_undo s = None"
  shows "exec adb_serve (settings_PUT env (Some (save_request config))) s = (case compare_and_set config s of (t, x) \<Rightarrow> (t, Inr x))"
proof (cases "ab_row s")
  case None
  then show ?thesis using assms
    by (simp add: settings_PUT_def save_request_def Let_def compare_and_set_def adb_eval)
next
  case (Some r)
  then show ?thesis using assms
    by (simp add: settings_PUT_def save_request_def Let_def compare_and_set_def adb_eval dot_def nullish_def install_def)
qed

lemma revert_exec:
  assumes "has_pool env" "ab_undo s = None"
  shows "exec adb_serve (settings_revert env) s = (case revert_spec s of (t, x) \<Rightarrow> (t, Inr x))"
proof (cases "ab_row s")
  case None
  then show ?thesis using assms by (simp add: settings_revert_def revert_spec_def adb_eval)
next
  case (Some r)
  show ?thesis
  proof (cases "validateAdaptive (sr_file r)")
    case None
    with Some assms show ?thesis
      by (simp add: settings_revert_def revert_spec_def adb_eval dot_def nullish_def install_def Let_def)
  next
    case v: (Some problem)
    with Some assms show ?thesis
      by (simp add: settings_revert_def revert_spec_def adb_eval dot_def nullish_def)
  qed
qed

text \<open>Property C2. On a database that serves one transaction at a time, saving the adaptive settings is
  an atomic compare-and-set on the version the page was loaded with, and reverting installs the
  configuration file's settings: row, audit log and answer are those of the specification.\<close>

theorem settings_refine_compare_and_set:
  assumes "has_pool env" "ab_undo s = None" "validateAdaptive config = None"
  shows "exec adb_serve (settings_PUT env (Some (save_request config))) s = (case compare_and_set config s of (t, x) \<Rightarrow> (t, Inr x)) \<and>
    exec adb_serve (settings_revert env) s = (case revert_spec s of (t, x) \<Rightarrow> (t, Inr x))"
  using put_exec [OF assms(1,3,2)] revert_exec [OF assms(1,2)] by simp

definition valid_row :: settings_row where
  "valid_row = \<lparr>sr_version = jint 4, sr_mode = JStr ''monitor'', sr_config = sample_config, sr_file = sample_config,
     sr_source = ''file'', sr_by = ''migration''\<rparr>"

definition small_db :: adb where
  "small_db = \<lparr>ab_row = Some valid_row, ab_audit = [], ab_undo = None\<rparr>"

lemma fl_limit: "fl (of_int (2 ^ 53)) = nint (2 ^ 53)"
proof -
  let ?x = "of_int (2 ^ 53) :: rat"
  have p: "?x = pow2 53" by (simp add: pow2_def)
  have x: "0 < ?x" by (simp only: p pow2_pos)
  have "\<not> 53 < binexp ?x" using binexp_bounds(1) [OF x] pow2_strict_mono [of 53 "binexp ?x"] p by auto
  moreover have "53 < binexp ?x + 1" using binexp_bounds(2) [OF x] pow2_less_iff [of 53 "binexp ?x + 1"] p by simp
  ultimately have "binexp ?x = 53" by simp
  then have "lastbit ?x = 1" by (simp add: lastbit_def)
  then have "fl_pos ?x = ?x" by (intro fl_pos_exact [of _ "2 ^ 52"]) (simp add: pow2_def)
  then have e: "fl_rat ?x = ?x" by (simp add: fl_rat_def)
  have "pow2 53 < pow2 1024" by (rule pow2_strict_mono) simp
  moreover have "- pow2 1024 < pow2 53" using pow2_pos [of 53] pow2_pos [of 1024] by linarith
  ultimately show ?thesis using e unfolding fl_def Let_def p by simp
qed

lemma next_version_differs:
  assumes "validateAdaptive config = None"
  shows "\<not> neq (to_num (jget config ''version'')) (nadd (to_num (jget config ''version'')) (Fin 1))"
proof -
  have "integerBetween (jget config ''version'') (jint 1) (jint (2 ^ 53 - 1))"
    using assms by (auto simp: validateAdaptive_def Let_def first_err_append top_checks_def first_err_Cons split: option.splits if_splits)
  then have "whole (jget config ''version'') 1 (2 ^ 53 - 1)" unfolding integerBetween_int .
  then obtain i where i: "jget config ''version'' = jint i" "1 \<le> i" "i \<le> 2 ^ 53 - 1"
    by (auto simp: whole_def is_integer_iff)
  show ?thesis
  proof (cases "i = 2 ^ 53 - 1")
    case True
    then show ?thesis using fl_limit by (simp add: i neq_def)
  next
    case False
    then have "nadd (nint i) (nint 1) = nint (i + 1)" using i by (intro nadd_int) simp
    then show ?thesis by (simp add: i neq_def)
  qed
qed

lemma valid_number: "validateAdaptive config = None \<Longrightarrow> neq (to_num (jget config ''version'')) x \<longleftrightarrow> to_num (jget config ''version'') = x"
  by (auto simp: neq_def validateAdaptive_def Let_def first_err_append top_checks_def first_err_Cons integerBetween_def
      is_integer_iff split: option.splits if_splits)

definition saved :: "jserr + http \<Rightarrow> bool" where
  "saved x = (case x of Inl e \<Rightarrow> False | Inr r \<Rightarrow> http_ok r)"

lemma install_fields:
  "ab_row (fst (install config source event r s)) = Some (put_row (next_version (sr_version r))
     (jget (jset config ''version'' (next_version (sr_version r))) ''mode'') (jset config ''version'' (next_version (sr_version r))) source ''operator'' r)"
  "ab_undo (fst (install config source event r s)) = ab_undo s"
  "http_ok (snd (install config source event r s))"
  by (simp_all add: install_def Let_def)

text \<open>Property C3. No update is lost: of two saves that start from the same version of the settings,
  whatever else they contain, the second one is refused once the first has been saved, and the
  refusal changes nothing.\<close>

theorem second_save_refused:
  assumes "has_pool env" "ab_undo s = None" "validateAdaptive a = None" "validateAdaptive b = None"
    and "jget a ''version'' = jget b ''version''"
    and "exec adb_serve (settings_PUT env (Some (save_request a))) s = (s1, x1)" "saved x1"
  shows "exec adb_serve (settings_PUT env (Some (save_request b))) s1 =
    (s1, Inr (refuse 409 ''settings changed since this page loaded; reload before saving''))"
proof -
  have cas: "compare_and_set a s = (s1, y) \<and> x1 = Inr y" if "compare_and_set a s = (t, y)" for t y
    using assms(6) that by (simp add: put_exec [OF assms(1,3,2)])
  obtain t y where ty: "compare_and_set a s = (t, y)" by (cases "compare_and_set a s")
  then have c: "compare_and_set a s = (s1, y)" "http_ok y" using cas [OF ty] assms(7) by (auto simp: saved_def)
  obtain r where r: "ab_row s = Some r" using c by (cases "ab_row s") (auto simp: compare_and_set_def)
  have v: "to_num (jget a ''version'') = to_num (sr_version r)"
    and i: "install a ''console'' ''settings_updated'' r s = (s1, y)"
    using c r by (auto simp: compare_and_set_def valid_number [OF assms(3)] split: if_splits)
  have s1: "ab_row s1 = Some (put_row (next_version (sr_version r)) (jget (jset a ''version'' (next_version (sr_version r))) ''mode'')
      (jset a ''version'' (next_version (sr_version r))) ''console'' ''operator'' r)" "ab_undo s1 = None"
    using install_fields [of a "''console''" "''settings_updated''" r s] i assms(2) by simp_all
  have "\<not> neq (to_num (jget b ''version'')) (nadd (to_num (sr_version r)) (Fin 1))"
    using next_version_differs [OF assms(4)] v assms(5) by simp
  then have "compare_and_set b s1 = (s1, refuse 409 ''settings changed since this page loaded; reload before saving'')"
    by (simp add: compare_and_set_def s1 put_row_def next_version_def)
  then show ?thesis by (simp add: put_exec [OF assms(1,4) s1(2)])
qed

lemma demo_pool: "has_pool demo_env"
  by (simp add: has_pool_def env_or_def demo_env_def)

lemma sample_version: "jget sample_config ''version'' = jint 4"
  by (simp add: sample_config_def jget_Cons)

lemma small_db_save:
  "ab_undo small_db = None" "compare_and_set sample_config small_db = install sample_config ''console'' ''settings_updated'' valid_row small_db"
  by (simp_all add: small_db_def compare_and_set_def valid_row_def sample_version neq_def)

theorem settings_refine_compare_and_set_witness:
  "exec adb_serve (settings_PUT demo_env (Some (save_request sample_config))) small_db =
     (case install sample_config ''console'' ''settings_updated'' valid_row small_db of (t, x) \<Rightarrow> (t, Inr x))"
  using settings_refine_compare_and_set [OF demo_pool small_db_save(1) sample_valid] by (simp only: small_db_save(2))

theorem second_save_refused_witness:
  "saved (snd (exec adb_serve (settings_PUT demo_env (Some (save_request sample_config))) small_db)) \<and>
   snd (exec adb_serve (settings_PUT demo_env (Some (save_request sample_config)))
     (fst (exec adb_serve (settings_PUT demo_env (Some (save_request sample_config))) small_db))) =
   Inr (refuse 409 ''settings changed since this page loaded; reload before saving'')"
proof -
  have e: "exec adb_serve (settings_PUT demo_env (Some (save_request sample_config))) small_db =
     (case install sample_config ''console'' ''settings_updated'' valid_row small_db of (t, x) \<Rightarrow> (t, Inr x))"
    by (simp only: put_exec [OF demo_pool sample_valid small_db_save(1)] small_db_save(2))
  have k: "saved (snd (exec adb_serve (settings_PUT demo_env (Some (save_request sample_config))) small_db))"
    by (simp add: e saved_def install_fields split: prod.split)
      (metis install_fields(3) snd_conv)
  show ?thesis
    using second_save_refused [OF demo_pool small_db_save(1) sample_valid sample_valid refl prod.collapse [symmetric] k] k
    by simp
qed

section \<open>Deciding a recommendation\<close>

text \<open>
  What may be written depends on the two rows the transaction read. A recommendation is decided once:
  it must be pending; a rejection keeps its payload; an approval stores a payload that passes the
  guardrails of the configuration read, marked as approved by the operator, with the evidence and
  the target of the recommendation itself. The audit row names the decision, and only then the
  transaction may commit.
\<close>

datatype deciding = Looking | GotRow jval | GotBoth jval jval | Changed string | Audited

definition kept_fields :: "string list" where
  "kept_fields = [''target_identity'', ''confidence'', ''explanation'', ''endpoint_scope'']"

definition approvable :: "jval \<Rightarrow> jval \<Rightarrow> jval \<Rightarrow> bool" where
  "approvable old config p \<longleftrightarrow> validateRecommendationEdit p config = Inr None \<and> jget p ''source'' = JStr ''approved'' \<and>
     jget p ''issued_by'' = JStr ''operator'' \<and> list_all (\<lambda>k. jget p k = jget (JObj (spread old)) k) kept_fields"

definition decision_ok :: "jval \<Rightarrow> jval \<Rightarrow> string \<Rightarrow> jval \<Rightarrow> bool" where
  "decision_ok old config status p \<longleftrightarrow> (status = ''rejected'' \<and> p = old) \<or> (status = ''approved'' \<and> approvable old config p)"

definition may_decide :: "jval \<Rightarrow> jval \<Rightarrow> string \<Rightarrow> jval \<Rightarrow> bool" where
  "may_decide rowResult settingsResult status p = (case (row0 rowResult, row0 settingsResult) of
       (Inr row, Inr first) \<Rightarrow> jget row ''status'' = JStr ''pending_approval'' \<and>
         decision_ok (jget row ''payload'') (jget first ''config'') status p
     | _ \<Rightarrow> False)"

fun rec_allow :: "string \<Rightarrow> deciding \<Rightarrow> cmd \<Rightarrow> bool" where
  "rec_allow rid s (PQuery (UpdateRecommendation i action status by ex p)) =
     (i = rid \<and> action = jget p ''action'' \<and> by = ''operator'' \<and> (case s of GotBoth a b \<Rightarrow> may_decide a b status p | _ \<Rightarrow> False))"
| "rec_allow rid s (PQuery (InsertAudit i event actor d)) = (i = JStr rid \<and> actor = ''operator'' \<and> s = Changed event)"
| "rec_allow rid s (PQuery Commit) = (s = Audited)"
| "rec_allow rid s (PQuery q) = (\<not> writes q)"
| "rec_allow rid s (RDel ks) = False"
| "rec_allow rid s (RSet k v) = False"
| "rec_allow rid s (RXAdd k v) = False"
| "rec_allow rid s c = True"

fun rec_step :: "deciding \<Rightarrow> cmd \<Rightarrow> reply \<Rightarrow> deciding" where
  "rec_step s (PQuery (SelectRecommendationForUpdate i)) (Inr v) = GotRow v"
| "rec_step (GotRow a) (PQuery SelectConfig) (Inr v) = GotBoth a v"
| "rec_step s (PQuery (UpdateRecommendation i action status by ex p)) (Inr v) = Changed status"
| "rec_step s (PQuery (InsertAudit i event actor d)) (Inr v) = Audited"
| "rec_step s c r = s"

abbreviation decides :: "string \<Rightarrow> 'a svc \<Rightarrow> (deciding \<Rightarrow> 'a \<Rightarrow> bool) \<Rightarrow> deciding \<Rightarrow> bool" where
  "decides rid \<equiv> phase (rec_allow rid) (\<lambda>s c r. True) rec_step"

lemma phase_query:
  "allow s (PQuery q) \<Longrightarrow> (\<And>v. phase allow assm step (f v) W (step s (PQuery q) (Inr v))) \<Longrightarrow>
     phase allow assm step (next_do (query q) f) W s"
  unfolding query_def phase_def follows_next_do follows_await by (auto split: sum.split)

lemma phase_of_sum:
  "(\<And>a. x = Inr a \<Longrightarrow> phase allow assm step (f a) W s) \<Longrightarrow> phase allow assm step (next_do (of_sum x) f) W s"
  unfolding phase_def follows_next_do by (cases x) (simp_all add: follows_leaf)

lemma phase_if:
  "(b \<Longrightarrow> phase allow assm step p W s) \<Longrightarrow> (\<not> b \<Longrightarrow> phase allow assm step q W s) \<Longrightarrow>
     phase allow assm step (if b then p else q) W s"
  by simp

lemma phase_option:
  "(x = None \<Longrightarrow> phase allow assm step p W s) \<Longrightarrow> (\<And>a. x = Some a \<Longrightarrow> phase allow assm step (q a) W s) \<Longrightarrow>
     phase allow assm step (case x of None \<Rightarrow> p | Some a \<Rightarrow> q a) W s"
  by (cases x) simp_all

lemma follows_with_client:
  assumes "\<And>s. allow s PConnect \<and> allow s (PQuery Rollback) \<and> allow s PRelease" "\<And>s r. step s PConnect r = s"
    and body: "phase allow assm step body V s"
  shows "phase allow assm step (with_client body h) (\<lambda>s x. True) s"
proof -
  have rel: "follows allow assm step release (\<lambda>s' y. True) s'" for s'
    using assms(1) by (simp add: release_def follows_leaf)
  have rb: "follows allow assm step rollback (\<lambda>s' y. True) s'" for s'
    using assms(1) unfolding rollback_def query_def follows_or_else follows_discard follows_await by (auto split: sum.split)
  have "follows allow assm step (try_finally (try_catch body (\<lambda>e. next_do rollback (\<lambda>_. ok (h e)))) release) (\<lambda>s' x. True) s"
    unfolding follows_try_finally follows_try_catch
    by (rule follows_mono [OF body [unfolded phase_def]])
      (auto simp: follows_next_do follows_leaf rel intro!: follows_mono [OF rb] follows_mono [OF rel] split: sum.split)
  then show ?thesis
    using assms(1,2) unfolding with_client_def phase_def follows_next_do follows_await
    by (auto split: sum.split elim!: follows_mono)
qed

lemma approved_fields:
  "approved_payload payload edits now = Inr p \<Longrightarrow>
     (\<exists>d. p = JObj d) \<and> jget p ''source'' = JStr ''approved'' \<and> jget p ''issued_by'' = JStr ''operator'' \<and>
     list_all (\<lambda>k. jget p k = jget (JObj (spread payload)) k) kept_fields"
  by (auto simp: approved_payload_def sbind_def dput_all_def kept_fields_def jget_JObj split: sum.splits)

lemma edit_ignores_expiry:
  "validateRecommendationEdit (jset (JObj d) ''expires_at'' x) config = validateRecommendationEdit (JObj d) config"
  by (simp only: validateRecommendationEdit_def jget_jset) simp

lemma approved_ok:
  assumes "approved_payload payload edits now = Inr p" "validateRecommendationEdit p config = Inr None"
  shows "decision_ok payload config ''approved'' (jset p ''expires_at'' x)"
proof -
  obtain d where d: "p = JObj d" using approved_fields [OF assms(1)] by blast
  have "list_all (\<lambda>k. jget (jset p ''expires_at'' x) k = jget p k) kept_fields"
    by (simp add: kept_fields_def d jget_jset)
  moreover have "jget (jset p ''expires_at'' x) ''source'' = jget p ''source''" "jget (jset p ''expires_at'' x) ''issued_by'' = jget p ''issued_by''"
    by (simp_all add: d jget_jset)
  ultimately show ?thesis
    using approved_fields [OF assms(1)] assms(2) edit_ignores_expiry [of d x config]
    by (auto simp: decision_ok_def approvable_def d list_all_iff)
qed

lemma decides_decide:
  "decides rid (decide b payload config) (\<lambda>s' (status, p). s' = s \<and> decision_ok payload config status p) s"
proof -
  have now: "decides rid (await Now) (\<lambda>s' v. s' = s') s'" for s'
    by (rule phase_await) simp_all
  show ?thesis unfolding decide_def
  proof (intro phase_if phase_leaf, goal_cases)
    case 2
    show ?case
    proof (rule phase_next [OF phase_await [where V = "\<lambda>s' v. s' = s"]], simp, simp, intro phase_of_sum, goal_cases)
      case (1 s' now p problem)
      show ?case
      proof (cases problem)
        case None
        then show ?thesis
          using 1 by (auto intro!: phase_next [OF phase_await [where V = "\<lambda>s' v. s' = s"]] phase_of_sum phase_leaf approved_ok)
      qed (simp add: phase_leaf)
    qed
  qed (simp add: decision_ok_def)
qed

lemma PATCH_decides: "decides rid (recommendation_PATCH env rid body) (\<lambda>s x. True) Looking"
proof -
  have tail: "decides rid (next_do (of_sum (dot payload ''action'')) (\<lambda>action.
      next_do (query (UpdateRecommendation rid action status ''operator'' (jget payload ''expires_at'') payload)) (\<lambda>_.
      next_do (query (InsertAudit (JStr rid) status ''operator'' d)) (\<lambda>_.
      next_do (query Commit) (\<lambda>_. ok r))))) (\<lambda>s x. True) (GotBoth x y)"
    if "may_decide x y status payload" for payload status d x y r
    using that by (intro phase_of_sum phase_query phase_leaf) (auto simp: dot_def split: if_splits)
  have body: "decides rid (next_do (query Begin) (\<lambda>_.
             next_do (query (SelectRecommendationForUpdate rid)) (\<lambda>rowResult.
             next_do (query SelectConfig) (\<lambda>settingsResult.
             next_do (of_sum (row0 rowResult)) (\<lambda>row.
             next_do (of_sum (row0 settingsResult)) (\<lambda>first.
             let config = jget first ''config'' in
             if \<not> truthy row \<or> \<not> truthy config then throw (ApiError 404 ''recommendation or settings not found'')
             else if jget row ''status'' \<noteq> JStr ''pending_approval'' then throw (ApiError 409 ''recommendation is no longer pending'')
             else next_do (decide b (jget row ''payload'') config) (\<lambda>(status, payload).
             next_do (of_sum (dot payload ''action'')) (\<lambda>action.
             next_do (query (UpdateRecommendation rid action status (username (gate_user (requireRole ''operator'')))
                 (jget payload ''expires_at'') payload)) (\<lambda>_.
             next_do (query (InsertAudit (JStr rid) status (username (gate_user (requireRole ''operator'')))
                 (JObj [(''edited'', jor (jget b ''edits'') (JObj []))]))) (\<lambda>_.
             next_do (query Commit) (\<lambda>_.
               ok (json [(''ok'', JBool True), (''policyId'', JStr rid), (''status'', JStr status)])))))))))))) (\<lambda>s x. True) Looking" for b
    unfolding Let_def
    by (intro phase_query phase_of_sum phase_if phase_leaf)
      (auto intro!: phase_next [OF decides_decide] tail simp: may_decide_def)
  show ?thesis
    unfolding recommendation_PATCH_def gated_require
    by (intro phase_if phase_option phase_of_sum phase_leaf follows_with_client [OF _ _ body]) simp_all
qed

definition decision_run_ok :: "string \<Rightarrow> http svc \<Rightarrow> reply list \<Rightarrow> bool" where
  "decision_run_ok rid p rs = obeys (rec_allow rid) rec_step Looking (fst (run p rs))"

text \<open>Property C1. A recommendation is decided at most once and only within the guardrails: whatever the
  database answers, the request updates a row only if that row was pending, an approved payload
  passes the guardrails of the configuration read in the same transaction and keeps the target and
  the evidence of the recommendation, a rejection changes nothing but the status, and the commit
  comes after the audit row that names the decision.\<close>

theorem recommendation_decided_within_guardrails:
  "decision_run_ok rid (recommendation_PATCH env rid body) rs"
  unfolding decision_run_ok_def
  by (rule follows_obeys [OF PATCH_decides [unfolded phase_def]]) simp

section \<open>Overrides only ask\<close>

text \<open>
  Neither route enforces anything: the only effect is an entry on the stream the decision engine
  reads, for a valid address and a known action, in the operator's name. An emergency entry is
  bounded by the stored configuration and follows an accepted audit row for the same policy.
\<close>

definition entry_get :: "(string \<times> jval) list \<Rightarrow> string \<Rightarrow> jval" where
  "entry_get entry k = jget (JObj entry) k"

definition override_ok :: "string list \<Rightarrow> (string \<times> jval) list \<Rightarrow> bool" where
  "override_ok actions entry \<longleftrightarrow> entry_get entry ''actor'' = JStr ''operator'' \<and> isAddress (to_str (entry_get entry ''ip'')) \<and>
     one_of actions (entry_get entry ''action'')"

definition override_allow :: "env \<Rightarrow> cmd \<Rightarrow> bool" where
  "override_allow env c = (case c of RConnect \<Rightarrow> True
     | RXAdd st entry \<Rightarrow> st = OVERRIDE_STREAM env \<and> override_ok OVERRIDE_ACTIONS entry | _ \<Rightarrow> False)"

datatype emergency = Fresh | Configured jval | Requested jval jval

text \<open>A whole number of seconds, at least 30 and, when the stored maximum is a number, at most that.\<close>

definition bounded_by :: "jval \<Rightarrow> jval \<Rightarrow> bool" where
  "bounded_by settingsResult duration = (case row0 settingsResult of
       Inr first \<Rightarrow> is_integer duration \<and> jle (jint 30) duration \<and>
         (maximum_duration (jget first ''config'') = NaN \<or> nle (to_num duration) (maximum_duration (jget first ''config'')))
     | Inl e \<Rightarrow> False)"

fun emergency_allow :: "env \<Rightarrow> emergency \<Rightarrow> cmd \<Rightarrow> bool" where
  "emergency_allow env s (PPool (InsertAudit i event actor d)) =
     (actor = ''operator'' \<and> (event = ''emergency_failed'' \<or>
       event = ''emergency_requested'' \<and> (case s of Configured v \<Rightarrow> bounded_by v (jget d ''duration'') | _ \<Rightarrow> False)))"
| "emergency_allow env s (PPool q) = (q = SelectConfig)"
| "emergency_allow env s (RXAdd st entry) = (st = OVERRIDE_STREAM env \<and> override_ok EMERGENCY_ACTIONS entry \<and>
     entry_get entry ''emergency'' = JStr ''true'' \<and> (case s of
       Requested i d \<Rightarrow> entry_get entry ''policy_id'' = i \<and> entry_get entry ''ip'' = jget d ''target'' \<and>
         entry_get entry ''action'' = jget d ''action'' \<and> entry_get entry ''reason'' = jget d ''reason'' \<and>
         entry_get entry ''ttl_seconds'' = JStr (to_str (jget d ''duration''))
     | _ \<Rightarrow> False))"
| "emergency_allow env s c = (c = RConnect \<or> c = Uuid)"

fun emergency_step :: "emergency \<Rightarrow> cmd \<Rightarrow> reply \<Rightarrow> emergency" where
  "emergency_step s (PPool SelectConfig) (Inr v) = Configured v"
| "emergency_step s (PPool (InsertAudit i event actor d)) (Inr v) = (if event = ''emergency_requested'' then Requested i d else s)"
| "emergency_step s c r = s"

abbreviation emergencies :: "env \<Rightarrow> 'a svc \<Rightarrow> (emergency \<Rightarrow> 'a \<Rightarrow> bool) \<Rightarrow> emergency \<Rightarrow> bool" where
  "emergencies env \<equiv> phase (emergency_allow env) (\<lambda>s c r. True) emergency_step"

lemma one_of_JStr [simp]: "one_of names (JStr s) \<longleftrightarrow> s \<in> set names"
  by (simp add: one_of_def)

lemma override_asks: "asks (override_allow env) (override_POST env body)"
  unfolding override_POST_def gated_require
  by (auto simp: Let_def override_allow_def override_ok_def entry_get_def jget_JObj dget_Cons
      intro!: asks_intros split: option.split)

lemma not_bad_duration:
  "\<not> bad_duration d (maximum_duration (jget first ''config'')) \<Longrightarrow> row0 v = Inr first \<Longrightarrow> bounded_by v (JNum d)"
  using not_nle [of d "Fin 30"] not_nle [of d "maximum_duration (jget first ''config'')"]
  by (cases d) (auto simp: bad_duration_def bounded_by_def is_integer_def nis_int_def nlt_iff nle_total split: if_splits)

lemma emergency_run_ok:
  assumes "bounded_by v (JNum duration)" "isAddress target" "action \<in> set EMERGENCY_ACTIONS"
  shows "emergencies env (emergency_run env ''operator'' reason target action duration) (\<lambda>s x. True) (Configured v)"
proof -
  let ?d = "JObj [(''target'', JStr target), (''action'', JStr action), (''duration'', JNum duration), (''reason'', JStr reason)]"
  have failed: "emergencies env (next_do (or_else (discard (await (PPool (InsertAudit i ''emergency_failed'' ''operator'' d)))) ()) (\<lambda>_. ok r)) (\<lambda>s x. True) s" for i d r s
    unfolding phase_def follows_next_do follows_or_else follows_discard follows_await
    by (auto simp: follows_leaf split: sum.split)
  have body: "emergencies env (next_do (await (PPool (InsertAudit i ''emergency_requested'' ''operator'' ?d))) (\<lambda>_.
      next_do (await RConnect) (\<lambda>_.
      next_do (await (RXAdd (OVERRIDE_STREAM env) (emergency_entry i target action ''operator'' reason duration))) (\<lambda>_. ok r)))) (\<lambda>s x. True) (Configured v)" for i r
    using assms
    by (intro phase_next [OF phase_await [where V = "\<lambda>s x. s = Requested i ?d"]]
          phase_next [OF phase_await [where V = "\<lambda>s x. s = Requested i ?d"]] phase_next [OF phase_await [where V = "\<lambda>s x. True"]] phase_leaf)
      (auto simp: jget_JObj dget_Cons emergency_entry_def override_ok_def entry_get_def)
  show ?thesis unfolding emergency_run_def
    by (rule phase_next [OF phase_await [where V = "\<lambda>s x. s = Configured v"]]) (auto intro!: phase_try body failed)
qed

lemma emergency_POST_ok: "emergencies env (emergency_POST env body) (\<lambda>s x. True) Fresh"
proof -
  have cfg: "emergencies env (try_catch
       (next_do (await (PPool SelectConfig)) (\<lambda>v. next_do (of_sum (row0 v)) (\<lambda>r. ok (Inr (jget r ''config'')))))
       (\<lambda>e. ok (Inl (h e)))) (\<lambda>s u. case u of Inl r \<Rightarrow> True
         | Inr config \<Rightarrow> (\<exists>v r. s = Configured v \<and> row0 v = Inr r \<and> config = jget r ''config'')) Fresh" for h
    unfolding phase_def follows_try_catch follows_next_do follows_await
    by (auto simp: follows_leaf split: sum.split)
  show ?thesis
    unfolding emergency_POST_def gated_require Let_def
    by (intro phase_option phase_of_sum phase_if phase_leaf phase_next [OF cfg])
      (auto intro!: phase_leaf emergency_run_ok not_bad_duration split: sum.splits)
qed

definition emergency_trace_ok :: "env \<Rightarrow> http svc \<Rightarrow> reply list \<Rightarrow> bool" where
  "emergency_trace_ok env p rs = obeys (emergency_allow env) emergency_step Fresh (fst (run p rs))"

text \<open>Property C6. An override only asks the decision engine: all either route ever sends is one kind
  of stream entry, for a valid address and an action of its list, in the operator's name; an
  emergency entry carries the policy id, target, action and duration of an audit row that was
  accepted before it, and a duration of at least 30 seconds within the stored maximum.\<close>

theorem overrides_only_ask:
  "list_all (override_allow env) (calls (override_POST env body) rs) \<and>
   emergency_trace_ok env (emergency_POST env body) rs"
  using asks_calls [OF override_asks, of env body rs]
    follows_obeys [OF emergency_POST_ok [unfolded phase_def], of env body rs]
  by (simp add: list_all_iff emergency_trace_ok_def)

section \<open>Lifting a policy\<close>

text \<open>
  The address-wide key and its endpoint-scoped siblings are deleted, and only then is the revocation
  recorded, in one transaction.
\<close>

definition policy_family :: "string \<Rightarrow> string \<Rightarrow> bool" where
  "policy_family ip k \<longleftrightarrow> k = POLICY_PREFIX @ ip \<or> starts_with (POLICY_PREFIX @ ip @ '':'') k"

fun lift_allow :: "string \<Rightarrow> mark \<Rightarrow> cmd \<Rightarrow> bool" where
  "lift_allow ip s (RDel ks) = list_all (policy_family ip) ks"
| "lift_allow ip s (RScan p) = (p = POLICY_PREFIX @ ip @ '':*'')"
| "lift_allow ip s (RMGet ks) = list_all (policy_family ip) ks"
| "lift_allow ip s (PQuery q) = (s = Marked)"
| "lift_allow ip s c = (c = RConnect \<or> c = PConnect \<or> c = PRelease)"

fun lift_step :: "mark \<Rightarrow> cmd \<Rightarrow> reply \<Rightarrow> mark" where
  "lift_step s (RDel ks) r = (case r of Inl e \<Rightarrow> s | Inr v \<Rightarrow> Marked)"
| "lift_step s c r = s"

abbreviation lifts :: "string \<Rightarrow> 'a svc \<Rightarrow> (mark \<Rightarrow> 'a \<Rightarrow> bool) \<Rightarrow> mark \<Rightarrow> bool" where
  "lifts ip \<equiv> phase (lift_allow ip) scan_honest lift_step"

lemma family_pattern: "in_family (POLICY_PREFIX @ ip @ '':*'') k \<Longrightarrow> policy_family ip k"
  by (simp add: in_family_def policy_family_def butlast_append)

lemma lift_scan: "lifts ip (scanKeys (POLICY_PREFIX @ ip @ '':*'')) (\<lambda>s' ks. s' = s \<and> list_all (policy_family ip) ks) s"
  unfolding scanKeys_def
  by (rule phase_next [where V = "\<lambda>s' v. s' = s \<and> scan_honest s (RScan (POLICY_PREFIX @ ip @ '':*'')) (Inr v)"], rule phase_await, simp, simp,
      rule phase_next [where V = "\<lambda>s' ss. s' = s \<and> list_all (in_family (POLICY_PREFIX @ ip @ '':*'')) (concat (map step_keys ss))"], rule phase_leaf)
    (auto simp: scan_honest_def list_all_iff family_pattern simp del: list_all_append intro!: phase_leaf)

lemma asks_revoke: "asks pg_command (revoke_audit ids ip)"
  by (auto simp: revoke_audit_def with_client_def rollback_def query_def release_def pg_command_def intro!: asks_intros)

lemma lift_audit: "lifts ip (revoke_audit ids d) (\<lambda>s x. True) Marked"
proof (unfold phase_def, rule follows_unaffected [OF _ rets_True])
  have "pg_command c \<Longrightarrow> lift_allow ip Marked c \<and> (\<forall>r. lift_step Marked c r = Marked)" for c
    by (cases c) (auto simp: pg_command_def)
  then show "asks (\<lambda>c. lift_allow ip Marked c \<and> (\<forall>r. lift_step Marked c r = Marked)) (revoke_audit ids d)"
    by (rule asks_mono [OF asks_revoke])
qed (simp split: sum.split)

lemma lift_ok:
  assumes "decode address = Some text"
  shows "lifts (trim text) (policy_DELETE env decode parse address) (\<lambda>s x. True) Unmarked"
proof -
  let ?ip = "trim text"
  have connect: "lifts ?ip (await RConnect) (\<lambda>s' v. s' = s) s" for s by (rule phase_await) simp_all
  have del: "list_all (policy_family ?ip) ks \<Longrightarrow> lifts ?ip (await (RDel ks)) (\<lambda>s' v. s' = Marked) s" for ks s
    by (rule phase_await) simp_all
  have get: "list_all (policy_family ?ip) ks \<Longrightarrow> lifts ?ip (mGet ks) (\<lambda>s' v. s' = s) s" for ks s
    unfolding mGet_def by (rule phase_next [OF phase_await [where V = "\<lambda>s' v. s' = s"]]) (auto intro: phase_leaf)
  have own: "list_all (policy_family ?ip) found \<Longrightarrow> list_all (policy_family ?ip) (found @ [POLICY_PREFIX @ ?ip])" for found
    by (simp add: policy_family_def)
  have rest: "lifts ?ip (next_do (mGet keys) (\<lambda>values. next_do (await (RDel keys)) (\<lambda>removed.
      next_do (if has_pool env \<and> policy_ids parse values \<noteq> [] then revoke_audit (policy_ids parse values) ?ip else ok False)
        (\<lambda>a. ok (r removed a))))) (\<lambda>s x. True) s" if "list_all (policy_family ?ip) keys" for keys r s
    by (rule phase_next [OF get [OF that]], rule phase_next [OF del [OF that]], rule phase_next [where V = "\<lambda>s x. True"])
      (auto intro: lift_audit phase_leaf)
  show ?thesis
    unfolding policy_DELETE_def gated_require assms option.case Let_def
    by (intro phase_if phase_leaf phase_try phase_next [OF connect] phase_next [OF lift_scan] rest own) simp_all
qed

definition lift_run_ok :: "string \<Rightarrow> http svc \<Rightarrow> reply list \<Rightarrow> bool" where
  "lift_run_ok ip p rs = obeys (lift_allow ip) lift_step Unmarked (fst (run p rs))"

text \<open>The answer's \<open>auditRecorded\<close> is about the durable store.\<close>

definition reports_audit :: "pg \<Rightarrow> jserr + http \<Rightarrow> bool" where
  "reports_audit s x = (case x of Inl e \<Rightarrow> durable s = 0
     | Inr r \<Rightarrow> jget (snd r) ''auditRecorded'' = JBool True \<longleftrightarrow> durable s \<noteq> 0)"

lemma reports_audit_refuse: "durable s = 0 \<Longrightarrow> reports_audit s (Inr (refuse st m))"
  by (simp add: reports_audit_def refuse_def json_status_def jget_JObj dget_Cons)

lemma revoke_follows:
  "tx_follows (revoke_audit ids ip) (\<lambda>s x. case x of Inl e \<Rightarrow> s = Refused | Inr b \<Rightarrow> (b \<longleftrightarrow> durable s \<noteq> 0)) Idle"
proof -
  have each: "tx_body (\<lambda>n b. b \<and> 0 < n) (next_do (each (\<lambda>p. query (InsertAudit p e a d)) ps) (\<lambda>_. next_do (query Commit) (\<lambda>_. ok True))) (InTx (Suc n))" for ps e a d n
  proof (induction ps arbitrary: n)
    case Nil
    then show ?case by (auto intro!: tx_intros)
  next
    case (Cons p ps)
    show ?case unfolding each.simps
      by (intro tx_intros) (use Cons.IH [of "Suc n"] in \<open>auto simp: tx_body_def follows_next_do follows_leaf cong: sum.case_cong\<close>)
  qed
  show ?thesis unfolding revoke_audit_def
    by (rule with_client_follows [where G = "\<lambda>n b. b \<and> 0 < n"]) (auto intro!: tx_intros each)
qed

lemma lift_tx: "tx_follows (policy_DELETE env decode parse address) reports_audit Idle"
proof -
  have asks: "asks bystander (await RConnect)" "asks bystander (scanKeys p)" "asks bystander (mGet ks)" "asks bystander (await (RDel ks))" for p ks
    by (auto simp: scanKeys_def mGet_def bystander_def intro!: asks_intros)
  have skip: "tx_follows (next_do p f) Q Idle" if "asks bystander p" "\<And>a. tx_follows (f a) Q Idle" "\<And>e. Q Idle (Inl e)"
    for p :: "'z svc" and f :: "'z \<Rightarrow> http svc" and Q
    unfolding follows_next_do by (rule tx_bystander [OF that(1) rets_True]) (auto simp: that split: sum.split)
  let ?Q = "\<lambda>s x. case x of Inl e \<Rightarrow> durable s = 0 | Inr r \<Rightarrow> reports_audit s (Inr r)"
  have audit: "tx_follows (next_do (if b then revoke_audit ids ip else ok False) (\<lambda>a. ok (json [(''ok'', JBool True), (''ip'', JStr ip), (''removed'', r), (''auditRecorded'', JBool a)]))) ?Q Idle"
    for b ids ip r
    unfolding follows_next_do
    by (auto simp: follows_leaf reports_audit_def json_def jget_JObj dget_Cons split: sum.split intro!: follows_mono [OF revoke_follows])
  have main: "tx_follows (next_do (await RConnect) (\<lambda>_.
             next_do (scanKeys (POLICY_PREFIX @ ip @ '':*'')) (\<lambda>found.
             let keys = found @ [POLICY_PREFIX @ ip] in
             next_do (mGet keys) (\<lambda>values.
             let ids = policy_ids parse values in
             next_do (await (RDel keys)) (\<lambda>removed.
             next_do (if has_pool env \<and> ids \<noteq> [] then revoke_audit ids ip else ok False) (\<lambda>auditRecorded.
               ok (json [(''ok'', JBool True), (''ip'', JStr ip), (''removed'', JBool (jlt (jint 0) removed)),
                         (''auditRecorded'', JBool auditRecorded)])))))))  ?Q Idle" for ip
    unfolding Let_def by (intro skip asks audit) simp_all
  show ?thesis
  proof (cases "decode address")
    case None
    then show ?thesis by (simp add: policy_DELETE_def follows_leaf reports_audit_def)
  next
    case (Some t)
    have "tx_follows (try_catch p (\<lambda>e. ok (refuse 503 (err_message e)))) reports_audit Idle" if "tx_follows p ?Q Idle" for p
      unfolding follows_try_catch
      by (rule follows_mono [OF that]) (auto simp: follows_leaf reports_audit_refuse split: sum.splits)
    from this [OF main] show ?thesis
      unfolding policy_DELETE_def gated_require Some option.case Let_def [of "trim t"] follows_if follows_leaf
      by (simp only: reports_audit_refuse durable.simps simp_thms if_bool_eq_conj)
  qed
qed

text \<open>Property C15. Lifting a policy deletes only keys that begin with the address's own key, provided
  Redis returns matching keys for a scan, touches the durable store only after the deletion was
  accepted, keeps the transaction discipline, and says that the revocation was recorded exactly when
  its transaction committed.\<close>

theorem lifting_a_policy:
  assumes "decode address = Some text"
    and "trusted scan_honest lift_step Unmarked (fst (run (policy_DELETE env decode parse address) rs))"
  shows "lift_run_ok (trim text) (policy_DELETE env decode parse address) rs \<and> tx_run_ok (policy_DELETE env decode parse address) rs \<and>
    (case answer (policy_DELETE env decode parse address) rs of None \<Rightarrow> True
      | Some x \<Rightarrow> reports_audit (tx_state (policy_DELETE env decode parse address) rs) x)"
  using follows_obeys [OF lift_ok [where decode = decode and address = address, OF assms(1), unfolded phase_def] assms(2)] tx_run [OF lift_tx] tx_result [OF lift_tx]
  by (auto simp: lift_run_ok_def split: option.split)

text \<open>
  For an IPv6 address the family is too wide: lifting \<open>2001:db8::1\<close> also deletes the policy of
  \<open>2001:db8::1:5\<close>, whose key matches the pattern.
\<close>

definition lift_replies :: "reply list" where
  "lift_replies = [Inr JUndef, Inr (JArr [JStr ''policy:2001:db8::1:5'']), Inr (JArr [JNull, JNull]), Inr (jint 1)]"

theorem lifting_a_policy_witness:
  "isAddress ''2001:db8::1'' \<and> isAddress ''2001:db8::1:5'' \<and>
   lift_run_ok ''2001:db8::1'' (policy_DELETE no_env Some (\<lambda>t. None) ''2001:db8::1'') lift_replies \<and>
   RDel [POLICY_PREFIX @ ''2001:db8::1:5'', POLICY_PREFIX @ ''2001:db8::1''] \<in>
     set (calls (policy_DELETE no_env Some (\<lambda>t. None) ''2001:db8::1'') lift_replies)"
proof -
  have a1: "isIP ''2001:db8::1'' = 6" by code_simp
  have a2: "isIP ''2001:db8::1:5'' = 6" by code_simp
  have a: "isAddress ''2001:db8::1''" "isAddress ''2001:db8::1:5''" by (simp_all add: isAddress_def a1 a2)
  have t: "trim ''2001:db8::1'' = ''2001:db8::1''" by code_simp
  have h: "trusted scan_honest lift_step Unmarked (fst (run (policy_DELETE no_env Some (\<lambda>t. None) ''2001:db8::1'') lift_replies))"
    and c: "RDel [POLICY_PREFIX @ ''2001:db8::1:5'', POLICY_PREFIX @ ''2001:db8::1''] \<in>
      set (calls (policy_DELETE no_env Some (\<lambda>t. None) ''2001:db8::1'') lift_replies)"
    using a(1) by (simp_all add: policy_DELETE_def t Let_def lift_replies_def scanKeys_def mGet_def items_def step_keys_def text_of_def io_unfold
      policy_ids_def parseJson_def has_pool_def env_or_def no_env_def scan_honest_def in_family_def starts_with_def POLICY_PREFIX_def)
  show ?thesis using lifting_a_policy [OF refl h] a c t by simp
qed

end
