(* ===== verification/RoutesRead.thy ===== *)
theory RoutesRead
  imports SetupChecks RoutesAdaptive
begin

text \<open>
  The routes that only read: \<open>api/overview\<close>, \<open>api/events\<close>, \<open>api/ip/[address]\<close>, \<open>api/history\<close> and
  \<open>api/campaigns\<close>. \<open>decode\<close> reads the event a stream entry carries, \<open>parse\<close> is \<open>JSON.parse\<close>,
  \<open>decodeURI\<close> is \<open>decodeURIComponent\<close>; a query parameter is \<open>None\<close> when it is absent. The look-up
  cache of \<open>Geo\<close> is passed in and returned. An answer is a record of what the JSON body carries.
\<close>

section \<open>Stream entries\<close>

text \<open>An object of strings as the redis client returns it; a default parameter replaces \<open>undefined\<close>.\<close>

definition hash_fields :: "jval \<Rightarrow> jserr + (string \<times> string) list" where
  "hash_fields v = (case v of JNull \<Rightarrow> Inl TypeError
     | JObj d \<Rightarrow> Inr (map (\<lambda>(k, x). (k, text_of x)) d) | _ \<Rightarrow> Inr [])"

text \<open>An entry's id and the event it carries, if any.\<close>

type_synonym entry = "jval \<times> event option"
type_synonym row = "jval \<times> event"

definition stream_entry :: "(string \<Rightarrow> event option) \<Rightarrow> jval \<Rightarrow> jserr + entry" where
  "stream_entry decode e = sbind (dot e ''message'') (\<lambda>m. sbind (hash_fields m) (\<lambda>f.
     Inr (jget e ''id'', parseEventMessage decode f)))"

definition stream_entries :: "(string \<Rightarrow> event option) \<Rightarrow> jval \<Rightarrow> jserr + entry list" where
  "stream_entries decode v = sbind (items (jor v (JArr []))) (sum_map (stream_entry decode))"

definition rows_with :: "(event \<Rightarrow> bool) \<Rightarrow> entry list \<Rightarrow> row list" where
  "rows_with keep es = concat (map (\<lambda>(i, o'). case o' of None \<Rightarrow> [] | Some e \<Rightarrow> if keep e then [(i, e)] else []) es)"

text \<open>\<open>if (gate.denied) return gate.denied;\<close> for a route whose answer is a record; the gate of this console never denies.\<close>

definition gated_view :: "gate \<Rightarrow> 'a svc \<Rightarrow> 'a svc" where
  "gated_view g p = (case gate_denied g of None \<Rightarrow> p | Some r \<Rightarrow> throw (ApiError (fst r) ''denied''))"

lemma gated_view_require [simp]: "gated_view (requireRole r) p = p"
  by (simp add: gated_view_def requireRole_def)

section \<open>api/overview\<close>

definition VISIBLE_EVENTS :: nat where "VISIBLE_EVENTS = 80"
definition SETUP_WINDOW :: int where "SETUP_WINDOW = 500"

record located =
  lo_source :: source
  lo_private :: bool
  lo_lat :: jval
  lo_lon :: jval
  lo_city :: jval
  lo_country :: jval

definition locate :: "jval \<Rightarrow> source \<Rightarrow> located" where
  "locate geo r = (let p = isPrivateIP (src_ip r); loc = jget geo (src_ip r) in
     \<lparr>lo_source = r, lo_private = p,
      lo_lat = (if p then JNull else jcoalesce (jget loc ''lat'') JNull),
      lo_lon = (if p then JNull else jcoalesce (jget loc ''lon'') JNull),
      lo_city = (if p then JStr ''Private network'' else jor (jget loc ''city'') (JStr [])),
      lo_country = (if p then JStr ''RFC1918'' else jor (jget loc ''country'') (JStr []))\<rparr>)"

definition site_of :: "jval \<Rightarrow> located list \<Rightarrow> jval" where
  "site_of lab sources = (let ps = filter lo_private sources in
     if \<not> truthy lab then JNull
     else JObj (dput_all [(''requests'', jint (int (\<Sum>r\<leftarrow>ps. src_requests (lo_source r)))),
         (''alerts'', jint (int (\<Sum>r\<leftarrow>ps. src_alerts (lo_source r)))),
         (''ips'', JArr (map (\<lambda>r. JStr (src_ip (lo_source r))) ps))] (spread lab)))"

text \<open>The gateway's ranking, or the loudest sources of the window when it has published none.\<close>

definition attacker_row :: "jval \<Rightarrow> jserr + (jval \<times> jval)" where
  "attacker_row r = sbind (dot r ''value'') (\<lambda>v. Inr (v, jget r ''score''))"

definition loudest :: "source list \<Rightarrow> (jval \<times> jval) list" where
  "loudest summarized = map (\<lambda>r. (JStr (src_ip r), jint (int (src_alerts r))))
     (take 10 (js_sort (desc_by src_alerts) (filter (\<lambda>r. 0 < src_alerts r) summarized)))"

definition ranking :: "jval \<Rightarrow> source list \<Rightarrow> jserr + (jval \<times> jval) list" where
  "ranking attackers summarized = sbind (items (jor attackers (JArr []))) (\<lambda>xs.
     if xs \<noteq> [] then sum_map attacker_row xs else Inr (loudest summarized))"

record overview =
  ov_redis :: bool
  ov_error :: string
  ov_stats :: stats
  ov_attackers :: "(jval \<times> jval) list"
  ov_events :: "row list"
  ov_sources :: "located list"
  ov_site :: jval
  ov_setup :: "warning list"

definition no_stats :: stats where
  "no_stats = \<lparr>st_requests = Fin 0, st_alerts = Fin 0, st_decisions = [], st_signals = []\<rparr>"

definition overview_failed :: "jserr \<Rightarrow> overview" where
  "overview_failed e = \<lparr>ov_redis = False, ov_error = err_message e, ov_stats = no_stats, ov_attackers = [], ov_events = [],
     ov_sources = [], ov_site = JNull, ov_setup = []\<rparr>"

definition recent_rows :: "entry list \<Rightarrow> row list" where
  "recent_rows es = rows_with (\<lambda>e. \<not> isRoutineDockerHealthcheck e) es"

definition overview_of :: "jval \<Rightarrow> jval \<Rightarrow> row list \<Rightarrow> source list \<Rightarrow> jval \<Rightarrow> jval \<Rightarrow> jserr + overview" where
  "overview_of h attackers recent summarized geo lab =
     (let events = take VISIBLE_EVENTS recent; sources = map (locate geo) summarized in
      sbind (ranking attackers summarized) (\<lambda>ranked. sbind (hash_fields h) (\<lambda>fs. Inr
        \<lparr>ov_redis = True, ov_error = [],
         ov_stats = fst (withDerivedStats ((parseStats fs)\<lparr>st_requests := Fin 0\<rparr>) (map snd events)),
         ov_attackers = ranked, ov_events = events, ov_sources = sources, ov_site = site_of lab sources,
         ov_setup = setupChecks (map snd recent)\<rparr>)))"

text \<open>The cache keeps what was looked up even when the rest of the page fails.\<close>

definition overview_GET :: "(string \<Rightarrow> event option) \<Rightarrow> cache \<Rightarrow> (overview \<times> cache) svc" where
  "overview_GET decode cache = gated_view (requireRole ''viewer'') (try_catch
     (next_do (await RConnect) (\<lambda>_.
      next_do (both (await (RHGetAll ''iasg:stats'')) (both (await (RXRevRange ''iasg:events'' ''+'' (jint SETUP_WINDOW)))
          (await (RZTop ''iasg:attackers'')))) (\<lambda>(h, stream, attackers).
      next_do (of_sum (stream_entries decode stream)) (\<lambda>es.
      let recent = recent_rows es; summarized = summarizeSources (map snd (take VISIBLE_EVENTS recent)) in
      next_do (lookupGeo (map src_ip summarized) cache) (\<lambda>(geo, cache1).
      next_do (lookupSelfGeo cache1) (\<lambda>(lab, cache2).
        ok (case overview_of h attackers recent summarized geo lab of Inl e \<Rightarrow> overview_failed e | Inr o' \<Rightarrow> o', cache2)))))))
     (\<lambda>e. ok (overview_failed e, cache)))"

section \<open>api/events\<close>

definition MAX_LIMIT :: int where "MAX_LIMIT = 2000"
definition DEFAULT_LIMIT :: int where "DEFAULT_LIMIT = 250"
definition MAX_SCAN_BATCHES :: nat where "MAX_SCAN_BATCHES = 8"

text \<open>\<open>Number(params.get(k))\<close>: an absent parameter is \<open>null\<close>.\<close>

definition param_number :: "string option \<Rightarrow> jnum" where
  "param_number p = (case p of None \<Rightarrow> Fin 0 | Some t \<Rightarrow> str_to_num t)"

definition page_limit :: "string option \<Rightarrow> jnum" where
  "page_limit p = (let requested = param_number p in
     nmin (nint MAX_LIMIT) (nmax (Fin 1) (if nis_finite requested \<and> nlt (Fin 0) requested then requested else nint DEFAULT_LIMIT)))"

definition ip_filter :: "string option \<Rightarrow> string" where
  "ip_filter p = (let t = trim (case p of None \<Rightarrow> [] | Some t \<Rightarrow> t) in if isValidIp t then t else [])"

definition wanted :: "string \<Rightarrow> event \<Rightarrow> bool" where
  "wanted ip e \<longleftrightarrow> ip = [] \<or> ev_ip e = ip"

definition full_page :: "jnum \<Rightarrow> row list \<Rightarrow> bool" where
  "full_page limit events \<longleftrightarrow> nle limit (nint (int (length events)))"

text \<open>The inner loop over one batch: the page so far and the id of the last entry looked at.\<close>

fun read_batch :: "jnum \<Rightarrow> string \<Rightarrow> row list \<Rightarrow> jval \<Rightarrow> entry list \<Rightarrow> row list \<times> jval" where
  "read_batch limit ip events seen [] = (events, seen)"
| "read_batch limit ip events seen ((i, o') # es) =
     (let events' = events @ rows_with (wanted ip) [(i, o')] in
      if full_page limit events' then (events', i) else read_batch limit ip events' i es)"

text \<open>The outer loop: the page, the last entry looked at, and whether the stream's start was reached.\<close>

fun read_batches :: "(string \<Rightarrow> event option) \<Rightarrow> nat \<Rightarrow> jnum \<Rightarrow> string \<Rightarrow> string \<Rightarrow> row list \<Rightarrow> jval \<Rightarrow> (row list \<times> jval \<times> bool) svc" where
  "read_batches decode 0 limit ip cursor events seen = ok (events, seen, False)"
| "read_batches decode (Suc n) limit ip cursor events seen =
     (if full_page limit events then ok (events, seen, False) else
      next_do (await (RXRevRange ''iasg:events'' cursor (JNum limit))) (\<lambda>v.
      next_do (of_sum (stream_entries decode v)) (\<lambda>es.
      if es = [] then ok (events, seen, True)
      else (case read_batch limit ip events seen es of (events', seen') \<Rightarrow>
        if nlt (nint (int (length es))) limit then ok (events', seen', True)
        else read_batches decode n limit ip (''('' @ to_str seen') events' seen'))))"

record events_page =
  ep_redis :: bool
  ep_error :: string
  ep_events :: "row list"
  ep_total :: jval
  ep_ip :: "string option"
  ep_cursor :: jval

text \<open>A parenthesis makes the range exclusive.\<close>

definition start_cursor :: "string option \<Rightarrow> string" where
  "start_cursor before = (case before of None \<Rightarrow> ''+'' | Some b \<Rightarrow> if b = [] then ''+'' else ''('' @ b)"

definition events_GET :: "(string \<Rightarrow> event option) \<Rightarrow> string option \<Rightarrow> string option \<Rightarrow> string option \<Rightarrow> events_page svc" where
  "events_GET decode limit_param before ip_param = gated_view (requireRole ''viewer'')
     (let limit = page_limit limit_param; ip = ip_filter ip_param in try_catch
       (next_do (await RConnect) (\<lambda>_.
        next_do (or_else (await (RXLen ''iasg:events'')) (jint 0)) (\<lambda>total.
        next_do (read_batches decode MAX_SCAN_BATCHES limit ip
            (start_cursor before) [] JNull) (\<lambda>(events, seen, reachedStart).
          ok \<lparr>ep_redis = True, ep_error = [], ep_events = events, ep_total = total,
              ep_ip = (if ip = [] then None else Some ip),
              ep_cursor = (if \<not> reachedStart \<and> truthy seen then seen else JNull)\<rparr>))))
       (\<lambda>e. ok \<lparr>ep_redis = False, ep_error = err_message e, ep_events = [], ep_total = jint 0, ep_ip = None, ep_cursor = JNull\<rparr>))"

section \<open>api/ip/[address]\<close>

definition SCAN_DEPTH :: int where "SCAN_DEPTH = 2000"

text \<open>\<open>Array.prototype.sort\<close> on texts compares code units.\<close>

fun code_le :: "string \<Rightarrow> string \<Rightarrow> bool" where
  "code_le [] t = True"
| "code_le (c # s) [] = False"
| "code_le (c # s) (d # t) = (if c = d then code_le s t else (of_char c :: nat) < of_char d)"

text \<open>\<open>(c.ips || []).includes(ip)\<close>\<close>

definition names_ip :: "string \<Rightarrow> jval \<Rightarrow> jserr + bool" where
  "names_ip ip c = (case jor (jget c ''ips'') (JArr []) of
       JArr xs \<Rightarrow> Inr (JStr ip \<in> set xs) | JStr s \<Rightarrow> Inr (contains ip s) | _ \<Rightarrow> Inl TypeError)"

fun sum_filter :: "('b \<Rightarrow> 'e + bool) \<Rightarrow> 'b list \<Rightarrow> 'e + 'b list" where
  "sum_filter f [] = Inr []"
| "sum_filter f (x # xs) = sbind (f x) (\<lambda>b. sbind (sum_filter f xs) (\<lambda>ys. Inr (if b then x # ys else ys)))"

text \<open>\<open>Object.entries(tally).sort((a, b) => b[1] - a[1])\<close>\<close>

definition ranked_tally :: "string list \<Rightarrow> (string \<times> nat) list" where
  "ranked_tally names = js_sort (desc_by snd) (index_sorted (tally names []))"

record address_summary =
  as_requests :: nat
  as_alerts :: nat
  as_first :: "string option"
  as_last :: "string option"
  as_signals :: "(string \<times> nat) list"
  as_paths :: "(string \<times> nat) list"
  as_statuses :: "(string \<times> nat) list"
  as_decisions :: "(string \<times> nat) list"
  as_scanned :: jval

definition event_times :: "event list \<Rightarrow> string list" where
  "event_times events = js_sort code_le (filter (\<lambda>t. t \<noteq> []) (map ev_ts events))"

definition summarize_address :: "event list \<Rightarrow> jval \<Rightarrow> address_summary" where
  "summarize_address events scanned = (let times = event_times events in
     \<lparr>as_requests = length events, as_alerts = length (filter fired_any events),
      as_first = (if times = [] then None else Some (hd times)), as_last = (if times = [] then None else Some (last times)),
      as_signals = ranked_tally (concat (map (\<lambda>e. canonicalSignals (ev_fired e)) events)),
      as_paths = take 12 (ranked_tally (filter (\<lambda>p. p \<noteq> []) (map ev_path events))),
      as_statuses = ranked_tally (map (\<lambda>e. show_int (ev_status e)) (filter (\<lambda>e. ev_status e \<noteq> 0) events)),
      as_decisions = ranked_tally (filter (\<lambda>d. d \<noteq> []) (map ev_decision events)), as_scanned = scanned\<rparr>)"

record investigation =
  iv_redis :: bool
  iv_error :: string
  iv_ip :: string
  iv_private :: bool
  iv_location :: "(string \<times> jval) list"
  iv_policy :: "policy_row option"
  iv_campaigns :: "jval list"
  iv_events :: "row list"
  iv_summary :: "address_summary option"
  iv_latest :: jval

definition location_of :: "bool \<Rightarrow> jval \<Rightarrow> (string \<times> jval) list" where
  "location_of priv loc = (if priv
     then [(''city'', JStr ''Private network''), (''country'', JStr ''RFC1918''), (''lat'', JNull), (''lon'', JNull)]
     else [(''city'', or_text (jget loc ''city'')), (''country'', or_text (jget loc ''country'')),
           (''lat'', jcoalesce (jget loc ''lat'') JNull), (''lon'', jcoalesce (jget loc ''lon'') JNull)])"

definition investigation_failed :: "string \<Rightarrow> jserr \<Rightarrow> investigation" where
  "investigation_failed ip e = \<lparr>iv_redis = False, iv_error = err_message e, iv_ip = ip, iv_private = False, iv_location = [],
     iv_policy = None, iv_campaigns = [], iv_events = [], iv_summary = None, iv_latest = JNull\<rparr>"

definition investigate :: "(string \<Rightarrow> jval option) \<Rightarrow> string \<Rightarrow> row list \<Rightarrow> jval \<Rightarrow> policy_row option \<Rightarrow> jval list \<Rightarrow> jval \<Rightarrow> jval \<Rightarrow> jserr + investigation" where
  "investigate parse ip events scanned policy campaigns geo latest =
     sbind (sum_filter (names_ip ip) campaigns) (\<lambda>cs. Inr
       \<lparr>iv_redis = True, iv_error = [], iv_ip = ip, iv_private = isPrivateIP ip,
        iv_location = location_of (isPrivateIP ip) (jget geo ip), iv_policy = policy, iv_campaigns = cs,
        iv_events = events, iv_summary = Some (summarize_address (map snd events) scanned), iv_latest = parseJson parse latest\<rparr>)"

text \<open>\<open>None\<close> is the answer 400 to an empty address.\<close>

definition ip_GET :: "(string \<Rightarrow> event option) \<Rightarrow> (string \<Rightarrow> jval option) \<Rightarrow> (string \<Rightarrow> string option) \<Rightarrow> string \<Rightarrow> cache \<Rightarrow>
    (investigation option \<times> cache) svc" where
  "ip_GET decode parse decodeURI address cache = gated_view (requireRole ''viewer'')
     (case decodeURI address of None \<Rightarrow> throw (ServiceError ''URI malformed'')
      | Some ip \<Rightarrow> if ip = [] then ok (None, cache) else try_catch
          (next_do (await RConnect) (\<lambda>_.
           next_do (both (await (RXRevRange ''iasg:events'' ''+'' (jint SCAN_DEPTH))) (both (readCampaigns parse)
               (both (readPolicyFor parse ip) (or_else (await (RGet (''iasg:ip:'' @ ip @ '':latest''))) JNull)))) (\<lambda>(v, campaigns, policy, latest).
           next_do (of_sum (stream_entries decode v)) (\<lambda>es.
           let events = rows_with (\<lambda>e. ev_ip e = ip) es in
           next_do (if isPrivateIP ip then ok (JObj [], cache) else lookupGeo [ip] cache) (\<lambda>(geo, cache1).
             ok (Some (case investigate parse ip events (jor (jget v ''length'') (jint 0)) policy campaigns geo latest of
               Inl e \<Rightarrow> investigation_failed ip e | Inr iv \<Rightarrow> iv), cache1))))))
          (\<lambda>e. ok (Some (investigation_failed ip e), cache)))"

section \<open>api/history\<close>

text \<open>\<open>Math.min(Number(limit || 40) || 40, 200)\<close>\<close>

definition history_limit :: "string option \<Rightarrow> jnum" where
  "history_limit p = (let n = (case p of None \<Rightarrow> Fin 40 | Some t \<Rightarrow> if t = [] then Fin 40 else str_to_num t) in
     nmin (if truthy (JNum n) then n else Fin 40) (Fin 200))"

definition history_campaign :: "jval \<Rightarrow> jval" where
  "history_campaign r = JObj
    [(''id'', JStr (to_str (jget r ''campaign_id''))), (''type'', jget r ''type''), (''severity'', jget r ''severity''),
     (''confidence'', jnumber (jget r ''confidence'')), (''status'', jget r ''status''),
     (''ipCount'', jget (jor (jget r ''ips'') (JArr [])) ''length''), (''stages'', jor (jget r ''stages'') (JArr [])),
     (''events'', jget r ''event_count''), (''rotations'', jget r ''rotations''), (''persistence'', jget r ''persistence''),
     (''lastAction'', jor (jget r ''last_action'') (JStr [])), (''outcome'', jor (jget r ''outcome'') (JStr [])),
     (''firstSeen'', jget r ''first_seen''), (''lastSeen'', jget r ''last_seen'')]"

definition history_type :: "jval \<Rightarrow> jval" where
  "history_type r = JObj
    [(''type'', jget r ''type''), (''campaigns'', jnumber (jget r ''campaigns'')), (''events'', jnumber (jget r ''events'')),
     (''avgConfidence'', jnumber (jget r ''avg_confidence'')), (''contained'', jnumber (jget r ''contained''))]"

definition history_body :: "jval \<Rightarrow> jval \<Rightarrow> jval \<Rightarrow> jserr + http" where
  "history_body recent byType number = sbind (row0 number) (\<lambda>t. sbind (map_rows history_campaign recent) (\<lambda>cs.
     sbind (map_rows history_type byType) (\<lambda>ts. Inr (json
       [(''available'', JBool True), (''total'', jcoalesce (jget t ''n'') (jint 0)), (''campaigns'', cs), (''byType'', ts)]))))"

definition history_GET :: "env \<Rightarrow> string option \<Rightarrow> http svc" where
  "history_GET env limit_param = gated (requireRole ''viewer'')
     (if \<not> has_pool env
      then ok (json [(''available'', JBool False), (''campaigns'', JArr []), (''byType'', JArr []), (''total'', jint 0)])
      else try_catch
        (next_do (pool_all [RecentCampaigns (JNum (history_limit limit_param)), CampaignsByType, CountCampaigns]) (\<lambda>rs.
           of_sum (history_body (rs ! 0) (rs ! 1) (rs ! 2))))
        (\<lambda>e. ok (json [(''available'', JBool False), (''error'', JStr (err_message e)), (''campaigns'', JArr []),
                 (''byType'', JArr []), (''total'', jint 0)])))"

section \<open>api/campaigns\<close>

record campaigns_view =
  cv_redis :: bool
  cv_error :: string
  cv_campaigns :: "jval list"
  cv_policies :: "policy_row list"
  cv_alerts :: "jval list"
  cv_learned :: "learned list"
  cv_heartbeat :: "(string \<times> jval) list"
  cv_active :: nat

definition campaigns_failed :: "jserr \<Rightarrow> campaigns_view" where
  "campaigns_failed e = \<lparr>cv_redis = False, cv_error = err_message e, cv_campaigns = [], cv_policies = [], cv_alerts = [],
     cv_learned = [], cv_heartbeat = [(''alive'', JBool False)], cv_active = 0\<rparr>"

definition campaigns_GET :: "env \<Rightarrow> (string \<Rightarrow> jval option) \<Rightarrow> (jval \<Rightarrow> jnum) \<Rightarrow> campaigns_view svc" where
  "campaigns_GET env parse time_of = gated_view (requireRole ''viewer'') (try_catch
     (next_do (await RConnect) (\<lambda>_.
      next_do (both (readCampaigns parse) (both (readPolicies parse) (both readAlerts (both (readLearned parse)
          (readHeartbeat env parse time_of))))) (\<lambda>(campaigns, policies, alerts, learned, heartbeat).
        ok \<lparr>cv_redis = True, cv_error = [], cv_campaigns = campaigns, cv_policies = policies, cv_alerts = alerts,
            cv_learned = learned, cv_heartbeat = heartbeat,
            cv_active = length (filter (\<lambda>c. row_status c = JStr ''active'') campaigns)\<rparr>)))
     (\<lambda>e. ok (campaigns_failed e)))"

section \<open>Paging through the stream\<close>

text \<open>A stream, newest entry first, as Redis serves it: an id and the text of an event.\<close>

type_synonym stream_log = "(string \<times> string) list"

definition entry_json :: "string \<times> string \<Rightarrow> jval" where
  "entry_json x = JObj [(''id'', JStr (fst x)), (''message'', JObj [(''event'', JStr (snd x))])]"

definition entries_from :: "string \<Rightarrow> stream_log \<Rightarrow> stream_log" where
  "entries_from cursor st = (if cursor = ''+'' then st else tl (dropWhile (\<lambda>x. fst x \<noteq> tl cursor) st))"

definition stream_serve :: "stream_log \<Rightarrow> cmd \<Rightarrow> stream_log \<times> reply" where
  "stream_serve st c = (st, case c of
       RXRevRange key cursor n \<Rightarrow> (case n of JNum (Fin x) \<Rightarrow> Inr (JArr (map entry_json (take (nat \<lfloor>x\<rfloor>) (entries_from cursor st))))
         | _ \<Rightarrow> Inl (ServiceError ''ERR value is not an integer''))
     | RXLen key \<Rightarrow> Inr (jint (int (length st)))
     | _ \<Rightarrow> Inr JUndef)"

definition read_entry :: "(string \<Rightarrow> event option) \<Rightarrow> string \<times> string \<Rightarrow> entry" where
  "read_entry decode x = (JStr (fst x), if snd x = [] then None else decode (snd x))"

definition rows_of_log :: "(string \<Rightarrow> event option) \<Rightarrow> string \<Rightarrow> stream_log \<Rightarrow> row list" where
  "rows_of_log decode ip xs = rows_with (wanted ip) (map (read_entry decode) xs)"

lemma sum_map_Inr: "sum_map (\<lambda>x. Inr (f x)) xs = Inr (map f xs)"
  by (induction xs) (auto simp: sbind_def)

lemma sum_map_map: "sum_map g (map f xs) = sum_map (\<lambda>x. g (f x)) xs"
  by (induction xs) auto

lemma stream_entry_json: "stream_entry decode (entry_json x) = Inr (read_entry decode x)"
  by (simp add: stream_entry_def entry_json_def read_entry_def sbind_def dot_def nullish_def jget_JObj dget_Cons
      hash_fields_def text_of_def parseEventMessage_def)

lemma stream_entries_json: "stream_entries decode (JArr (map entry_json xs)) = Inr (map (read_entry decode) xs)"
  by (simp add: stream_entries_def jor_def items_def sbind_def sum_map_map stream_entry_json sum_map_Inr)

lemma rows_of_log_append: "rows_of_log decode ip (xs @ ys) = rows_of_log decode ip xs @ rows_of_log decode ip ys"
  by (simp add: rows_of_log_def rows_with_def)

lemma rows_of_log_one: "length (rows_of_log decode ip [x]) \<le> 1"
  by (simp add: rows_of_log_def rows_with_def read_entry_def split: option.split)

lemma full_page_nat [simp]: "full_page (Fin (of_nat n)) events \<longleftrightarrow> n \<le> length events"
  by (simp add: full_page_def)

definition last_id :: "jval \<Rightarrow> stream_log \<Rightarrow> jval" where
  "last_id s xs = (if xs = [] then s else JStr (fst (last xs)))"

lemma read_batch_Cons:
  "read_batch limit ip ev s (read_entry decode y # es) = (let ev' = ev @ rows_of_log decode ip [y] in
     if full_page limit ev' then (ev', JStr (fst y)) else read_batch limit ip ev' (JStr (fst y)) es)"
  by (simp add: read_entry_def rows_of_log_def Let_def)

lemma last_id_Nil [simp]: "last_id s [] = s"
  by (simp add: last_id_def)

lemma last_id_Cons [simp]: "last_id s (y # ys) = last_id (JStr (fst y)) ys"
  by (simp add: last_id_def)

lemma read_batch_spec:
  assumes "length ev < n"
  obtains j where "j \<le> length ys" "ys \<noteq> [] \<Longrightarrow> 0 < j"
    "read_batch (Fin (of_nat n)) ip ev s (map (read_entry decode) ys) = (ev @ rows_of_log decode ip (take j ys), last_id s (take j ys))"
    "length ev + length (rows_of_log decode ip (take j ys)) \<le> n"
    "length ev + length (rows_of_log decode ip (take j ys)) = n \<or> j = length ys"
  using assms
proof (induction ys arbitrary: ev s thesis)
  case Nil
  show ?case by (rule Nil(1) [of 0]) (use Nil(2) in \<open>simp_all add: rows_of_log_def rows_with_def\<close>)
next
  case (Cons y ys)
  let ?r = "rows_of_log decode ip [y]"
  show ?case
  proof (cases "n \<le> length (ev @ ?r)")
    case True
    show ?thesis
    proof (intro Cons.prems(1) [of 1], goal_cases)
      case 3
      show ?case using True by (simp add: read_batch_Cons)
    next
      case 4
      show ?case using rows_of_log_one [of decode ip y] Cons.prems(2) by simp
    next
      case 5
      show ?case using True rows_of_log_one [of decode ip y] Cons.prems(2) by simp
    qed simp_all
  next
    case False
    then have "length (ev @ ?r) < n" by simp
    from Cons.IH [OF _ this, of "JStr (fst y)"] obtain j where j: "j \<le> length ys"
      "read_batch (Fin (of_nat n)) ip (ev @ ?r) (JStr (fst y)) (map (read_entry decode) ys) =
         ((ev @ ?r) @ rows_of_log decode ip (take j ys), last_id (JStr (fst y)) (take j ys))"
      "length (ev @ ?r) + length (rows_of_log decode ip (take j ys)) \<le> n"
      "length (ev @ ?r) + length (rows_of_log decode ip (take j ys)) = n \<or> j = length ys" by blast
    have a: "rows_of_log decode ip (y # take j ys) = ?r @ rows_of_log decode ip (take j ys)"
      using rows_of_log_append [of decode ip "[y]" "take j ys"] by simp
    show ?thesis
    proof (rule Cons.prems(1) [of "Suc j"], goal_cases)
      case 3
      show ?case using False j(2) by (simp add: read_batch_Cons a)
    qed (use j in \<open>simp_all add: a add.assoc\<close>)
  qed
qed

lemma dropWhile_to: "distinct (map fst (ys @ x # zs)) \<Longrightarrow> dropWhile (\<lambda>e. fst e \<noteq> fst x) (ys @ x # zs) = x # zs"
  by (subst dropWhile_append2) (auto simp: rev_image_eqI)

text \<open>The cursor of an entry leads to what follows it.\<close>

lemma entries_after:
  assumes "distinct (map fst st)" "st = pre @ xs" "0 < j" "j \<le> length xs"
  shows "entries_from (''('' @ fst (last (take j xs))) st = drop j xs"
proof -
  let ?x = "last (take j xs)"
  have t: "take j xs = butlast (take j xs) @ [?x]" using assms(3,4) by (cases xs; cases j) auto
  have "st = (pre @ butlast (take j xs)) @ ?x # drop j xs"
    using t append_take_drop_id [of j xs] assms(2) by (metis append.assoc append_Cons append_Nil)
  then have "dropWhile (\<lambda>e. fst e \<noteq> fst ?x) st = ?x # drop j xs" using dropWhile_to assms(1) by metis
  then show ?thesis by (simp add: entries_from_def)
qed

lemma exec_scan_step:
  "exec stream_serve (next_do (await (RXRevRange key cursor (JNum (Fin (of_nat n))))) (\<lambda>v. next_do (of_sum (stream_entries decode v)) f)) st =
     exec stream_serve (f (map (read_entry decode) (take n (entries_from cursor st)))) st"
  by (simp add: exec_next_do exec_io stream_serve_def stream_entries_json)

text \<open>What a scan of at most \<open>fuel\<close> batches leaves: a page of the first \<open>k\<close> entries.\<close>

definition scan_result :: "(string \<Rightarrow> event option) \<Rightarrow> string \<Rightarrow> nat \<Rightarrow> nat \<Rightarrow> stream_log \<Rightarrow> row list \<Rightarrow> jval \<Rightarrow> nat \<Rightarrow> row list \<times> jval \<times> bool \<Rightarrow> bool" where
  "scan_result decode ip fuel n xs ev s k res = (case res of (events, seen, started) \<Rightarrow>
     k \<le> length xs \<and> events = ev @ rows_of_log decode ip (take k xs) \<and> seen = last_id s (take k xs) \<and> length events \<le> n \<and>
     (if started then k = length xs \<or> (length events = n \<and> length xs < k + n)
      else length events = n \<or> k = fuel * n))"

lemma read_batches_spec:
  assumes "distinct (map fst st)" "0 < n" "st = pre @ xs" "entries_from cursor st = xs" "length ev \<le> n"
  shows "\<exists>k res. exec stream_serve (read_batches decode fuel (Fin (of_nat n)) ip cursor ev s) st = (st, Inr res) \<and>
    scan_result decode ip fuel n xs ev s k res"
  using assms(3-)
proof (induction fuel arbitrary: pre xs cursor ev s)
  case 0
  show ?case by (rule exI [of _ 0], rule exI [of _ "(ev, s, False)"])
    (use 0 in \<open>simp add: exec_io scan_result_def rows_of_log_def rows_with_def last_id_def\<close>)
next
  case (Suc fuel)
  show ?case
  proof (cases "n \<le> length ev")
    case True
    then show ?thesis
      by (intro exI [of _ 0] exI [of _ "(ev, s, False)"])
        (use Suc.prems in \<open>simp add: exec_io scan_result_def rows_of_log_def rows_with_def last_id_def\<close>)
  next
    case False
    let ?ys = "take n xs"
    show ?thesis
    proof (cases "?ys = []")
      case True
      then have "xs = []" using assms(2) by simp
      then show ?thesis
        by (intro exI [of _ 0] exI [of _ "(ev, s, True)"])
          (use Suc.prems False in \<open>simp add: exec_scan_step exec_io scan_result_def rows_of_log_def rows_with_def last_id_def\<close>)
    next
      case ne: False
      from False have "length ev < n" by simp
      then obtain j where j: "j \<le> length ?ys" "?ys \<noteq> [] \<Longrightarrow> 0 < j"
        "read_batch (Fin (of_nat n)) ip ev s (map (read_entry decode) ?ys) = (ev @ rows_of_log decode ip (take j ?ys), last_id s (take j ?ys))"
        "length ev + length (rows_of_log decode ip (take j ?ys)) \<le> n"
        "length ev + length (rows_of_log decode ip (take j ?ys)) = n \<or> j = length ?ys"
        using read_batch_spec [of ev n ?ys ip s decode] by blast
      have tj: "take j ?ys = take j xs" using j(1) by (simp add: min_absorb1)
      let ?ev = "ev @ rows_of_log decode ip (take j xs)" and ?s = "last_id s (take j xs)"
      have step: "exec stream_serve (read_batches decode (Suc fuel) (Fin (of_nat n)) ip cursor ev s) st =
          exec stream_serve (if length ?ys < n then ok (?ev, ?s, True)
            else read_batches decode fuel (Fin (of_nat n)) ip (''('' @ to_str ?s) ?ev ?s) st"
        using False ne j(3) Suc.prems(2) tj by (simp add: exec_scan_step)
      show ?thesis
      proof (cases "length ?ys < n")
        case True
        then show ?thesis
          by (intro exI [of _ j] exI [of _ "(?ev, ?s, True)"]) (use j tj step in \<open>auto simp: exec_io scan_result_def\<close>)
      next
        case nl: False
        then have len: "length ?ys = n" by simp
        have j0: "0 < j" "j \<le> length xs" using j(1,2) ne by auto
        have st: "st = (pre @ take j xs) @ drop j xs" using Suc.prems(1) by simp
        have s: "?s = JStr (fst (last (take j xs)))" using j0 by (auto simp: last_id_def)
        have cur: "entries_from (''('' @ to_str ?s) st = drop j xs"
          using entries_after [OF assms(1) Suc.prems(1) j0] by (simp add: s)
        have "length ?ev \<le> n" using j(4) tj by simp
        from Suc.IH [OF st cur this] obtain k res where k:
          "exec stream_serve (read_batches decode fuel (Fin (of_nat n)) ip (''('' @ to_str ?s) ?ev ?s) st = (st, Inr res)"
          "scan_result decode ip fuel n (drop j xs) ?ev ?s k res" by blast
        obtain events seen started where res: "res = (events, seen, started)" by (cases res)
        have tk: "take (j + k) xs = take j xs @ take k (drop j xs)" by (simp add: take_add)
        have "seen = last_id s (take (j + k) xs)" using k(2) j0 by (auto simp: res scan_result_def last_id_def tk)
        moreover have "\<not> started \<Longrightarrow> length events = n \<or> j + k = Suc fuel * n"
          using k(2) j(5) tj len by (auto simp: res scan_result_def)
        ultimately have "scan_result decode ip (Suc fuel) n xs ev s (j + k) res"
          using k(2) j0 by (auto simp: res scan_result_def tk rows_of_log_append)
        then show ?thesis using k(1) step nl by auto
      qed
    qed
  qed
qed

definition stream_ok :: "stream_log \<Rightarrow> bool" where
  "stream_ok st \<longleftrightarrow> distinct (map fst st) \<and> [] \<notin> set (map fst st)"

text \<open>A page over the entries \<open>xs\<close>: the matching ones among the first \<open>k\<close>; a cursor leads to the rest.\<close>

definition page_ok :: "(string \<Rightarrow> event option) \<Rightarrow> string \<Rightarrow> nat \<Rightarrow> stream_log \<Rightarrow> stream_log \<Rightarrow> nat \<Rightarrow> events_page \<Rightarrow> bool" where
  "page_ok decode ip n st xs k page \<longleftrightarrow> ep_redis page \<and> k \<le> length xs \<and>
     ep_events page = rows_of_log decode ip (take k xs) \<and> length (ep_events page) \<le> n \<and>
     (case ep_cursor page of
        JStr c \<Rightarrow> c \<noteq> [] \<and> 0 < k \<and> entries_from (start_cursor (Some c)) st = drop k xs \<and>
          (length (ep_events page) = n \<or> k = MAX_SCAN_BATCHES * n)
      | JNull \<Rightarrow> k = length xs \<or> (length (ep_events page) = n \<and> length xs < k + n)
      | _ \<Rightarrow> False)"

lemma page_limit_pos: "page_limit p = Fin (of_nat n) \<Longrightarrow> 0 < n"
proof -
  assume a: "page_limit p = Fin (of_nat n)"
  define v where "v = (if nis_finite (param_number p) \<and> nlt (Fin 0) (param_number p) then param_number p else nint DEFAULT_LIMIT)"
  have "v \<noteq> NaN" by (auto simp: v_def nis_finite_def)
  then obtain x where x: "v = Fin x" by (cases v) (auto simp: v_def nis_finite_def split: if_splits)
  have "min 2000 (max 1 x) = (of_nat n :: rat)" using a by (simp add: page_limit_def Let_def v_def [symmetric] x MAX_LIMIT_def)
  then have "1 \<le> (of_nat n :: rat)" by linarith
  then show ?thesis by (cases n) auto
qed

text \<open>Property C13. A page of events is the newest matching part of what follows its starting point, at
  most as long as asked for, and its cursor leads exactly to the entries not yet looked at, so that
  paging skips and repeats nothing; a page without a cursor has looked at everything, or is full with
  fewer than one page of entries left behind it.\<close>

theorem events_pages_cover:
  assumes "stream_ok st" "page_limit limit_param = Fin (of_nat n)" "st = pre @ xs" "entries_from (start_cursor before) st = xs"
  shows "\<exists>k page. exec stream_serve (events_GET decode limit_param before ip_param) st = (st, Inr page) \<and>
    page_ok decode (ip_filter ip_param) n st xs k page"
proof -
  let ?ip = "ip_filter ip_param"
  have n: "0 < n" by (rule page_limit_pos [OF assms(2)])
  have d: "distinct (map fst st)" using assms(1) by (simp add: stream_ok_def)
  obtain k events seen started where k:
    "exec stream_serve (read_batches decode MAX_SCAN_BATCHES (Fin (of_nat n)) ?ip (start_cursor before) [] JNull) st = (st, Inr (events, seen, started))"
    "scan_result decode ?ip MAX_SCAN_BATCHES n xs [] JNull k (events, seen, started)"
    using read_batches_spec [OF d n assms(3,4), of "[]" decode MAX_SCAN_BATCHES ?ip JNull] by auto
  let ?page = "\<lparr>ep_redis = True, ep_error = [], ep_events = events, ep_total = jint (int (length st)),
      ep_ip = (if ?ip = [] then None else Some ?ip), ep_cursor = (if \<not> started \<and> truthy seen then seen else JNull)\<rparr>"
  have e: "exec stream_serve (events_GET decode limit_param before ip_param) st = (st, Inr ?page)"
    unfolding events_GET_def gated_view_require Let_def assms(2)
    by (simp add: exec_try_catch exec_next_do exec_io or_else_def stream_serve_def [of _ RConnect] stream_serve_def [of _ "RXLen _"] k(1))
  have "page_ok decode ?ip n st xs k ?page"
  proof (cases "take k xs = []")
    case True
    have "rows_of_log decode ?ip [] = []" by (simp add: rows_of_log_def rows_with_def)
    then show ?thesis using k(2) n True by (auto simp: page_ok_def scan_result_def MAX_SCAN_BATCHES_def split: if_splits)
  next
    case False
    then have k0: "0 < k" "k \<le> length xs" using k(2) by (auto simp: scan_result_def)
    let ?c = "fst (last (take k xs))"
    have s: "seen = JStr ?c" using k(2) False by (auto simp: scan_result_def last_id_def)
    have "last (take k xs) \<in> set st" using last_in_set [OF False] set_take_subset [of k xs] assms(3) by auto
    then have c: "?c \<noteq> []" using assms(1) by (auto simp: stream_ok_def) (metis fst_conv image_eqI)
    have after: "entries_from (start_cursor (Some ?c)) st = drop k xs"
      using entries_after [OF d assms(3) k0] c by (simp add: start_cursor_def)
    have "events = rows_of_log decode ?ip (take k xs)" "length events \<le> n"
      "if started then k = length xs \<or> (length events = n \<and> length xs < k + n) else length events = n \<or> k = MAX_SCAN_BATCHES * n"
      using k(2) unfolding scan_result_def prod.case by auto
    then show ?thesis using k0 c after by (cases started) (simp_all add: page_ok_def s)
  qed
  with e show ?thesis by blast
qed

text \<open>
  The last case happens: with five entries of which four match, a page of three is full in the middle
  of the last batch, and the answer has no cursor although a fourth match was never looked at.
\<close>

definition demo_log :: stream_log where
  "demo_log = [(''9'', ''a''), (''8'', ''b''), (''7'', ''a''), (''6'', ''a''), (''5'', ''a'')]"

definition demo_decode :: "string \<Rightarrow> event option" where
  "demo_decode t = Some (local_event\<lparr>ev_ip := if t = ''a'' then ''203.0.113.9'' else ''203.0.113.7''\<rparr>)"

lemma demo_filter: "ip_filter (Some ''203.0.113.9'') = ''203.0.113.9''"
  by code_simp

lemma demo_limit: "page_limit (Some ''3'') = Fin (of_nat 3)"
  by code_simp

theorem events_pages_cover_witness:
  "\<exists>k page. exec stream_serve (events_GET demo_decode (Some ''3'') None (Some ''203.0.113.9'')) demo_log = (demo_log, Inr page) \<and>
     page_ok demo_decode ''203.0.113.9'' 3 demo_log demo_log k page \<and>
     ep_cursor page = JNull \<and> map fst (ep_events page) = [JStr ''9'', JStr ''7'', JStr ''6''] \<and>
     map fst (rows_of_log demo_decode ''203.0.113.9'' demo_log) = [JStr ''9'', JStr ''7'', JStr ''6'', JStr ''5'']"
proof -
  have s: "stream_ok demo_log" by (simp add: stream_ok_def demo_log_def)
  have st: "demo_log = [] @ demo_log" "entries_from (start_cursor None) demo_log = demo_log"
    by (simp_all add: start_cursor_def entries_from_def)
  obtain k page where p: "exec stream_serve (events_GET demo_decode (Some ''3'') None (Some ''203.0.113.9'')) demo_log = (demo_log, Inr page)"
    "page_ok demo_decode (ip_filter (Some ''203.0.113.9'')) 3 demo_log demo_log k page"
    using events_pages_cover [OF s demo_limit st] by blast
  have "case snd (exec stream_serve (events_GET demo_decode (Some ''3'') None (Some ''203.0.113.9'')) demo_log) of Inl e \<Rightarrow> False
     | Inr pg \<Rightarrow> ep_cursor pg = JNull \<and> map fst (ep_events pg) = [JStr ''9'', JStr ''7'', JStr ''6'']"
    unfolding events_GET_def demo_filter demo_limit Let_def by code_simp
  then have "ep_cursor page = JNull \<and> map fst (ep_events page) = [JStr ''9'', JStr ''7'', JStr ''6'']" by (simp add: p(1))
  moreover have "map fst (rows_of_log demo_decode ''203.0.113.9'' demo_log) = [JStr ''9'', JStr ''7'', JStr ''6'', JStr ''5'']"
    by code_simp
  ultimately show ?thesis using p by (auto simp: demo_filter)
qed

section \<open>Reading changes nothing\<close>

definition read_only :: "cmd \<Rightarrow> bool" where
  "read_only c = (case c of RConnect \<Rightarrow> True | RPing \<Rightarrow> True | RGet k \<Rightarrow> True | RMGet ks \<Rightarrow> True | RTtl k \<Rightarrow> True
     | RScan p \<Rightarrow> True | RXRevRange k c n \<Rightarrow> True | RXLen k \<Rightarrow> True | RHGetAll k \<Rightarrow> True | RZTop k \<Rightarrow> True
     | PPool q \<Rightarrow> plain_read q | HFetch u b \<Rightarrow> True | HJson \<Rightarrow> True | Now \<Rightarrow> True | _ \<Rightarrow> False)"

lemma asks_ttls: "(\<And>r. asks P (k r)) \<Longrightarrow> (\<And>x. P (RTtl x)) \<Longrightarrow> asks P (ask_ttls keys got k)"
  by (induction keys arbitrary: got) auto

lemma asks_queries: "(\<And>r. asks P (k r)) \<Longrightarrow> (\<And>q. q \<in> set qs \<Longrightarrow> P (PPool q)) \<Longrightarrow> asks P (queries qs got k)"
  by (induction qs arbitrary: got) auto

lemma asks_batches: "asks read_only (read_batches decode n limit ip cursor ev s)"
  by (induction n arbitrary: cursor ev s) (auto simp: read_only_def intro!: asks_intros split: prod.split)

lemma asks_readers:
  "asks read_only (scanKeys p)" "asks read_only (mGet ks)" "asks read_only (readPolicies parse)" "asks read_only (fetchJson u b)"
  by (auto simp: scanKeys_def mGet_def readPolicies_def fetchJson_def read_only_def intro!: asks_intros asks_ttls)

lemma asks_views:
  "asks read_only (readCampaigns parse)" "asks read_only (readPolicyFor parse ip)" "asks read_only readAlerts"
  "asks read_only (readLearned parse)" "asks read_only (readHeartbeat env parse time_of)"
  "asks read_only (lookupGeo ips cache)" "asks read_only (lookupSelfGeo cache)" "asks read_only (readAdaptive env)"
  by (auto simp: readCampaigns_def readPolicyFor_def readAlerts_def readLearned_def readHeartbeat_def lookupGeo_def lookupSelfGeo_def
      readAdaptive_def pool_all_def Let_def read_only_def plain_read_def asks_readers
      intro!: asks_intros asks_queries split: option.split)

lemma asks_routes:
  "asks read_only (overview_GET decode cache)" "asks read_only (events_GET decode l b i)" "asks read_only (history_GET env l)"
  "asks read_only (campaigns_GET env parse time_of)" "asks read_only (adaptive_GET env parse)"
  "asks read_only (ip_GET decode parse decodeURI address cache)"
  by (auto simp: overview_GET_def events_GET_def history_GET_def campaigns_GET_def adaptive_GET_def ip_GET_def Let_def pool_all_def
      asks_views asks_readers asks_batches read_only_def plain_read_def
      intro!: asks_intros asks_queries split: option.split prod.split)

definition answers :: "'a svc \<Rightarrow> reply list \<Rightarrow> bool" where
  "answers p rs = (case answer p rs of None \<Rightarrow> True | Some x \<Rightarrow> \<not> isl x)"

lemma rets_answers: "rets (\<lambda>x. \<not> isl x) p \<Longrightarrow> answers p rs"
  by (auto simp: answers_def dest: rets_answer split: option.split)

lemma rets_ok: "rets (\<lambda>x. \<not> isl x) (ok a)"
  by (simp add: ok_def)

lemma rets_option: "rets (\<lambda>x. \<not> isl x) (history_GET env l)"
  by (simp add: history_GET_def rets_ok rets_caught)


end
