(* ===== verification/JsText.thy ===== *)
theory JsText
  imports JsValue
begin

text \<open>
  More of the standard library: \<open>parseInt\<close> and \<open>parseFloat\<close>, the tree of values that \<open>JSON.stringify\<close>
  keeps, \<open>btoa\<close>, and \<open>slice\<close> with bounds that may be negative; and how plain numerals read.
\<close>

section \<open>Reading numbers\<close>

text \<open>\<open>Number.parseInt(text, 10)\<close>\<close>

definition parse_int :: "string \<Rightarrow> jnum" where
  "parse_int part = (let s = dropWhile is_space part;
       neg = (s \<noteq> [] \<and> hd s = CHR ''-''); r = (if s \<noteq> [] \<and> hd s \<in> set ''+-'' then tl s else s);
       ds = takeWhile is_digit r; v = fl (of_nat (parse_nat ds))
     in if ds = [] then NaN else if neg then nneg v else v)"

text \<open>\<open>parseFloat\<close>: the longest part at the front that is a decimal literal.\<close>

definition signed_re :: re where
  "signed_re = Cat (Opt (Cls ''+-'')) (Alt decimal_re (Word ''Infinity''))"

definition parse_float :: "string \<Rightarrow> jnum" where
  "parse_float t = (let s = dropWhile is_space t in
     case find (rmatch signed_re) (rev (map (\<lambda>n. take n s) [0..<Suc (length s)])) of None \<Rightarrow> NaN | Some p \<Rightarrow> str_to_num p)"

section \<open>Values as text\<close>

text \<open>What \<open>JSON.stringify\<close> keeps of a value; two values have the same text when these are equal.\<close>

fun json_tree :: "jval \<Rightarrow> jval" where
  "json_tree (JNum v) = (if nis_finite v then JNum v else JNull)"
| "json_tree (JArr xs) = JArr (map (\<lambda>x. if x = JUndef then JNull else json_tree x) xs)"
| "json_tree (JObj d) = JObj (index_sorted (filter (\<lambda>(k, v). v \<noteq> JUndef) (map (\<lambda>(k, v). (k, json_tree v)) d)))"
| "json_tree v = v"

text \<open>\<open>btoa\<close>: base 64 of a text of bytes.\<close>

definition b64_cs :: "char list" where
  "b64_cs = ''ABCDEFGHIJKLMNOPQRSTUVWXYZabcdefghijklmnopqrstuvwxyz0123456789+/''"

definition b64 :: "nat \<Rightarrow> char" where
  "b64 n = b64_cs ! (n mod 64)"

fun btoa :: "string \<Rightarrow> string" where
  "btoa [] = []"
| "btoa [a] = (let n = of_char a * 65536 :: nat in [b64 (n div 262144), b64 (n div 4096), CHR ''='', CHR ''=''])"
| "btoa [a, b] = (let n = of_char a * 65536 + of_char b * 256 :: nat in [b64 (n div 262144), b64 (n div 4096), b64 (n div 64), CHR ''=''])"
| "btoa (a # b # c # r) = (let n = of_char a * 65536 + of_char b * 256 + of_char c :: nat in
     [b64 (n div 262144), b64 (n div 4096), b64 (n div 64), b64 n] @ btoa r)"

lemma b64_mem: "b64 n \<in> set b64_cs"
proof -
  have "length b64_cs = 64" by code_simp
  then show ?thesis by (simp add: b64_def)
qed

lemma btoa_chars: "set (btoa t) \<subseteq> insert (CHR ''='') (set b64_cs)"
  by (induction t rule: btoa.induct) (auto simp: Let_def b64_mem)

lemma btoa_no_dot: "CHR ''.'' \<notin> set (btoa t)"
proof -
  have "CHR ''.'' \<notin> set b64_cs" by code_simp
  then show ?thesis using btoa_chars [of t] by auto
qed

section \<open>Slices\<close>

text \<open>\<open>xs.slice(a, b)\<close>: a negative bound counts from the end.\<close>

definition slice_bound :: "nat \<Rightarrow> int \<Rightarrow> nat" where
  "slice_bound n i = (if i < 0 then nat (int n + i) else nat i)"

definition js_slice :: "'a list \<Rightarrow> int \<Rightarrow> int \<Rightarrow> 'a list" where
  "js_slice xs a b = drop (slice_bound (length xs) a) (take (slice_bound (length xs) b) xs)"

section \<open>Plain numerals\<close>

lemma head_digit: "show_nat n \<noteq> []" "hd (show_nat n) \<in> set digits_cs"
  using show_nat_digits [of n] by (auto intro: hd_in_set)

lemma digit_classes: "c \<in> set digits_cs \<Longrightarrow> is_digit c \<and> \<not> is_space c \<and> c \<noteq> CHR ''-'' \<and> c \<noteq> CHR ''+'' \<and> c \<noteq> CHR ''.''"
proof -
  have "list_all (\<lambda>c. is_digit c \<and> \<not> is_space c \<and> c \<noteq> CHR ''-'' \<and> c \<noteq> CHR ''+'' \<and> c \<noteq> CHR ''.'') digits_cs" by code_simp
  then show "c \<in> set digits_cs \<Longrightarrow> ?thesis" by (simp add: list_all_iff)
qed

lemma digits_plain:
  assumes "set s \<subseteq> set digits_cs" "s \<noteq> []"
  shows "trim s = s" "takeWhile (\<lambda>c. c \<notin> set ''eE'') s = s" "takeWhile (\<lambda>c. c \<noteq> CHR ''.'') s = s" "s \<noteq> ''Infinity''"
    "radix_number s = None"
proof -
  have sp: "list_all (\<lambda>c. \<not> is_space c \<and> c \<notin> set ''eE'' \<and> c \<noteq> CHR ''.'' \<and> c \<notin> set ''xX'' \<and> c \<notin> set ''oO'' \<and> c \<notin> set ''bB'') digits_cs"
    by code_simp
  then have c: "\<not> is_space c" "c \<notin> set ''eE''" "c \<noteq> CHR ''.''" "c \<notin> set ''xX''" "c \<notin> set ''oO''" "c \<notin> set ''bB''" if "c \<in> set s" for c
    using that assms(1) unfolding list_all_iff by blast+
  have "dropWhile is_space s = s" "dropWhile is_space (rev s) = rev s"
    using c(1) assms(2) by (simp_all add: dropWhile_eq_self_iff hd_rev)
  then show "trim s = s" by (simp add: trim_def)
  show "takeWhile (\<lambda>c. c \<notin> set ''eE'') s = s" "takeWhile (\<lambda>c. c \<noteq> CHR ''.'') s = s"
    using c(2,3) by (simp_all only: takeWhile_eq_all_conv) blast+
  have "CHR ''I'' \<notin> set digits_cs" by code_simp
  then show "s \<noteq> ''Infinity''" using assms(1) by auto
  show "radix_number s = None" using c(4-6) by (auto simp: radix_number_def split: list.split)
qed

lemma decimal_re_digits: "set s \<subseteq> set digits_cs \<Longrightarrow> s \<noteq> [] \<Longrightarrow> rmatch decimal_re s"
  unfolding decimal_re_def digit_def rmatch_iff
  by (rule rlang.cat [of _ s _ "[]"], rule alt1, rule rlang.cat [of _ s _ "[]"]) (simp_all add: rlang_Cls_Plus)

text \<open>A plain numeral reads as its value.\<close>

lemma str_to_num_numeral:
  assumes "set s \<subseteq> set digits_cs" "s \<noteq> []"
  shows "str_to_num s = fl (of_nat (parse_nat s))"
proof -
  note d = digits_plain [OF assms]
  have nil: "takeWhile P s = s \<Longrightarrow> dropWhile P s = []" for P
    by (metis append_self_conv takeWhile_dropWhile_id)
  have "split_exp s = (s, [])" by (simp only: split_exp_def d(2) nil [OF d(2)] drop_Nil)
  then have "decimal_value s = of_nat (parse_nat s)"
    by (simp only: decimal_value_def Let_def prod.case d(3) nil [OF d(3)] drop_Nil append_Nil2) (simp add: signed_int_def exp10_def)
  then show ?thesis using d(1,4,5) assms(2) decimal_re_digits [OF assms] by (simp add: str_to_num_def unsigned_number_def Let_def)
qed

lemma str_to_num_digits: "set s \<subseteq> set digits_cs \<Longrightarrow> s \<noteq> [] \<Longrightarrow> parse_nat s < 2 ^ 53 \<Longrightarrow> str_to_num s = nint (int (parse_nat s))"
  using fl_int [of "int (parse_nat s)"] by (simp add: str_to_num_numeral)

lemma str_to_num_show: "n < 2 ^ 53 \<Longrightarrow> str_to_num (show_nat n) = nint (int n)"
  using str_to_num_digits [of "show_nat n"] show_nat_digits [of n] by simp

section \<open>Whole numbers keep their value as text\<close>

lemma exp10_nat [simp]: "exp10 (int n) = 10 ^ n"
  by (simp add: exp10_def)

lemma exp10_0 [simp]: "exp10 0 = 1"
  by (simp add: exp10_def)

lemma dec_exp_up_nat:
  "k \<le> n \<Longrightarrow> n \<le> k + f \<Longrightarrow> 10 ^ n \<le> 10 * (of_nat m :: rat) \<Longrightarrow> of_nat m < (10 ^ n :: rat) \<Longrightarrow> dec_exp_up f (of_nat m) (int k) = int n"
proof (induction f arbitrary: k)
  case (Suc f)
  show ?case
  proof (cases "k = n")
    case True
    then show ?thesis using Suc.prems by simp
  next
    case False
    then have k: "Suc k \<le> n" using Suc.prems by simp
    then have "10 ^ Suc k \<le> (10 ^ n :: rat)" by (rule power_increasing) simp
    then have "10 ^ Suc k \<le> 10 * (of_nat m :: rat)" using Suc.prems(3) by (rule order_trans)
    then have "10 ^ k \<le> (of_nat m :: rat)" by (simp only: power_Suc mult_le_cancel_left_pos zero_less_numeral)
    then show ?thesis using Suc.IH [of "Suc k"] Suc.prems k by (simp add: add.commute)
  qed
qed simp

lemma dec_exp_down_stop: "exp10 (n - 1) \<le> x \<Longrightarrow> dec_exp_down f x n = n"
  by (cases f) simp_all

lemma dec_exp_nat:
  assumes "0 < n" "n \<le> 340" "10 ^ n \<le> 10 * (of_nat m :: rat)" "of_nat m < (10 ^ n :: rat)"
  shows "dec_exp (of_nat m) = int n"
proof -
  have u: "dec_exp_up 340 (of_nat m) 0 = int n" using dec_exp_up_nat [of 0 n 340 m] assms by simp
  obtain j where j: "n = Suc j" using assms(1) by (cases n) auto
  then have "exp10 (int n - 1) \<le> (of_nat m :: rat)" using assms(3) by simp
  then show ?thesis by (simp add: dec_exp_def u dec_exp_down_stop)
qed

text \<open>What the search for the digits finds: they read back as the number.\<close>

definition digits_ok :: "rat \<Rightarrow> int \<Rightarrow> int \<times> int \<times> int \<Rightarrow> bool" where
  "digits_ok x n r = (case r of (s, k, e) \<Rightarrow> 1 \<le> k \<and> k \<le> n \<and> n \<le> e \<and> e \<le> n + 1 \<and> 10 ^ nat (k - 1) \<le> s \<and> fl_rat (of_int s * exp10 (e - k)) = x)"

lemma candidate_ok:
  "digit_candidate x n k = Some s \<Longrightarrow> 10 ^ nat (k - 1) \<le> s \<and> s \<le> 10 ^ nat k \<and> fl_rat (of_int s * exp10 (n - k)) = x"
  by (auto simp: digit_candidate_def Let_def split: if_splits)

lemma candidate_whole:
  assumes "0 < n" "(10::int) ^ n \<le> 10 * int m" "int m < 10 ^ n" "m < 2 ^ 53"
  shows "digit_candidate (of_nat m) (int n) (int n) = Some (int m)"
proof -
  obtain j where j: "n = Suc j" using assms(1) by (cases n) auto
  have "fl_rat (of_nat m) = of_nat m" using fl_rat_int [of "int m"] assms(4) by simp
  then show ?thesis using assms(2,3) by (simp add: digit_candidate_def j Let_def nat_add_distrib)
qed

lemma short_digits_ok:
  assumes "0 < n" "(10::int) ^ n \<le> 10 * int m" "int m < 10 ^ n" "m < 2 ^ 53" "1 \<le> k" "k \<le> n" "n < k + f"
  shows "digits_ok (of_nat m) (int n) (short_digits (of_nat m) (int n) f (int k))"
  using assms(5-)
proof (induction f arbitrary: k)
  case (Suc f)
  show ?case
  proof (cases "digit_candidate (of_nat m) (int n) (int k)")
    case None
    then have "k \<noteq> n" using candidate_whole [OF assms(1-4)] by auto
    then show ?thesis using Suc.IH [of "Suc k"] Suc.prems None by (simp add: add.commute)
  next
    case (Some s)
    note c = candidate_ok [OF Some]
    show ?thesis
    proof (cases "s = 10 ^ k")
      case True
      obtain j where j: "k = Suc j" using Suc.prems by (cases k) auto
      have "int n + 1 - int k = int (Suc (n - k))" "int n - int k = int (n - k)" using Suc.prems by simp_all
      then have e: "exp10 (int n + 1 - int k) = 10 * exp10 (int n - int k)" by (simp only: exp10_nat power_Suc)
      have "of_int (10 ^ j) * exp10 (int n + 1 - int k) = of_int s * exp10 (int n - int k)" unfolding e by (simp add: True j)
      then show ?thesis using c Some True Suc.prems by (simp add: digits_ok_def j nat_add_distrib mult.assoc mult.left_commute)
    next
      case False
      then show ?thesis using c Some Suc.prems by (simp add: digits_ok_def)
    qed
  qed
qed simp

lemma parse_nat_zeros: "parse_nat (s @ replicate j (CHR ''0'')) = parse_nat s * 10 ^ j"
proof (induction j)
  case (Suc j)
  have "parse_nat (s @ replicate (Suc j) (CHR ''0'')) = parse_nat ((s @ replicate j (CHR ''0'')) @ [CHR ''0''])"
    by (simp add: replicate_append_same)
  also have "\<dots> = 10 * parse_nat (s @ replicate j (CHR ''0'')) + digit_val (CHR ''0'')" by (rule parse_nat_snoc)
  also have "digit_val (CHR ''0'') = 0" by (simp add: digit_val_def)
  finally show ?case using Suc by simp
qed simp

lemma has_digits:
  assumes "0 < m"
  obtains n where "0 < n" "(10::int) ^ n \<le> 10 * int m" "int m < 10 ^ n"
proof -
  define n where "n = (LEAST n. m < 10 ^ n)"
  have ex: "m < 10 ^ m" by (induction m) (auto simp: less_Suc_eq_le intro: Suc_leI le_less_trans)
  have u: "m < 10 ^ n" unfolding n_def by (rule LeastI [of _ m]) (rule ex)
  have n: "0 < n" using u assms by (cases n) auto
  then have "\<not> m < 10 ^ (n - 1)" unfolding n_def by (intro not_less_Least) simp
  then have "10 ^ n \<le> 10 * m" using n by (cases n) auto
  then have "(10::int) ^ n \<le> 10 * int m" "int m < 10 ^ n" using u
    by (metis of_nat_le_iff of_nat_mult of_nat_numeral of_nat_power, metis of_nat_less_iff of_nat_numeral of_nat_power)
  with n show thesis by (rule that)
qed

text \<open>\<open>Number(String(n))\<close> is \<open>n\<close>.\<close>

lemma number_of_text:
  assumes "m < 2 ^ 53"
  shows "str_to_num (show_num (nint (int m))) = nint (int m)"
proof (cases "m = 0")
  case True
  have "set ''0'' \<subseteq> set digits_cs" by code_simp
  then have "str_to_num ''0'' = fl (of_nat (parse_nat ''0''))" by (rule str_to_num_numeral) simp
  then show ?thesis by (simp add: True show_num_def parse_nat_def digit_val_def)
next
  case False
  then have m: "0 < m" by simp
  then obtain n where n: "0 < n" "(10::int) ^ n \<le> 10 * int m" "int m < 10 ^ n" by (rule has_digits)
  have "n \<le> 16"
  proof (rule ccontr)
    assume "\<not> n \<le> 16"
    then have "(10::int) ^ 17 \<le> 10 ^ n" by (intro power_increasing) auto
    then show False using n(2) assms by simp
  qed
  have "(10::rat) ^ n \<le> 10 * of_nat m" "of_nat m < (10::rat) ^ n"
    using n(2,3) by (metis of_int_le_iff of_int_mult of_int_numeral of_int_of_nat_eq of_int_power, metis of_int_less_iff of_int_numeral of_int_of_nat_eq of_int_power)
  then have e: "dec_exp (of_nat m) = int n" using n(1) \<open>n \<le> 16\<close> by (intro dec_exp_nat) auto
  obtain s k d where r: "short_digits (of_nat m) (int n) 16 1 = (s, k, d)" by (cases "short_digits (of_nat m) (int n) 16 1")
  have "digits_ok (of_nat m) (int n) (s, k, d)" using short_digits_ok [OF n assms, of 1 16] n(1) \<open>n \<le> 16\<close> r by simp
  then have k: "1 \<le> k" "k \<le> d" "d \<le> 17" "10 ^ nat (k - 1) \<le> s" "fl_rat (of_int s * exp10 (d - k)) = of_nat m"
    using \<open>n \<le> 16\<close> by (auto simp: digits_ok_def)
  have s: "0 \<le> s" using k(4) by (meson order_trans zero_le_numeral zero_le_power)
  let ?t = "show_nat (nat s) @ replicate (nat (d - k)) (CHR ''0'')"
  have "set ?t \<subseteq> set digits_cs" using show_nat_digits [of "nat s"] by (auto simp: digits_cs_def)
  moreover have "?t \<noteq> []" using show_nat_digits [of "nat s"] by simp
  ultimately have "str_to_num ?t = fl (of_nat (parse_nat ?t))" by (rule str_to_num_numeral)
  also have "parse_nat ?t = nat s * 10 ^ nat (d - k)" by (simp only: parse_nat_zeros parse_show_nat)
  also have "(of_nat (nat s * 10 ^ nat (d - k)) :: rat) = of_int s * exp10 (d - k)" using s k(2) by (simp add: exp10_def)
  also have "fl (of_int s * exp10 (d - k)) = nint (int m)"
  proof -
    have "fl_rat (of_int s * exp10 (d - k)) = fl_rat (of_int (int m))" using k(5) fl_rat_int [of "int m"] assms by simp
    then have "fl (of_int s * exp10 (d - k)) = fl (of_int (int m))" by (simp only: fl_def)
    then show ?thesis using fl_int [of "int m"] assms by simp
  qed
  finally have "str_to_num ?t = nint (int m)" .
  moreover have "show_num (nint (int m)) = ?t"
    using m k(2,3) by (simp add: show_num_def show_pos_def e r)
  ultimately show ?thesis by simp
qed

end
