(* ===== verification/Desktop.thy ===== *)
theory Desktop
  imports RoutesRead JsText
begin

text \<open>
  The desktop launcher, \<open>src/desktop/main.js\<close>: versions and updates, the log buffer, the Docker
  processes, and the launcher itself as a state machine. Between two awaits JavaScript runs without
  interruption, so a step of the machine is one such segment: a running \<open>boot\<close> resumes with the
  outcome it waited for, a timer of the Docker watch fires, the application is asked to quit. In
  messages an ellipsis U+2026 is written as three dots.
\<close>

section \<open>Constants\<close>

definition COMPOSE_ASSET :: string where "COMPOSE_ASSET = ''docker-compose.release.yml''"
definition PROJECT :: string where "PROJECT = ''iasg''"
definition DASHBOARD :: string where "DASHBOARD = ''http://127.0.0.1:5177''"
definition HEALTH_TIMEOUT_MS :: int where "HEALTH_TIMEOUT_MS = 5 * 60 * 1000"
definition LOG_LINES :: nat where "LOG_LINES = 200"

definition HELP_LINKS :: "string list" where
  "HELP_LINKS = [''https://docs.docker.com/desktop/setup/install/windows-install/'', ''https://learn.microsoft.com/windows/wsl/install'']"

definition STATE_FILE :: string where "STATE_FILE = ''state.json''"
definition COMPOSE_FILE :: string where "COMPOSE_FILE = ''compose.yml''"
definition NEXT_COMPOSE_FILE :: string where "NEXT_COMPOSE_FILE = ''compose.next.yml''"

section \<open>The log\<close>

text \<open>\<open>split(/\r?\n/)\<close>: a carriage return before a line feed belongs to the separator.\<close>

definition drop_cr :: "string \<Rightarrow> string" where
  "drop_cr l = (if l \<noteq> [] \<and> last l = char_of (13::nat) then butlast l else l)"

definition text_lines :: "string \<Rightarrow> string list" where
  "text_lines t = (let ls = split_on (char_of (10::nat)) t in map drop_cr (butlast ls) @ [last ls])"

definition log_lines :: "string \<Rightarrow> string list" where
  "log_lines t = filter (\<lambda>l. trim l \<noteq> []) (text_lines t)"

text \<open>\<open>xs.slice(-n)\<close>\<close>

definition last_n :: "nat \<Rightarrow> 'a list \<Rightarrow> 'a list" where
  "last_n n xs = drop (length xs - n) xs"

definition log_append :: "string list \<Rightarrow> string \<Rightarrow> string list" where
  "log_append buffer t = (let ls = log_lines t in if ls = [] then buffer else last_n LOG_LINES (buffer @ ls))"

section \<open>This machine\<close>

record machine =
  mc_platform :: string
  mc_arm :: bool
  mc_desktop :: bool
  mc_spawns :: bool
  mc_packaged :: bool
  mc_version :: string
  mc_skip_pull :: bool
  mc_release_api :: string

definition dockerInstaller :: "machine \<Rightarrow> string \<times> string" where
  "dockerInstaller m =
     (if mc_platform m = ''darwin'' then
        (if mc_arm m then (''https://desktop.docker.com/mac/main/arm64/Docker.dmg'', ''for Apple Silicon'')
         else (''https://desktop.docker.com/mac/main/amd64/Docker.dmg'', ''for Intel Macs''))
      else if mc_platform m = ''win32'' then
        (if mc_arm m then (''https://desktop.docker.com/win/main/arm64/Docker%20Desktop%20Installer.exe'', ''for Windows on ARM'')
         else (''https://desktop.docker.com/win/main/amd64/Docker%20Desktop%20Installer.exe'', ''for Windows''))
      else (''https://docs.docker.com/desktop/setup/install/linux/'', ''for Linux''))"

text \<open>\<open>mc_desktop\<close>: Docker Desktop's file exists; \<open>mc_spawns\<close>: starting a process does not throw.\<close>

definition launchDockerDesktop :: "machine \<Rightarrow> bool" where
  "launchDockerDesktop m = (if mc_platform m = ''darwin'' then mc_spawns m
     else if mc_platform m = ''win32'' \<and> mc_desktop m then mc_spawns m
     else if mc_platform m = ''linux'' \<and> mc_desktop m then mc_spawns m
     else False)"

text \<open>Which pages the renderer may open, and where the window may navigate.\<close>

definition open_help :: "string \<Rightarrow> string option" where
  "open_help url = (if url \<in> set HELP_LINKS then Some url else None)"

definition allowed_url :: "string \<Rightarrow> bool" where
  "allowed_url url \<longleftrightarrow> starts_with (DASHBOARD @ ''/'') url \<or> url = DASHBOARD \<or> starts_with ''file:'' url"

definition web_url :: "string \<Rightarrow> bool" where
  "web_url url \<longleftrightarrow> starts_with ''http:'' url \<or> starts_with ''https:'' url"

text \<open>\<open>will-navigate\<close>: whether the navigation is prevented, and the page handed to the browser.\<close>

definition navigate :: "string \<Rightarrow> bool \<times> string option" where
  "navigate url = (if allowed_url url then (False, None) else (True, if web_url url then Some url else None))"

section \<open>A Docker process\<close>

text \<open>What happens to a child process, in order; the first end settles the promise.\<close>

datatype process_event = Chunk string | ProcessError string | Closed int | TimedOut

fun docker_run :: "bool \<Rightarrow> string list \<Rightarrow> process_event list \<Rightarrow> string \<Rightarrow> (int \<times> string) option \<Rightarrow> string list \<Rightarrow> (int \<times> string) option \<times> string list" where
  "docker_run quiet args [] out res said = (res, said)"
| "docker_run quiet args (e # es) out res said = (case e of
       Chunk t \<Rightarrow> docker_run quiet args es (out @ t) res (if quiet then said else said @ [t])
     | ProcessError msg \<Rightarrow> docker_run quiet args es out (if res = None then Some (- 1, msg) else res) said
     | Closed code \<Rightarrow> docker_run quiet args es out (if res = None then Some (code, out) else res) said
     | TimedOut \<Rightarrow> docker_run quiet args es out
         (if res = None then Some (- 1, ''docker '' @ join '' '' args @ '' timed out'') else res) said)"

definition docker_result :: "bool \<Rightarrow> string list \<Rightarrow> process_event list \<Rightarrow> (int \<times> string) option \<times> string list" where
  "docker_result quiet args es = docker_run quiet args es [] None []"

section \<open>Versions\<close>

text \<open>\<open>Number.parseInt(part, 10) || 0\<close>\<close>

definition number_or_zero :: "jnum \<Rightarrow> jnum" where
  "number_or_zero v = (if v = NaN then Fin 0 else v)"

text \<open>\<open>split(/[.-]/)\<close>\<close>

definition version_parts :: "string \<Rightarrow> jnum list" where
  "version_parts v = map (\<lambda>p. number_or_zero (parse_int p)) (concat (map (split_on (CHR ''-'')) (split_on (CHR ''.'') v)))"

definition part :: "jnum list \<Rightarrow> nat \<Rightarrow> jnum" where
  "part ps i = (if i < length ps then ps ! i else Fin 0)"

fun newer_from :: "nat \<Rightarrow> nat \<Rightarrow> jnum list \<Rightarrow> jnum list \<Rightarrow> bool" where
  "newer_from 0 i a b = False"
| "newer_from (Suc n) i a b =
     (if \<not> neq (part a i) (part b i) then nlt (part b i) (part a i) else newer_from n (Suc i) a b)"

definition isNewer :: "string \<Rightarrow> string \<Rightarrow> bool" where
  "isNewer candidate current = newer_from 3 0 (version_parts candidate) (version_parts current)"

section \<open>Updating\<close>

text \<open>
  What \<open>resolveVersion\<close> asks of its surroundings; \<open>Say\<close>, \<open>Show\<close> and \<open>OfferUpdate\<close> are its effects on
  the launcher. The answer to \<open>Compose\<close> is the result of the docker process.
\<close>

datatype dcmd =
    ReadFile string
  | WriteFile string string
  | Rename string string
  | RemoveFile string
  | Exists string
  | MakeDir
  | Fetch string
  | FetchBody
  | Compose string "string list" string
  | Say string
  | Show string string
  | OfferUpdate string jval

type_synonym 'a dio = "(dcmd, 'a) io"

definition say :: "string \<Rightarrow> unit dio" where
  "say t = Ask (Say t) (\<lambda>_. ok ())"

definition readState :: "(string \<Rightarrow> jval option) \<Rightarrow> jval dio" where
  "readState parse = try_catch (next_do (await (ReadFile STATE_FILE)) (\<lambda>t.
     case parse (text_of t) of Some v \<Rightarrow> ok v | None \<Rightarrow> throw (ServiceError ''Unexpected token''))) (\<lambda>e. ok (JObj []))"

text \<open>\<open>file_path\<close> is \<open>fileURLToPath\<close>.\<close>

definition fetchText :: "(string \<Rightarrow> string) \<Rightarrow> jval \<Rightarrow> jval dio" where
  "fetchText file_path url = (case url of
       JStr u \<Rightarrow> if starts_with ''file:'' u then await (ReadFile (file_path u))
         else next_do (await (Fetch u)) (\<lambda>res.
              next_do (of_sum (dot res ''ok'')) (\<lambda>fine.
                if \<not> truthy fine then throw (ServiceError (u @ '' returned HTTP '' @ to_str (jget res ''status'')))
                else await FetchBody))
     | _ \<Rightarrow> throw TypeError)"

text \<open>\<open>assets.find((a) => a.name === COMPOSE_ASSET)\<close>\<close>

fun find_asset :: "jval list \<Rightarrow> jserr + jval" where
  "find_asset [] = Inr JUndef"
| "find_asset (a # as) = sbind (dot a ''name'') (\<lambda>n. if n = JStr COMPOSE_ASSET then Inr a else find_asset as)"

definition release_asset :: "jval \<Rightarrow> jserr + jval" where
  "release_asset rel = sbind (items (jor (jget rel ''assets'') (JArr []))) find_asset"

text \<open>\<open>tag_name.replace(/^v/, "")\<close>\<close>

definition strip_v :: "jval \<Rightarrow> jserr + string" where
  "strip_v tag = (case tag of JStr t \<Rightarrow> Inr (if t \<noteq> [] \<and> hd t = CHR ''v'' then tl t else t) | _ \<Rightarrow> Inl TypeError)"

text \<open>Downloads a release; the version when it is in place, \<open>None\<close> when the old one is kept.\<close>

definition state_json :: "(jval \<Rightarrow> string) \<Rightarrow> string \<Rightarrow> string" where
  "state_json stringify version = stringify (JObj [(''version'', JStr version)])"

definition install_release ::
  "machine \<Rightarrow> (string \<Rightarrow> string) \<Rightarrow> (jval \<Rightarrow> string) \<Rightarrow> string \<Rightarrow> jval \<Rightarrow> string option dio" where
  "install_release m file_path stringify version asset =
     try_catch
       (next_do (await MakeDir) (\<lambda>_.
        next_do (of_sum (dot asset ''browser_download_url'')) (\<lambda>url.
        next_do (fetchText file_path url) (\<lambda>content.
        next_do (await (WriteFile NEXT_COMPOSE_FILE (text_of content))) (\<lambda>_.
        next_do (if mc_skip_pull m then ok (jint 0)
                 else next_do (await (Compose NEXT_COMPOSE_FILE [''pull''] version)) (\<lambda>r. of_sum (dot r ''code''))) (\<lambda>code.
        if code = jint 0
        then next_do (await (Rename NEXT_COMPOSE_FILE COMPOSE_FILE)) (\<lambda>_.
             next_do (await (WriteFile STATE_FILE (state_json stringify version))) (\<lambda>_. ok (Some version)))
        else next_do (say ''Downloading the update failed; keeping the current version.'') (\<lambda>_. ok None)))))))
       (\<lambda>e. next_do (say (''Update failed: '' @ err_message e)) (\<lambda>_. ok None))"

definition use_release ::
  "machine \<Rightarrow> (string \<Rightarrow> string) \<Rightarrow> (jval \<Rightarrow> string) \<Rightarrow> jval \<Rightarrow> jval \<Rightarrow> string option dio" where
  "use_release m file_path stringify state rel =
     (if \<not> truthy (jget rel ''tag_name'') then ok None
      else next_do (of_sum (strip_v (jget rel ''tag_name''))) (\<lambda>version.
       next_do (if mc_packaged m \<and> isNewer version (mc_version m) then discard (await (OfferUpdate version (jget rel ''html_url''))) else ok ()) (\<lambda>_.
       next_do (of_sum (release_asset rel)) (\<lambda>asset.
       next_do (of_sum (dot state ''version'')) (\<lambda>current.
       next_do (if current \<noteq> JStr version then ok True
                else next_do (await (Exists COMPOSE_FILE)) (\<lambda>e. ok (\<not> truthy e))) (\<lambda>needsDownload.
       if needsDownload \<and> \<not> truthy asset
       then next_do (say (''Release '' @ to_str (jget rel ''tag_name'') @ '' has no '' @ COMPOSE_ASSET @ ''; keeping the current version.'')) (\<lambda>_. ok None)
       else if needsDownload
       then next_do (await (Show ''updating'' (''Downloading IASG '' @ version @ ''. The first download can take several minutes.''))) (\<lambda>_.
            next_do (install_release m file_path stringify version asset) (\<lambda>done'.
            case done' of Some v \<Rightarrow> ok (Some v) | None \<Rightarrow> next_do (await (RemoveFile NEXT_COMPOSE_FILE)) (\<lambda>_. ok None)))
       else ok None))))))"

definition resolveVersion ::
  "machine \<Rightarrow> (string \<Rightarrow> string) \<Rightarrow> (string \<Rightarrow> jval option) \<Rightarrow> (jval \<Rightarrow> string) \<Rightarrow> jval dio" where
  "resolveVersion m file_path parse stringify =
     next_do (readState parse) (\<lambda>state.
     next_do (try_catch
        (next_do (fetchText file_path (JStr (mc_release_api m))) (\<lambda>t.
           case parse (text_of t) of Some v \<Rightarrow> ok v | None \<Rightarrow> throw (ServiceError ''Unexpected token'')))
        (\<lambda>e. next_do (say (''Could not check for updates: '' @ err_message e)) (\<lambda>_. ok JNull))) (\<lambda>rel.
     next_do (use_release m file_path stringify state rel) (\<lambda>installed.
     case installed of Some v \<Rightarrow> ok (JStr v)
     | None \<Rightarrow> next_do (of_sum (dot state ''version'')) (\<lambda>current.
         next_do (if truthy current then await (Exists COMPOSE_FILE) else ok (JBool False)) (\<lambda>there.
         if truthy there then ok current
         else throw (ServiceError (''IASG has not been downloaded yet and GitHub could not be reached. '' @
            ''Check your internet connection, then press Retry.'')))))))"

section \<open>Waiting for the dashboard\<close>

text \<open>One reading per turn of the loop: the clock, whether the launcher is quitting, and the health check.\<close>

record reading =
  rd_now :: int
  rd_quitting :: bool
  rd_healthy :: bool

text \<open>The result and the turn it came in; \<open>None\<close> would be a loop that never returns.\<close>

partial_function (option) wait_loop :: "(nat \<Rightarrow> reading) \<Rightarrow> int \<Rightarrow> nat \<Rightarrow> (bool \<times> nat) option" where
  "wait_loop rd deadline i =
     (if \<not> rd_now (rd i) < deadline then Some (False, i)
      else if rd_quitting (rd i) then Some (False, i)
      else if rd_healthy (rd i) then Some (True, i)
      else wait_loop rd deadline (Suc i))"

definition waitForDashboard :: "int \<Rightarrow> (nat \<Rightarrow> reading) \<Rightarrow> (bool \<times> nat) option" where
  "waitForDashboard start rd = wait_loop rd (start + HEALTH_TIMEOUT_MS) 0"

section \<open>Newer versions\<close>

lemma parse_int_show:
  assumes "n < 2 ^ 53"
  shows "number_or_zero (parse_int (show_nat n)) = nint (int n)"
proof -
  note h = head_digit [of n] and k = digit_classes [OF head_digit(2) [of n]]
  have d: "dropWhile is_space (show_nat n) = show_nat n" using h k by (cases "show_nat n") auto
  have t: "takeWhile is_digit (show_nat n) = show_nat n"
    using show_nat_digits [of n] digit_classes by (auto simp: takeWhile_eq_all_conv)
  have "fl (of_nat n) = nint (int n)" using fl_int [of "int n"] assms by simp
  then show ?thesis using h k by (simp add: parse_int_def Let_def d t number_or_zero_def)
qed

lemma part_not_NaN: "part (version_parts v) i \<noteq> NaN"
proof -
  have "number_or_zero x \<noteq> NaN" for x by (simp add: number_or_zero_def)
  then have "\<forall>x \<in> set (version_parts v). x \<noteq> NaN" unfolding version_parts_def by auto
  then show ?thesis by (auto simp: part_def)
qed

text \<open>The first three numbers of a version, compared in dictionary order.\<close>

lemma isNewer_lex:
  "isNewer v w \<longleftrightarrow> (let a = part (version_parts v); b = part (version_parts w) in
     nlt (b 0) (a 0) \<or> (a 0 = b 0 \<and> (nlt (b 1) (a 1) \<or> (a 1 = b 1 \<and> nlt (b 2) (a 2)))))"
  using part_not_NaN [of v] part_not_NaN [of w]
  by (auto simp: isNewer_def numeral_eq_Suc neq_def Let_def nlt_iff)

text \<open>A version as it is released, with an optional pre-release suffix.\<close>

definition version_text :: "nat \<Rightarrow> nat \<Rightarrow> nat \<Rightarrow> string \<Rightarrow> string" where
  "version_text a b c sfx = show_nat a @ ''.'' @ show_nat b @ ''.'' @ show_nat c @ (if sfx = [] then [] else ''-'' @ sfx)"

lemma show_nat_free: "CHR ''.'' \<notin> set (show_nat n)" "CHR ''-'' \<notin> set (show_nat n)"
  using show_nat_digits [of n] digit_classes by blast+

lemma split_suffix: "\<exists>u us. split_on (CHR ''.'') (show_nat c @ t) = (show_nat c @ u) # us \<and> (t = [] \<or> hd t = CHR ''-'' \<longrightarrow> u = [] \<or> hd u = CHR ''-'')"
proof (cases "split_on (CHR ''.'') t")
  case (Cons u us)
  have "split_on (CHR ''.'') (w @ t) = (w @ u) # us" if "CHR ''.'' \<notin> set w" for w
    using that Cons by (induction w) auto
  moreover have "t = [] \<or> hd t = CHR ''-'' \<longrightarrow> u = [] \<or> hd u = CHR ''-''"
    using Cons by (cases t) (auto split: list.splits if_splits)
  ultimately show ?thesis using show_nat_free(1) by blast
qed simp

lemma split_head: "u = [] \<or> hd u = CHR ''-'' \<Longrightarrow> \<exists>us. split_on (CHR ''-'') (show_nat c @ u) = show_nat c # us"
proof (cases u)
  case (Cons d ds)
  assume "u = [] \<or> hd u = CHR ''-''"
  then show ?thesis using split_on_append [OF show_nat_free(2), of c ds] Cons by auto
qed (simp add: split_on_single show_nat_free)

lemma version_parts_text:
  assumes "a < 2 ^ 53" "b < 2 ^ 53" "c < 2 ^ 53"
  shows "\<exists>r. version_parts (version_text a b c s) = nint (int a) # nint (int b) # nint (int c) # r"
proof -
  let ?t = "if s = [] then [] else CHR ''-'' # s"
  obtain u us where u: "split_on (CHR ''.'') (show_nat c @ ?t) = (show_nat c @ u) # us" "u = [] \<or> hd u = CHR ''-''"
    using split_suffix [of c ?t] by (cases s) auto
  obtain vs where v: "split_on (CHR ''-'') (show_nat c @ u) = show_nat c # vs" using split_head [OF u(2)] by blast
  have "split_on (CHR ''.'') (version_text a b c s) = show_nat a # show_nat b # (show_nat c @ u) # us"
    using u(1) by (cases s) (simp_all add: version_text_def split_on_append show_nat_free)
  then show ?thesis
    using assms by (simp add: version_parts_def split_on_single show_nat_free v parse_int_show)
qed

text \<open>A release counts as newer exactly when its number is greater in the order of major,
  minor and patch; a pre-release suffix makes no difference.\<close>

theorem isNewer_is_version_order:
  assumes "a < 2 ^ 53" "b < 2 ^ 53" "c < 2 ^ 53" "x < 2 ^ 53" "y < 2 ^ 53" "z < 2 ^ 53"
  shows "isNewer (version_text a b c s) (version_text x y z t) \<longleftrightarrow> x < a \<or> (x = a \<and> (y < b \<or> (y = b \<and> z < c)))"
proof -
  obtain r where r: "version_parts (version_text a b c s) = nint (int a) # nint (int b) # nint (int c) # r"
    using version_parts_text [OF assms(1-3)] by blast
  obtain q where q: "version_parts (version_text x y z t) = nint (int x) # nint (int y) # nint (int z) # q"
    using version_parts_text [OF assms(4-6)] by blast
  show ?thesis unfolding isNewer_lex Let_def r q by (auto simp: part_def numeral_eq_Suc)
qed

theorem isNewer_is_version_order_witness:
  "isNewer ''1.10.0'' ''1.9.3-rc1'' \<and> version_text 1 10 0 [] = ''1.10.0'' \<and> version_text 1 9 3 ''rc1'' = ''1.9.3-rc1''"
proof -
  have t: "version_text 1 10 0 [] = ''1.10.0''" "version_text 1 9 3 ''rc1'' = ''1.9.3-rc1''" by (code_simp, code_simp)
  show ?thesis using isNewer_is_version_order [of 1 10 0 1 9 3 "[]" "''rc1''"] unfolding t by simp
qed

text \<open>Release numbers in their order, which \<open>isNewer\<close> decides on their texts.\<close>

datatype release = Release nat nat nat

fun release_text :: "release \<Rightarrow> string" where
  "release_text (Release a b c) = version_text a b c []"

fun in_range :: "release \<Rightarrow> bool" where
  "in_range (Release a b c) \<longleftrightarrow> a < 2 ^ 53 \<and> b < 2 ^ 53 \<and> c < 2 ^ 53"

instantiation release :: linorder
begin

fun less_release :: "release \<Rightarrow> release \<Rightarrow> bool" where
  "less_release (Release x y z) (Release a b c) \<longleftrightarrow> x < a \<or> x = a \<and> (y < b \<or> y = b \<and> z < c)"

definition less_eq_release :: "release \<Rightarrow> release \<Rightarrow> bool" where
  "less_eq_release v w \<longleftrightarrow> v < w \<or> v = w"

instance
proof
  fix u v w :: release
  show "v < w \<longleftrightarrow> v \<le> w \<and> \<not> w \<le> v" by (cases v; cases w) (auto simp: less_eq_release_def)
  show "v \<le> v" by (simp add: less_eq_release_def)
  show "u \<le> v \<Longrightarrow> v \<le> w \<Longrightarrow> u \<le> w" by (cases u; cases v; cases w) (auto simp: less_eq_release_def)
  show "v \<le> w \<Longrightarrow> w \<le> v \<Longrightarrow> v = w" by (cases v; cases w) (auto simp: less_eq_release_def)
  show "v \<le> w \<or> w \<le> v" by (cases v; cases w) (auto simp: less_eq_release_def)
qed

end

lemma isNewer_is_less:
  "in_range v \<Longrightarrow> in_range w \<Longrightarrow> isNewer (release_text v) (release_text w) \<longleftrightarrow> w < v"
  by (cases v; cases w) (simp add: isNewer_is_version_order)

section \<open>The wait ends\<close>

text \<open>Property C40. Waiting for the dashboard always ends: if the clock moves on by the two seconds a turn
  sleeps, the loop returns within 150 turns of the five minutes, and it returns true only when a
  health check succeeded before the deadline.\<close>

theorem wait_terminates:
  assumes "\<And>i. rd_now (rd (Suc i)) \<ge> rd_now (rd i) + 2000" "rd_now (rd 0) \<ge> start"
  shows "\<exists>r n. waitForDashboard start rd = Some (r, n) \<and> n \<le> 150 \<and>
    (r \<longleftrightarrow> rd_healthy (rd n) \<and> \<not> rd_quitting (rd n) \<and> rd_now (rd n) < start + HEALTH_TIMEOUT_MS)"
proof -
  have clock: "rd_now (rd i) \<ge> start + 2000 * int i" for i
  proof (induction i)
    case (Suc i)
    then show ?case using assms(1) [of i] by (simp add: algebra_simps)
  qed (use assms(2) in simp)
  have "\<exists>r n. wait_loop rd (start + HEALTH_TIMEOUT_MS) i = Some (r, n) \<and> n \<le> 150 \<and>
     (r \<longleftrightarrow> rd_healthy (rd n) \<and> \<not> rd_quitting (rd n) \<and> rd_now (rd n) < start + HEALTH_TIMEOUT_MS)" if "i \<le> 150" for i
    using that
  proof (induction "150 - i" arbitrary: i)
    case 0
    then have "i = 150" by simp
    then have "\<not> rd_now (rd i) < start + HEALTH_TIMEOUT_MS" using clock [of i] by (simp add: HEALTH_TIMEOUT_MS_def)
    then show ?case using 0 by (subst wait_loop.simps) auto
  next
    case (Suc k)
    then have "k = 150 - Suc i" "Suc i \<le> 150" by auto
    then show ?case using Suc.hyps(1) [of "Suc i"] Suc.prems by (subst wait_loop.simps) auto
  qed
  then show ?thesis by (simp add: waitForDashboard_def)
qed

definition slow_start :: "nat \<Rightarrow> reading" where
  "slow_start i = \<lparr>rd_now = 1000 + 2000 * int i, rd_quitting = False, rd_healthy = (4 \<le> i)\<rparr>"

theorem wait_terminates_witness:
  "waitForDashboard 1000 slow_start = Some (True, 4) \<and> (\<exists>r n. waitForDashboard 1000 slow_start = Some (r, n) \<and> n \<le> 150)"
proof -
  have "\<exists>r n. waitForDashboard 1000 slow_start = Some (r, n) \<and> n \<le> 150 \<and>
    (r \<longleftrightarrow> rd_healthy (slow_start n) \<and> \<not> rd_quitting (slow_start n) \<and> rd_now (slow_start n) < 1000 + HEALTH_TIMEOUT_MS)"
    by (rule wait_terminates) (simp_all add: slow_start_def)
  moreover have "waitForDashboard 1000 slow_start = Some (True, 4)"
    unfolding waitForDashboard_def
    by (subst wait_loop.simps, simp add: slow_start_def HEALTH_TIMEOUT_MS_def)+
  ultimately show ?thesis by blast
qed

section \<open>Updates are staged\<close>

text \<open>
  How far an update has come, and the version \<open>state.json\<close> named at the start. The compose file is
  replaced only by a staged one whose images were pulled, and \<open>state.json\<close> is written only after
  that, for the version that was pulled.
\<close>

datatype stage = Kept | Staged | Pulled string | Swapped "string option" | Installed string

type_synonym update_state = "stage \<times> jval option"

fun update_allow :: "machine \<Rightarrow> (jval \<Rightarrow> string) \<Rightarrow> update_state \<Rightarrow> dcmd \<Rightarrow> bool" where
  "update_allow m stringify (s, old) (WriteFile f t) = (f = NEXT_COMPOSE_FILE \<or> (f = STATE_FILE \<and>
     (case s of Swapped (Some v) \<Rightarrow> t = state_json stringify v | Swapped None \<Rightarrow> mc_skip_pull m | _ \<Rightarrow> False)))"
| "update_allow m stringify (s, old) (Rename a b) = (a = NEXT_COMPOSE_FILE \<and> b = COMPOSE_FILE \<and>
     (case s of Pulled v \<Rightarrow> True | Staged \<Rightarrow> mc_skip_pull m | _ \<Rightarrow> False))"
| "update_allow m stringify (s, old) (RemoveFile f) = (f = NEXT_COMPOSE_FILE)"
| "update_allow m stringify (s, old) (Compose f args v) = (f = NEXT_COMPOSE_FILE \<and> args = [''pull''] \<and> s = Staged)"
| "update_allow m stringify s c = True"

fun update_step :: "(string \<Rightarrow> jval option) \<Rightarrow> update_state \<Rightarrow> dcmd \<Rightarrow> reply \<Rightarrow> update_state" where
  "update_step parse (s, old) (ReadFile f) r = (s, if f = STATE_FILE \<and> old = None
     then Some (case r of Inl e \<Rightarrow> JUndef | Inr t \<Rightarrow> (case parse (text_of t) of None \<Rightarrow> JUndef | Some v \<Rightarrow> jget v ''version'')) else old)"
| "update_step parse (s, old) (WriteFile f t) (Inr r) = (if f = STATE_FILE then Installed t else Staged, old)"
| "update_step parse (s, old) (Compose f args v) (Inr r) = (if jget r ''code'' = jint 0 then Pulled v else s, old)"
| "update_step parse (s, old) (Rename a b) (Inr r) = (Swapped (case s of Pulled v \<Rightarrow> Some v | _ \<Rightarrow> None), old)"
| "update_step parse s c r = s"

abbreviation updates :: "machine \<Rightarrow> (string \<Rightarrow> jval option) \<Rightarrow> (jval \<Rightarrow> string) \<Rightarrow> 'a dio \<Rightarrow> (update_state \<Rightarrow> 'a \<Rightarrow> bool) \<Rightarrow> update_state \<Rightarrow> bool" where
  "updates m parse stringify \<equiv> phase (update_allow m stringify) (\<lambda>s c r. True) (update_step parse)"

lemma file_names [simp]: "NEXT_COMPOSE_FILE \<noteq> STATE_FILE" "STATE_FILE \<noteq> NEXT_COMPOSE_FILE" "COMPOSE_FILE \<noteq> STATE_FILE"
  by (simp_all add: NEXT_COMPOSE_FILE_def STATE_FILE_def COMPOSE_FILE_def)

lemma old_kept: "snd s = Some x \<Longrightarrow> snd (update_step parse s c r) = Some x"
proof (cases s)
  case (Pair a b)
  assume "snd s = Some x"
  then show ?thesis unfolding Pair by (cases c; cases r) simp_all
qed

text \<open>Parts that leave the update as it is.\<close>

definition harmless :: "dcmd \<Rightarrow> bool" where
  "harmless c = (case c of ReadFile f \<Rightarrow> True | Exists f \<Rightarrow> True | MakeDir \<Rightarrow> True | Fetch u \<Rightarrow> True | FetchBody \<Rightarrow> True
     | Say t \<Rightarrow> True | Show p t \<Rightarrow> True | OfferUpdate v u \<Rightarrow> True | RemoveFile f \<Rightarrow> f = NEXT_COMPOSE_FILE | _ \<Rightarrow> False)"

lemma harmless_updates: "asks harmless p \<Longrightarrow> updates m parse stringify p (\<lambda>s' a. s' = (s, Some old)) (s, Some old)"
proof (unfold phase_def, rule follows_unaffected [OF _ rets_True])
  have "harmless c \<Longrightarrow> update_allow m stringify (s, Some old) c \<and> (\<forall>r. update_step parse (s, Some old) c r = (s, Some old))" for c
    by (cases c) (auto simp: harmless_def)
  then show "asks harmless p \<Longrightarrow> asks (\<lambda>c. update_allow m stringify (s, Some old) c \<and> (\<forall>r. update_step parse (s, Some old) c r = (s, Some old))) p"
    by (elim asks_mono)
qed (simp split: sum.split)

lemma asks_harmless:
  "asks harmless (say t)" "asks harmless (fetchText file_path url)"
  by (auto simp: say_def fetchText_def harmless_def intro!: asks_intros split: jval.split)

definition installed_as :: "(jval \<Rightarrow> string) \<Rightarrow> jval \<Rightarrow> update_state \<Rightarrow> string option \<Rightarrow> bool" where
  "installed_as stringify old s u \<longleftrightarrow> snd s = Some old \<and> (case u of None \<Rightarrow> True | Some v \<Rightarrow> fst s = Installed (state_json stringify v))"

lemma install_updates:
  "updates m parse stringify (install_release m file_path stringify version asset) (installed_as stringify old) (s, Some old)"
  unfolding install_release_def
proof (rule phase_try_inv [where I = "\<lambda>s. snd s = Some old"], goal_cases)
  case 1
  have fetch: "updates m parse stringify (fetchText file_path url) (\<lambda>s' a. s' = (s, Some old)) (s, Some old)" for url
    by (rule harmless_updates) (rule asks_harmless)
  have mk: "updates m parse stringify (await MakeDir) (\<lambda>s' a. s' = (s, Some old)) (s, Some old)"
    by (rule harmless_updates) (simp add: harmless_def)
  have sayp: "updates m parse stringify (say t) (\<lambda>s' a. snd s' = Some old) (u, Some old)" for t u
    by (rule phase_mono [OF harmless_updates]) (simp_all add: asks_harmless)
  have pull: "updates m parse stringify (if mc_skip_pull m then ok (jint 0)
      else next_do (await (Compose NEXT_COMPOSE_FILE [''pull''] version)) (\<lambda>r. of_sum (dot r ''code'')))
      (\<lambda>s' code. snd s' = Some old \<and> (code = jint 0 \<longrightarrow> fst s' = Pulled version \<or> mc_skip_pull m \<and> fst s' = Staged)) (Staged, Some old)"
  proof (cases "mc_skip_pull m")
    case False
    then show ?thesis
      by (auto intro!: phase_next [OF phase_await [where V = "\<lambda>s' r. s' = (if jget r ''code'' = jint 0 then Pulled version else Staged, Some old)"]]
          phase_leaf simp: dot_def split: if_splits)
  qed (auto intro: phase_leaf)
  have swap: "updates m parse stringify (next_do (await (Rename NEXT_COMPOSE_FILE COMPOSE_FILE)) (\<lambda>_.
      next_do (await (WriteFile STATE_FILE (state_json stringify version))) (\<lambda>_. ok (Some version)))) (installed_as stringify old) s'"
    if "snd s' = Some old" "fst s' = Pulled version \<or> mc_skip_pull m \<and> fst s' = Staged" for s'
  proof -
    have wr: "updates m parse stringify (await (WriteFile STATE_FILE (state_json stringify version))) (\<lambda>t r. t = (Installed (state_json stringify version), Some old))
       (Swapped w, Some old)" if "w = Some version \<or> mc_skip_pull m \<and> w = None" for w
      using that by (auto intro!: phase_await)
    have "updates m parse stringify (await (Rename NEXT_COMPOSE_FILE COMPOSE_FILE))
        (\<lambda>t r. \<exists>w. t = (Swapped w, Some old) \<and> (w = Some version \<or> mc_skip_pull m \<and> w = None)) s'"
      using that by (cases s') (auto intro!: phase_await)
    then show ?thesis
      by (rule phase_next) (auto intro!: phase_next [OF wr] phase_leaf simp: installed_as_def)
  qed
  have rest: "updates m parse stringify (next_do (if mc_skip_pull m then ok (jint 0)
      else next_do (await (Compose NEXT_COMPOSE_FILE [''pull''] version)) (\<lambda>r. of_sum (dot r ''code''))) (\<lambda>code.
      if code = jint 0
      then next_do (await (Rename NEXT_COMPOSE_FILE COMPOSE_FILE)) (\<lambda>_.
           next_do (await (WriteFile STATE_FILE (state_json stringify version))) (\<lambda>_. ok (Some version)))
      else next_do (say t) (\<lambda>_. ok None))) (installed_as stringify old) (Staged, Some old)" for t
  proof (rule phase_next [OF pull], rule phase_if, goal_cases)
    case (1 s' code)
    then show ?case by (intro swap) auto
  next
    case (2 s' code)
    then show ?case by (cases s') (auto intro!: phase_next [OF sayp] phase_leaf simp: installed_as_def)
  qed
  have staged: "updates m parse stringify (await (WriteFile NEXT_COMPOSE_FILE t)) (\<lambda>s' r. s' = (Staged, Some old)) (s, Some old)" for t
    by (rule phase_await) simp_all
  show ?case
    by (rule phase_next [OF mk], hypsubst, rule phase_of_sum, rule phase_next [OF fetch], hypsubst, rule phase_next [OF staged], hypsubst, rule rest)
next
  case (4 e s')
  have "updates m parse stringify (say t) (\<lambda>s' a. snd s' = Some old) s'" for t
    using 4 by (cases s') (auto intro!: phase_mono [OF harmless_updates] simp: asks_harmless)
  then show ?case by (rule phase_next) (simp add: phase_leaf installed_as_def)
qed (simp_all add: old_kept)

lemma use_updates:
  "updates m parse stringify (use_release m file_path stringify state rel) (installed_as stringify old) (s, Some old)"
proof -
  have quiet: "updates m parse stringify p (\<lambda>s' a. s' = (s, Some old)) (s, Some old)" if "asks harmless p" for p :: "'z dio" and s
    by (rule harmless_updates [OF that])
  have none: "updates m parse stringify (ok None) (installed_as stringify old) (s, Some old)" for s
    by (rule phase_leaf) (simp add: installed_as_def)
  have keep: "updates m parse stringify (next_do p (\<lambda>_. ok None)) (installed_as stringify old) (s, Some old)" if "asks harmless p" for p :: "'z dio" and s
    by (rule phase_next [OF quiet [OF that]], hypsubst, rule none)
  have inst: "updates m parse stringify (next_do (install_release m file_path stringify version asset) (\<lambda>done'.
      case done' of Some v \<Rightarrow> ok (Some v) | None \<Rightarrow> next_do (await (RemoveFile NEXT_COMPOSE_FILE)) (\<lambda>_. ok None))) (installed_as stringify old) (s, Some old)" for version asset
  proof (rule phase_next [OF install_updates], goal_cases)
    case (1 s' u)
    show ?case
    proof (cases u)
      case None
      then show ?thesis using 1 keep [of "await (RemoveFile NEXT_COMPOSE_FILE)" "fst s'"] by (cases s') (simp add: installed_as_def harmless_def)
    next
      case (Some v)
      then show ?thesis using 1 by (simp add: phase_leaf)
    qed
  qed
  have offer: "asks harmless (if b then discard (await (OfferUpdate v u)) else ok ())" for b v u
    by (auto simp: harmless_def intro!: asks_intros)
  have need: "asks harmless (if b then ok True else next_do (await (Exists COMPOSE_FILE)) (\<lambda>e. ok (\<not> truthy e)))" for b
    by (auto simp: harmless_def intro!: asks_intros)
  have shown: "asks harmless (await (Show p t))" for p t by (simp add: harmless_def)
  show ?thesis unfolding use_release_def
  proof (rule phase_if [OF none], rule phase_of_sum, rule phase_next [OF quiet [OF offer]], hypsubst,
      rule phase_of_sum, rule phase_of_sum, rule phase_next [OF quiet [OF need]], hypsubst, intro phase_if, goal_cases)
    case 1
    show ?case by (rule keep) (rule asks_harmless)
  next
    case 2
    show ?case by (rule phase_next [OF quiet [OF shown]], hypsubst, rule inst)
  next
    case 3
    show ?case by (rule none)
  qed
qed

text \<open>What \<open>resolveVersion\<close> may return: the version it has installed, or the one that was there.\<close>

definition resolved_ok :: "(jval \<Rightarrow> string) \<Rightarrow> update_state \<Rightarrow> jval \<Rightarrow> bool" where
  "resolved_ok stringify s v \<longleftrightarrow> (case v of JStr t \<Rightarrow> fst s = Installed (state_json stringify t) | _ \<Rightarrow> False) \<or> (truthy v \<and> snd s = Some v)"

lemma dot_version: "dot v ''version'' = Inr x \<Longrightarrow> jget v ''version'' = x"
  by (auto simp: dot_def split: if_splits)

lemma resolve_updates:
  "updates m parse stringify (resolveVersion m file_path parse stringify) (resolved_ok stringify) (Kept, None)"
proof -
  have read: "updates m parse stringify (readState parse) (\<lambda>s' v. s' = (Kept, Some (jget v ''version''))) (Kept, None)"
    unfolding readState_def phase_def follows_try_catch follows_next_do follows_await
    by (auto simp: follows_leaf jget_JObj split: sum.split option.split)
  have check: "asks harmless (try_catch
        (next_do (fetchText file_path (JStr (mc_release_api m))) (\<lambda>t.
           case parse (text_of t) of Some v \<Rightarrow> ok v | None \<Rightarrow> throw (ServiceError ''Unexpected token'')))
        (\<lambda>e. next_do (say (''Could not check for updates: '' @ err_message e)) (\<lambda>_. ok JNull)))"
    by (auto intro!: asks_intros asks_harmless split: option.split)
  have there: "updates m parse stringify (next_do (if truthy current then await (Exists COMPOSE_FILE) else ok (JBool False)) (\<lambda>there.
         if truthy there then ok current else throw e)) (resolved_ok stringify) (s, Some current)" for current e s
  proof (cases "truthy current")
    case True
    have "updates m parse stringify (await (Exists COMPOSE_FILE)) (\<lambda>s' a. s' = (s, Some current)) (s, Some current)"
      by (rule harmless_updates) (simp add: harmless_def)
    then show ?thesis using True
      by (simp only: if_True) (rule phase_next, assumption, auto intro!: phase_leaf simp: resolved_ok_def)
  qed (simp add: phase_leaf)
  have final: "updates m parse stringify (case u of Some v \<Rightarrow> ok (JStr v)
      | None \<Rightarrow> next_do (of_sum (dot state ''version'')) (\<lambda>current.
         next_do (if truthy current then await (Exists COMPOSE_FILE) else ok (JBool False)) (\<lambda>there.
         if truthy there then ok current else throw e))) (resolved_ok stringify) s"
    if "installed_as stringify (jget state ''version'') s u" for u state e s
  proof (cases u)
    case None
    have "s = (fst s, Some (jget state ''version''))" using that by (cases s) (simp add: installed_as_def)
    then show ?thesis
      unfolding None option.case by (metis (no_types, lifting) phase_of_sum there dot_version)
  next
    case (Some v)
    then show ?thesis using that by (auto intro!: phase_leaf simp: installed_as_def resolved_ok_def)
  qed
  show ?thesis
    unfolding resolveVersion_def
    by (rule phase_next [OF read], hypsubst, rule phase_next [OF harmless_updates [OF check]], hypsubst, rule phase_next [OF use_updates], rule final)
qed

definition update_run_ok :: "machine \<Rightarrow> (string \<Rightarrow> jval option) \<Rightarrow> (jval \<Rightarrow> string) \<Rightarrow> 'a dio \<Rightarrow> reply list \<Rightarrow> bool" where
  "update_run_ok m parse stringify p rs = obeys (update_allow m stringify) (update_step parse) (Kept, None) (fst (run p rs))"

text \<open>Property C24. An update never half-replaces what runs: whatever GitHub, Docker and the disk answer,
  the compose file is replaced only by a staged file whose images were pulled (or in the test mode
  that skips the pull), \<open>state.json\<close> names a version only after that, and the version returned is
  either the one just installed or the one that was there before.\<close>

theorem update_is_staged:
  "update_run_ok m parse stringify (resolveVersion m file_path parse stringify) rs \<and>
   (case answer (resolveVersion m file_path parse stringify) rs of
      Some (Inr v) \<Rightarrow> resolved_ok stringify (reached (update_step parse) (Kept, None) (fst (run (resolveVersion m file_path parse stringify) rs))) v
    | _ \<Rightarrow> True)"
  using follows_obeys [OF resolve_updates [unfolded phase_def]] follows_result [OF resolve_updates [unfolded phase_def]]
  by (fastforce simp: update_run_ok_def split: option.split sum.split)

section \<open>The launcher\<close>

text \<open>
  Where a running \<open>boot\<close> waits; the outcomes it resumes with; the life of a timer of the Docker watch;
  the docker commands that have been started, oldest first.
\<close>

datatype boot = AtVersion | AtInfo | AtCompose | AtResolve | AtUp string | AtHealth string int | AtSleep string int | AtLogs

datatype outcome = Exit int | ExitAt int int int | Resolved "string + string" | Healthy bool | Woke int

datatype poll = Armed | PollVersion | PollInfo

datatype command = CmdVersion | CmdInfo | CmdComposeVersion | CmdUp string | CmdLogs | CmdDown

record launcher =
  la_phase :: string
  la_message :: string
  la_busy :: bool
  la_stack :: bool
  la_quitting :: bool
  la_exited :: bool
  la_watch :: "nat option"
  la_timers :: "(nat \<times> poll) list"
  la_next :: nat
  la_launched :: bool
  la_log :: "string list"
  la_boots :: "boot list"
  la_commands :: "command list"

definition launcher0 :: launcher where
  "launcher0 = \<lparr>la_phase = ''checking'', la_message = ''Starting...'', la_busy = False, la_stack = False, la_quitting = False,
     la_exited = False, la_watch = None, la_timers = [], la_next = 0, la_launched = False, la_log = [], la_boots = [], la_commands = []\<rparr>"

definition setStatus :: "string \<Rightarrow> string \<Rightarrow> launcher \<Rightarrow> launcher" where
  "setStatus p t s = s\<lparr>la_phase := p, la_message := t\<rparr>"

definition issue :: "command \<Rightarrow> launcher \<Rightarrow> launcher" where
  "issue c s = s\<lparr>la_commands := la_commands s @ [c]\<rparr>"

definition goto :: "nat \<Rightarrow> boot \<Rightarrow> launcher \<Rightarrow> launcher" where
  "goto i b s = s\<lparr>la_boots := (la_boots s)[i := b]\<rparr>"

text \<open>The end of \<open>boot\<close>, through its \<open>finally\<close>.\<close>

definition drop_nth :: "nat \<Rightarrow> 'a list \<Rightarrow> 'a list" where
  "drop_nth i xs = take i xs @ drop (Suc i) xs"

definition finish :: "nat \<Rightarrow> launcher \<Rightarrow> launcher" where
  "finish i s = s\<lparr>la_boots := drop_nth i (la_boots s), la_busy := False\<rparr>"

definition showDockerState :: "machine \<Rightarrow> bool \<Rightarrow> launcher \<Rightarrow> launcher" where
  "showDockerState m missing s =
     (let linux = (mc_platform m = ''linux'') in
      if missing then setStatus ''no-docker'' (if linux then ''IASG runs in Docker, which is not installed on this computer.''
          else ''IASG runs in Docker Desktop, which is not installed on this computer.'') s
      else let launched = la_launched s \<or> launchDockerDesktop m in
        setStatus ''docker-stopped''
          (if linux \<and> \<not> launched then ''Docker is installed but not answering. Start it, and make sure your user can run docker without sudo.''
           else if launched then ''Starting Docker Desktop...'' else ''Docker Desktop is installed but not running. Start it to continue.'')
          (s\<lparr>la_launched := launched\<rparr>))"

definition arm :: "launcher \<Rightarrow> launcher" where
  "arm s = s\<lparr>la_watch := Some (la_next s), la_timers := la_timers s @ [(la_next s, Armed)], la_next := Suc (la_next s)\<rparr>"

definition watchDocker :: "launcher \<Rightarrow> launcher" where
  "watchDocker s = (if la_watch s \<noteq> None then s else arm s)"

text \<open>\<open>clearTimeout\<close> stops a timer that has not fired yet.\<close>

definition stopWatchingDocker :: "launcher \<Rightarrow> launcher" where
  "stopWatchingDocker s = s\<lparr>la_timers := filter (\<lambda>(i, p). \<not> (la_watch s = Some i \<and> p = Armed)) (la_timers s), la_watch := None\<rparr>"

definition boot_start :: "launcher \<Rightarrow> launcher" where
  "boot_start s = (if la_busy s \<or> la_quitting s then s
     else (let t = setStatus ''checking'' ''Checking Docker...'' (stopWatchingDocker (s\<lparr>la_busy := True\<rparr>))
       in issue CmdVersion (t\<lparr>la_boots := la_boots t @ [AtVersion]\<rparr>)))"

definition no_docker :: "machine \<Rightarrow> bool \<Rightarrow> nat \<Rightarrow> launcher \<Rightarrow> launcher" where
  "no_docker m missing i s = finish i (watchDocker (showDockerState m missing s))"

text \<open>One turn of \<open>waitForDashboard\<close>: the deadline, quitting, or the next health check.\<close>

definition wait_turn :: "nat \<Rightarrow> string \<Rightarrow> int \<Rightarrow> int \<Rightarrow> launcher \<Rightarrow> launcher" where
  "wait_turn i v deadline now s =
     (if now < deadline \<and> \<not> la_quitting s then goto i (AtHealth v deadline) s
      else if la_quitting s then finish i s
      else issue CmdLogs (goto i AtLogs s))"

text \<open>\<open>boot\<close> number \<open>i\<close> resumes with what it waited for.\<close>

fun resume :: "machine \<Rightarrow> nat \<Rightarrow> boot \<Rightarrow> outcome \<Rightarrow> launcher \<Rightarrow> launcher" where
  "resume m i AtVersion (Exit c) s = (if c \<noteq> 0 then no_docker m True i s else issue CmdInfo (goto i AtInfo s))"
| "resume m i AtInfo (Exit c) s = (if c \<noteq> 0 then no_docker m False i s else issue CmdComposeVersion (goto i AtCompose s))"
| "resume m i AtCompose (Exit c) s = (if c \<noteq> 0
     then finish i (setStatus ''error'' ''Docker Compose is missing. Update Docker Desktop, then press Retry.'' s)
     else goto i AtResolve (setStatus ''checking'' ''Checking for updates...'' s))"
| "resume m i AtResolve (Resolved r) s = (case r of
     Inl e \<Rightarrow> finish i (setStatus ''error'' e s)
   | Inr v \<Rightarrow> issue (CmdUp v) (goto i (AtUp v) ((setStatus ''starting'' (''Starting IASG '' @ v @ ''...'') s)\<lparr>la_stack := True\<rparr>)))"
| "resume m i (AtUp v) (ExitAt c start now) s = (if c \<noteq> 0
     then finish i (setStatus ''error'' (''The containers did not start. If the log mentions a port, something else is using '' @
            ''5177, 8082, 5175 or 5002.'') s)
     else wait_turn i v (start + HEALTH_TIMEOUT_MS) now (setStatus ''waiting'' ''Waiting for the dashboard to come up...'' s))"
| "resume m i (AtHealth v deadline) (Healthy h) s = (if h
     then finish i (setStatus ''ready'' (''IASG '' @ v @ '' is running.'') s) else goto i (AtSleep v deadline) s)"
| "resume m i (AtSleep v deadline) (Woke now) s = wait_turn i v deadline now s"
| "resume m i AtLogs (Exit c) s =
     finish i (setStatus ''error'' ''The dashboard did not come up within 5 minutes. The log below shows why.'' s)"
| "resume m i b o' s = s"

definition set_timer :: "nat \<Rightarrow> poll \<Rightarrow> launcher \<Rightarrow> launcher" where
  "set_timer k p s = s\<lparr>la_timers := map (\<lambda>(j, q). if j = k then (j, p) else (j, q)) (la_timers s)\<rparr>"

definition drop_timer :: "nat \<Rightarrow> launcher \<Rightarrow> launcher" where
  "drop_timer k s = s\<lparr>la_timers := filter (\<lambda>(j, q). j \<noteq> k) (la_timers s)\<rparr>"

text \<open>The watch after a probe, and its steps.\<close>

definition poll_waits :: "machine \<Rightarrow> bool \<Rightarrow> nat \<Rightarrow> launcher \<Rightarrow> launcher" where
  "poll_waits m missing k s = arm (drop_timer k
     (if missing \<noteq> (la_phase s = ''no-docker'') then showDockerState m missing s else s))"

fun poll_step :: "machine \<Rightarrow> nat \<Rightarrow> poll \<Rightarrow> int \<Rightarrow> launcher \<Rightarrow> launcher" where
  "poll_step m k Armed c s = (if la_quitting s then (drop_timer k s)\<lparr>la_watch := None\<rparr> else issue CmdVersion (set_timer k PollVersion s))"
| "poll_step m k PollVersion c s = (if c \<noteq> 0 then poll_waits m True k s else issue CmdInfo (set_timer k PollInfo s))"
| "poll_step m k PollInfo c s = (if c \<noteq> 0 then poll_waits m False k s
     else boot_start ((drop_timer k s)\<lparr>la_watch := None, la_launched := False, la_log := log_append (la_log s) ''Docker is running; continuing.''\<rparr>))"

text \<open>\<open>before-quit\<close>: an event that is not prevented ends the process.\<close>

definition before_quit :: "launcher \<Rightarrow> launcher" where
  "before_quit s = (if la_quitting s \<or> \<not> la_stack s then s\<lparr>la_exited := True\<rparr>
     else issue CmdDown (setStatus ''stopping'' ''Stopping IASG...'' (s\<lparr>la_quitting := True\<rparr>)))"

inductive launch_step :: "machine \<Rightarrow> launcher \<Rightarrow> launcher \<Rightarrow> bool" for m :: machine where
  start: "\<not> la_exited s \<Longrightarrow> launch_step m s (boot_start s)"
| resumes: "\<not> la_exited s \<Longrightarrow> i < length (la_boots s) \<Longrightarrow> launch_step m s (resume m i (la_boots s ! i) o' s)"
| polls: "\<not> la_exited s \<Longrightarrow> (k, p) \<in> set (la_timers s) \<Longrightarrow> launch_step m s (poll_step m k p c s)"
| updating: "\<not> la_exited s \<Longrightarrow> AtResolve \<in> set (la_boots s) \<Longrightarrow> launch_step m s (setStatus ''updating'' t s)"
| quit: "\<not> la_exited s \<Longrightarrow> launch_step m s (before_quit s)"
| down: "\<not> la_exited s \<Longrightarrow> la_quitting s \<Longrightarrow> launch_step m s (s\<lparr>la_exited := True\<rparr>)"
| logs: "\<not> la_exited s \<Longrightarrow> launch_step m s (s\<lparr>la_log := log_append (la_log s) t\<rparr>)"

inductive launch_reach :: "machine \<Rightarrow> launcher \<Rightarrow> bool" for m :: machine where
  init: "launch_reach m launcher0"
| next_step: "launch_reach m s \<Longrightarrow> launch_step m s t \<Longrightarrow> launch_reach m t"

inductive_cases launch_stepE: "launch_step m s t"

section \<open>What the launcher keeps\<close>

fun is_up :: "command \<Rightarrow> bool" where
  "is_up (CmdUp v) = True"
| "is_up c = False"

definition ups :: "launcher \<Rightarrow> nat" where
  "ups s = length (filter is_up (la_commands s))"

fun started_stack :: "boot \<Rightarrow> bool" where
  "started_stack (AtUp v) = True"
| "started_stack (AtHealth v d) = True"
| "started_stack (AtSleep v d) = True"
| "started_stack AtLogs = True"
| "started_stack b = False"

text \<open>A \<open>boot\<close> that has asked for the compose version and not yet started the containers.\<close>

definition between :: "boot list \<Rightarrow> nat" where
  "between bs = length (filter (\<lambda>b. b = AtCompose \<or> b = AtResolve) bs)"

definition one_boot :: "launcher \<Rightarrow> bool" where
  "one_boot s \<longleftrightarrow> la_boots s = [] \<and> \<not> la_busy s \<or> (\<exists>b. la_boots s = [b] \<and> la_busy s \<and> (started_stack b \<longrightarrow> la_stack s))"

definition commands_ok :: "launcher \<Rightarrow> bool" where
  "commands_ok s \<longleftrightarrow> (la_stack s \<longleftrightarrow> ups s \<noteq> 0) \<and> count_list (la_commands s) CmdDown = (if la_quitting s then 1 else 0) \<and>
     ups s + between (la_boots s) \<le> count_list (la_commands s) CmdComposeVersion"

definition shutdown_ok :: "launcher \<Rightarrow> bool" where
  "shutdown_ok s \<longleftrightarrow> (la_quitting s \<longrightarrow> la_stack s) \<and> (la_exited s \<and> la_stack s \<longrightarrow> la_quitting s)"

definition launcher_ok :: "launcher \<Rightarrow> bool" where
  "launcher_ok s \<longleftrightarrow> one_boot s \<and> commands_ok s \<and> shutdown_ok s \<and> (la_phase s = ''ready'' \<longrightarrow> la_stack s) \<and> length (la_log s) \<le> LOG_LINES"

lemma last_n_length: "length (last_n n xs) \<le> n"
  by (simp add: last_n_def del: drop_append)

lemma log_append_length: "length b \<le> LOG_LINES \<Longrightarrow> length (log_append b t) \<le> LOG_LINES"
  by (simp add: log_append_def Let_def last_n_length)

lemmas launcher_parts = setStatus_def issue_def goto_def finish_def arm_def watchDocker_def stopWatchingDocker_def
  set_timer_def drop_timer_def drop_nth_def

lemma showDockerState_fields [simp]:
  "la_busy (showDockerState m b s) = la_busy s" "la_stack (showDockerState m b s) = la_stack s"
  "la_quitting (showDockerState m b s) = la_quitting s" "la_exited (showDockerState m b s) = la_exited s"
  "la_boots (showDockerState m b s) = la_boots s" "la_commands (showDockerState m b s) = la_commands s"
  "la_log (showDockerState m b s) = la_log s" "la_phase (showDockerState m b s) \<noteq> ''ready''"
  by (simp_all add: showDockerState_def Let_def setStatus_def)

lemmas launcher_inv = launcher_ok_def one_boot_def commands_ok_def shutdown_ok_def ups_def between_def

text \<open>The parts of the state the invariant reads.\<close>

definition core :: "launcher \<Rightarrow> bool \<times> bool \<times> bool \<times> bool \<times> boot list \<times> command list \<times> string list" where
  "core s = (la_busy s, la_stack s, la_quitting s, la_exited s, la_boots s, la_commands s, la_log s)"

lemma launcher_ok_core: "launcher_ok s \<Longrightarrow> core t = core s \<Longrightarrow> la_phase t = la_phase s \<or> la_phase t \<noteq> ''ready'' \<Longrightarrow> launcher_ok t"
  by (auto simp: launcher_inv core_def)

lemma arm_core [simp]: "core (arm s) = core s" "la_phase (arm s) = la_phase s"
  by (simp_all add: core_def arm_def)

lemma watch_core [simp]: "core (watchDocker s) = core s" "la_phase (watchDocker s) = la_phase s"
  by (simp_all add: watchDocker_def)

lemma show_core [simp]: "core (showDockerState m b s) = core s"
  by (simp add: core_def)

lemma timer_core [simp]: "core (drop_timer k s) = core s" "core (set_timer k p s) = core s"
  "la_phase (drop_timer k s) = la_phase s" "la_phase (set_timer k p s) = la_phase s"
  by (simp_all add: core_def drop_timer_def set_timer_def)

lemma ok_boot_start: "launcher_ok s \<Longrightarrow> launcher_ok (boot_start s)"
  by (auto simp: launcher_inv boot_start_def Let_def launcher_parts)

lemma ok_finish: "launcher_ok s \<Longrightarrow> i < length (la_boots s) \<Longrightarrow> p = ''ready'' \<longrightarrow> la_stack s \<Longrightarrow>
    launcher_ok (finish i (setStatus p t s))" "launcher_ok s \<Longrightarrow> i < length (la_boots s) \<Longrightarrow> launcher_ok (finish i s)"
proof -
  assume s: "launcher_ok s" "i < length (la_boots s)"
  then obtain b where b: "i = 0" "la_boots s = [b]" by (auto simp: launcher_ok_def one_boot_def)
  have e: "ups (finish 0 (setStatus p t s)) = ups s" "ups (finish 0 s) = ups s" by (simp_all add: ups_def finish_def setStatus_def)
  show "p = ''ready'' \<longrightarrow> la_stack s \<Longrightarrow> launcher_ok (finish i (setStatus p t s))"
    using s(1) unfolding b(1) launcher_ok_def one_boot_def commands_ok_def shutdown_ok_def e
    by (auto simp: finish_def setStatus_def drop_nth_def b(2) between_def)
  show "launcher_ok (finish i s)"
    using s(1) unfolding b(1) launcher_ok_def one_boot_def commands_ok_def shutdown_ok_def e
    by (auto simp: finish_def drop_nth_def b(2) between_def)
qed

lemma ok_wait_turn: "launcher_ok s \<Longrightarrow> i < length (la_boots s) \<Longrightarrow> la_stack s \<Longrightarrow> started_stack (la_boots s ! i) \<Longrightarrow> launcher_ok (wait_turn i v d now s)"
  by (auto simp: launcher_inv launcher_parts wait_turn_def)

lemma core_boots: "core t = core s \<Longrightarrow> la_boots t = la_boots s" "core t = core s \<Longrightarrow> la_commands t = la_commands s"
  "core t = core s \<Longrightarrow> la_busy t = la_busy s" "core t = core s \<Longrightarrow> la_quitting t = la_quitting s"
  by (simp_all add: core_def)

lemma ok_show: "launcher_ok s \<Longrightarrow> launcher_ok (showDockerState m b s)"
  by (rule launcher_ok_core [of s]) simp_all

lemma ok_arm: "launcher_ok s \<Longrightarrow> launcher_ok (arm s)"
  by (rule launcher_ok_core [of s]) simp_all

lemma ok_drop_timer: "launcher_ok s \<Longrightarrow> launcher_ok (drop_timer k s)"
  by (rule launcher_ok_core [of s]) simp_all

lemma ok_set_timer: "launcher_ok s \<Longrightarrow> launcher_ok (set_timer k p s)"
  by (rule launcher_ok_core [of s]) simp_all

lemma issue_fields [simp]: "la_boots (issue c s) = la_boots s" "la_busy (issue c s) = la_busy s" "la_stack (issue c s) = la_stack s"
  "la_quitting (issue c s) = la_quitting s" "la_exited (issue c s) = la_exited s" "la_phase (issue c s) = la_phase s" "la_log (issue c s) = la_log s"
  by (simp_all add: issue_def)

lemma issue_counts: "ups (issue c s) = ups s + (if is_up c then 1 else 0)"
  "count_list (la_commands (issue c s)) d = count_list (la_commands s) d + (if c = d then 1 else 0)"
  by (simp_all add: ups_def issue_def)

lemma ok_issue: "launcher_ok s \<Longrightarrow> \<not> is_up c \<Longrightarrow> c \<noteq> CmdDown \<Longrightarrow> launcher_ok (issue c s)"
  by (auto simp: launcher_ok_def one_boot_def commands_ok_def shutdown_ok_def issue_counts)

lemma ok_no_docker: "launcher_ok s \<Longrightarrow> i < length (la_boots s) \<Longrightarrow> launcher_ok (no_docker m b i s)"
proof -
  assume s: "launcher_ok s" "i < length (la_boots s)"
  have c: "core (watchDocker (showDockerState m b s)) = core s" by simp
  then have "launcher_ok (watchDocker (showDockerState m b s))" by (rule launcher_ok_core [OF s(1)]) simp
  then show ?thesis unfolding no_docker_def by (rule ok_finish(2)) (simp add: core_boots(1) [OF c] s(2))
qed

lemma one_boot_at: "launcher_ok s \<Longrightarrow> i < length (la_boots s) \<Longrightarrow> i = 0 \<and> la_boots s = [la_boots s ! i]"
  by (auto simp: launcher_ok_def one_boot_def)

lemma ok_goto: "launcher_ok s \<Longrightarrow> la_boots s = [b] \<Longrightarrow> between [b'] \<le> between [b] \<Longrightarrow> (started_stack b' \<longrightarrow> la_stack s) \<Longrightarrow>
    launcher_ok (goto 0 b' s)"
  by (simp add: launcher_ok_def one_boot_def commands_ok_def shutdown_ok_def goto_def ups_def) blast

lemma ok_status: "launcher_ok s \<Longrightarrow> p \<noteq> ''ready'' \<Longrightarrow> launcher_ok (setStatus p t s)"
  by (rule launcher_ok_core) (simp_all add: core_def setStatus_def)

lemma status_fields [simp]: "la_boots (setStatus p t s) = la_boots s" "la_stack (setStatus p t s) = la_stack s"
  by (simp_all add: setStatus_def)

lemma ok_probe_compose: "launcher_ok s \<Longrightarrow> la_boots s = [AtInfo] \<Longrightarrow> launcher_ok (issue CmdComposeVersion (goto 0 AtCompose s))"
  by (simp add: launcher_inv issue_def goto_def) blast

lemma ok_bring_up: "launcher_ok s \<Longrightarrow> \<not> la_exited s \<Longrightarrow> la_boots s = [AtResolve] \<Longrightarrow>
    launcher_ok (issue (CmdUp v) (goto 0 (AtUp v) ((setStatus ''starting'' t s)\<lparr>la_stack := True\<rparr>)))"
  by (simp add: launcher_inv issue_def goto_def setStatus_def)

lemma ok_resume0:
  assumes "launcher_ok s" "la_boots s = [b]" "\<not> la_exited s"
  shows "launcher_ok (resume m 0 b o' s)"
proof -
  have d: "launcher_ok (no_docker m x 0 s)" for x using assms by (simp add: ok_no_docker)
  have f: "p = ''ready'' \<longrightarrow> la_stack s \<Longrightarrow> launcher_ok (finish 0 (setStatus p t s))" for p t using assms by (simp add: ok_finish)
  have st: "started_stack b \<Longrightarrow> la_stack s" using assms by (auto simp: launcher_ok_def one_boot_def)
  have w: "started_stack b \<Longrightarrow> launcher_ok (wait_turn 0 v x now s)" for v x now
    using assms st by (simp add: ok_wait_turn)
  have w': "started_stack b \<Longrightarrow> launcher_ok (wait_turn 0 v x now (setStatus ''waiting'' t s))" for v x now t
    using assms st by (simp add: ok_wait_turn ok_status)
  note g = ok_goto [OF assms(1,2), unfolded between_def]
  show ?thesis
  proof (cases b)
    case AtVersion
    then show ?thesis using assms(1) by (cases o') (simp_all add: d g ok_issue)
  next
    case AtInfo
    then show ?thesis using assms by (cases o') (simp_all add: d ok_probe_compose)
  next
    case AtCompose
    then show ?thesis using assms by (cases o') (simp_all add: f ok_goto ok_status between_def)
  next
    case AtResolve
    then show ?thesis using assms by (cases o') (simp_all add: f ok_bring_up split: sum.split)
  next
    case (AtUp v)
    then show ?thesis using assms w' by (cases o') (simp_all add: f)
  next
    case (AtHealth v x)
    then show ?thesis using assms st by (cases o') (simp_all add: f g)
  next
    case (AtSleep v x)
    then show ?thesis using assms w by (cases o') simp_all
  next
    case AtLogs
    then show ?thesis using assms by (cases o') (simp_all add: f)
  qed
qed

lemma ok_resume: "launcher_ok s \<Longrightarrow> \<not> la_exited s \<Longrightarrow> i < length (la_boots s) \<Longrightarrow> launcher_ok (resume m i (la_boots s ! i) o' s)"
  using one_boot_at [of s i] ok_resume0 [of s "la_boots s ! i"] by auto

lemma ok_poll_waits: "launcher_ok s \<Longrightarrow> launcher_ok (poll_waits m b k s)"
  by (simp add: poll_waits_def ok_arm ok_drop_timer ok_show)

lemma ok_poll:
  assumes "launcher_ok s"
  shows "launcher_ok (poll_step m k p c s)"
proof (cases p)
  case Armed
  have "launcher_ok ((drop_timer k s)\<lparr>la_watch := None\<rparr>)"
    by (rule launcher_ok_core [OF assms]) (simp_all add: core_def drop_timer_def)
  then show ?thesis using Armed assms by (simp add: ok_issue ok_set_timer)
next
  case PollVersion
  then show ?thesis using assms by (simp add: ok_poll_waits ok_issue ok_set_timer)
next
  case PollInfo
  have "launcher_ok ((drop_timer k s)\<lparr>la_watch := None, la_launched := False, la_log := log_append (la_log s) t\<rparr>)" for t
    using assms log_append_length [of "la_log s" t] by (auto simp: launcher_inv drop_timer_def)
  then show ?thesis using PollInfo assms by (simp add: ok_poll_waits ok_boot_start)
qed

lemma ok_launch_step: "launch_step m s t \<Longrightarrow> launcher_ok s \<Longrightarrow> launcher_ok t"
proof (induction rule: launch_step.induct)
  case (updating s t)
  show ?case by (rule launcher_ok_core [OF updating(3)]) (simp_all add: core_def setStatus_def)
next
  case (quit s)
  then show ?case by (auto simp: launcher_inv before_quit_def setStatus_def issue_def)
next
  case (down s)
  then show ?case by (auto simp: launcher_inv)
next
  case (logs s t)
  then show ?case using log_append_length [of "la_log s" t] by (auto simp: launcher_inv)
qed (simp_all add: ok_boot_start ok_resume ok_poll)

lemma launcher_ok_0: "launcher_ok launcher0"
  by (simp add: launcher_inv launcher0_def)


section \<open>What the launcher does not keep\<close>

text \<open>A run as a list of events, for the executions below.\<close>

datatype launch_event = Start | Resume outcome | Poll nat int | Quit

fun launch_run :: "machine \<Rightarrow> launch_event list \<Rightarrow> launcher \<Rightarrow> launcher option" where
  "launch_run m [] s = Some s"
| "launch_run m (e # es) s = (if la_exited s then None else case e of
       Start \<Rightarrow> launch_run m es (boot_start s)
     | Resume r \<Rightarrow> (case la_boots s of [] \<Rightarrow> None | b # bs \<Rightarrow> launch_run m es (resume m 0 b r s))
     | Poll k c \<Rightarrow> (case map_of (la_timers s) k of None \<Rightarrow> None | Some p \<Rightarrow> launch_run m es (poll_step m k p c s))
     | Quit \<Rightarrow> launch_run m es (before_quit s))"

lemma launch_run_reach: "launch_run m es s = Some t \<Longrightarrow> launch_reach m s \<Longrightarrow> launch_reach m t"
proof (induction m es s rule: launch_run.induct)
  case (2 m e es s)
  have r: "launch_reach m u" if "launch_step m s u" for u using next_step [OF 2(6) that] .
  have "launch_reach m (boot_start s)" "launch_reach m (before_quit s)" if "\<not> la_exited s"
    using that by (auto intro: r launch_step.intros)
  moreover have "launch_reach m (resume m 0 b x s)" if "\<not> la_exited s" "la_boots s = b # bs" for b bs x
    using r [OF resumes [of s 0 m x]] that by simp
  moreover have "launch_reach m (poll_step m k p c s)" if "\<not> la_exited s" "map_of (la_timers s) k = Some p" for k p c
    using r [OF polls [OF that(1) map_of_SomeD [OF that(2)]]] .
  ultimately show ?case using 2
    by (auto split: if_splits launch_event.splits list.splits option.splits)
qed simp

definition linux_pc :: machine where
  "linux_pc = \<lparr>mc_platform = ''linux'', mc_arm = False, mc_desktop = False, mc_spawns = True, mc_packaged = True,
     mc_version = ''1.0.0'', mc_skip_pull = False, mc_release_api = ''https://api.github.com''\<rparr>"

text \<open>Docker is checked by hand while the watch is probing it.\<close>

definition check_now :: "launch_event list" where
  "check_now = [Start, Resume (Exit 0), Resume (Exit 1), Poll 0 0, Poll 0 0, Start, Resume (Exit 0), Resume (Exit 1), Poll 0 1]"

text \<open>The user quits after a restart, while the update check is running.\<close>

definition quit_early :: "launch_event list" where
  "quit_early = [Start, Resume (Exit 0), Resume (Exit 0), Resume (Exit 0), Resume (Resolved (Inr ''1.0.0'')), Resume (ExitAt 1 0 0),
     Start, Resume (Exit 0), Resume (Exit 0), Resume (Exit 0), Quit, Resume (Resolved (Inr ''1.0.0''))]"

text \<open>A launcher that has run along both: two timers of the watch are armed at once, and containers are
  started after they were taken down.\<close>

lemma two_watches: "map_option la_timers (launch_run linux_pc check_now launcher0) = Some [(1, Armed), (2, Armed)]"
  by code_simp

lemma up_after_down: "map_option (\<lambda>s. (drop 8 (la_commands s), la_quitting s)) (launch_run linux_pc quit_early launcher0) =
    Some ([CmdUp ''1.0.0''], True)"
  by code_simp

lemma ran: "launch_run m es launcher0 = Some s \<Longrightarrow> launch_reach m s"
  by (rule launch_run_reach [OF _ launch_reach.init])


end
