(* ===== verification/DesktopStatus.thy ===== *)
theory DesktopStatus
  imports Desktop
begin

text \<open>
  The launcher's status page, \<open>src/desktop/status.js\<close>: the elements it builds, what it shows for a
  status, and its copy of the log. Typographic quotes are written plainly, an ellipsis as three dots.
\<close>

section \<open>Elements\<close>

datatype action = OpenHelp string | OpenDocker | StartDocker

text \<open>An element: its tag, its properties, what a click on it does, and its children.\<close>

datatype dom = Text string | El string "(string \<times> string) list" "action option" "dom list"

abbreviation el :: "string \<Rightarrow> dom list \<Rightarrow> dom" where
  "el t ds \<equiv> El t [] None ds"

definition button :: "string \<Rightarrow> action \<Rightarrow> bool \<Rightarrow> dom" where
  "button label act primary =
     El ''button'' [(''type'', ''button''), (''className'', if primary then ''primary'' else '''')] (Some act) [Text label]"

definition waiting :: dom where
  "waiting = El ''p'' [(''className'', ''waiting'')] None
     [Text ''This window is watching for Docker and continues on its own. No need to press anything.'']"

definition WINDOWS_GUIDE :: string where
  "WINDOWS_GUIDE = ''https://docs.docker.com/desktop/setup/install/windows-install/''"

definition WSL_GUIDE :: string where
  "WSL_GUIDE = ''https://learn.microsoft.com/windows/wsl/install''"

definition windowsTroubleshooting :: dom where
  \<open>windowsTroubleshooting = el ''details'' [
     el ''summary'' [Text ''Docker Desktop shows an error about WSL or virtualization''],
     el ''ul'' [
       el ''li'' [Text ''"WSL needs updating" or "WSL 2 installation is incomplete": open PowerShell as administrator, run '',
         el ''code'' [Text ''wsl --update''], Text '', then quit and reopen Docker Desktop.''],
       el ''li'' [Text ''WSL is not installed at all: in PowerShell as administrator run '',
         el ''code'' [Text ''wsl --install''], Text '', then restart Windows.''],
       el ''li'' [Text (''"Virtualization support not detected": virtualization is switched off in the PC's firmware. '' @
         ''Restart into the BIOS/UEFI settings and enable Intel VT-x or AMD-V (sometimes called SVM), then start Windows again.'')]],
     El ''div'' [(''className'', ''links'')] None [
       button ''Docker's Windows install guide'' (OpenHelp WINDOWS_GUIDE) False,
       button ''Microsoft's WSL guide'' (OpenHelp WSL_GUIDE) False]]\<close>

definition installSteps :: "string \<Rightarrow> string \<Rightarrow> dom list" where
  \<open>installSteps platform label =
     (let download = button (''Download Docker Desktop '' @ label) OpenDocker True in
      if platform = ''win32'' then [
        el ''h2'' [Text ''Install Docker Desktop''],
        El ''p'' [(''className'', ''note'')] None [Text (''On Windows, Docker Desktop runs on WSL 2 (Windows Subsystem for Linux). '' @
          ''The installer sets it up for you, but it needs administrator rights and a restart.'')],
        el ''ol'' [
          el ''li'' [download, Text '' About 600 MB.''],
          el ''li'' [Text ''Run the installer. Keep "Use WSL 2 instead of Hyper-V" ticked.''],
          el ''li'' [Text ''Restart Windows when the installer asks, then open IASG again.''],
          el ''li'' [Text ''Open Docker Desktop and accept its terms. Signing in is optional.''],
          el ''li'' [Text ''Wait until Docker Desktop shows "Engine running".'']],
        waiting,
        windowsTroubleshooting]
      else if platform = ''darwin'' then [
        el ''h2'' [Text ''Install Docker Desktop''],
        el ''ol'' [
          el ''li'' [download, Text '' About 600 MB.''],
          el ''li'' [Text ''Open the downloaded file and drag Docker into Applications.''],
          el ''li'' [Text ''Open Docker from Applications and accept its terms. Signing in is optional.''],
          el ''li'' [Text ''Wait until Docker Desktop shows "Engine running".'']],
        waiting]
      else [
        el ''h2'' [Text ''Install Docker''],
        el ''ol'' [
          el ''li'' [button ''Docker's install guide for Linux'' OpenDocker True],
          el ''li'' [Text ''Start Docker, then make sure your user can run '', el ''code'' [Text ''docker info''], Text '' without sudo.'']],
        waiting])\<close>

definition linuxStartSteps :: "dom list" where
  "linuxStartSteps =
     (let command = (\<lambda>t. el ''code'' [Text t]) in [
        el ''h2'' [Text ''Start Docker''],
        el ''ol'' [
          el ''li'' [Text ''Start the Docker service: '', command ''sudo systemctl start docker'',
            Text ''. With Docker Desktop, open it from your applications instead.''],
          el ''li'' [Text ''Let your user run Docker without sudo: '', command ''sudo usermod -aG docker $USER'', Text '', then log out and back in.''],
          el ''li'' [Text ''Check that '', command ''docker info'', Text '' works in a terminal without sudo.'']],
        waiting])"

text \<open>The steps with the \<open>null\<close> already filtered out.\<close>

definition startSteps :: "string \<Rightarrow> dom list" where
  \<open>startSteps platform =
     (if platform = ''linux'' then linuxStartSteps
      else [
        el ''h2'' [Text ''Waiting for Docker Desktop''],
        El ''p'' [(''className'', ''note'')] None [Text (''The first start takes a minute or two. If this is Docker Desktop's first run, '' @
          ''it asks you to accept its terms before it starts.'')],
        El ''div'' [(''className'', ''links'')] None [button ''Show Docker Desktop'' StartDocker False],
        waiting] @ (if platform = ''win32'' then [windowsTroubleshooting] else []))\<close>

section \<open>The page\<close>

record page =
  pg_message :: string
  pg_tone :: string
  pg_retry_hidden :: bool
  pg_retry :: string
  pg_retry_class :: string
  pg_dashboard_hidden :: bool
  pg_setup :: "dom list"
  pg_setup_hidden :: bool
  pg_setup_key :: string
  pg_details :: bool
  pg_log :: string
  pg_scroll :: int

definition FAILED :: "string list" where "FAILED = [''error'', ''no-docker'', ''docker-stopped'']"
definition WAITING_ON_DOCKER :: "string list" where "WAITING_ON_DOCKER = [''no-docker'', ''docker-stopped'']"

definition setup_key :: "machine \<Rightarrow> string \<Rightarrow> string" where
  "setup_key m ph = (if ph \<in> set WAITING_ON_DOCKER then ph @ '':'' @ mc_platform m else '''')"

definition setup_steps :: "machine \<Rightarrow> string \<Rightarrow> dom list" where
  "setup_steps m ph = (if ph = ''no-docker'' then installSteps (mc_platform m) (snd (dockerInstaller m))
     else if ph = ''docker-stopped'' then startSteps (mc_platform m) else [])"

definition renderSetup :: "machine \<Rightarrow> string \<Rightarrow> page \<Rightarrow> page" where
  "renderSetup m ph p =
     (if setup_key m ph = pg_setup_key p then p
      else p\<lparr>pg_setup_key := setup_key m ph, pg_setup := setup_steps m ph, pg_setup_hidden := (setup_key m ph = '''')\<rparr>)"

definition renderStatus :: "machine \<Rightarrow> string \<times> string \<Rightarrow> page \<Rightarrow> page" where
  "renderStatus m st p =
     (let (ph, message) = st;
          q = renderSetup m ph (p\<lparr>pg_message := message,
            pg_tone := (if ph = ''error'' then ''bad'' else if ph = ''ready'' then ''good'' else ''busy''),
            pg_retry_hidden := (\<not> ph \<in> set FAILED \<and> ph \<noteq> ''ready''),
            pg_retry := (if ph = ''ready'' then ''Restart'' else if ph \<in> set WAITING_ON_DOCKER then ''Check now'' else ''Retry''),
            pg_retry_class := (if ph \<in> set WAITING_ON_DOCKER then '''' else ''primary''),
            pg_dashboard_hidden := (ph \<noteq> ''ready'')\<rparr>)
      in if ph = ''error'' then q\<lparr>pg_details := True\<rparr> else q)"

text \<open>\<open>height t\<close> is the scroll height of the log element when it holds \<open>t\<close>, \<open>client\<close> its visible height.\<close>

definition NL :: string where "NL = [char_of (10::nat)]"

definition appendLog :: "(string \<Rightarrow> int) \<Rightarrow> int \<Rightarrow> string list \<Rightarrow> page \<Rightarrow> page" where
  "appendLog height client lines p =
     (let nearBottom = (height (pg_log p) - pg_scroll p - client < 40);
          t = (if pg_log p \<noteq> [] then pg_log p @ NL else []) @ join NL lines;
          all = split_on (char_of (10::nat)) t;
          u = (if length all > 200 then join NL (last_n 200 all) else t)
      in p\<lparr>pg_log := u, pg_scroll := (if nearBottom then height u else pg_scroll p)\<rparr>)"

text \<open>The answer to \<open>getState\<close> when the page opens.\<close>

definition opened :: "(string \<Rightarrow> int) \<Rightarrow> int \<Rightarrow> machine \<Rightarrow> launcher \<Rightarrow> page \<Rightarrow> page" where
  "opened height client m s p =
     (let q = renderStatus m (la_phase s, la_message s) p in if la_log s \<noteq> [] then appendLog height client (la_log s) q else q)"

text \<open>The page as \<open>status.html\<close> has it.\<close>

definition page0 :: page where
  "page0 = \<lparr>pg_message = ''Starting...'', pg_tone = ''busy'', pg_retry_hidden = True, pg_retry = ''Retry'', pg_retry_class = ''primary'',
     pg_dashboard_hidden = True, pg_setup = [], pg_setup_hidden = True, pg_setup_key = [], pg_details = False, pg_log = [], pg_scroll = 0\<rparr>"

section \<open>The page shows the status\<close>

text \<open>What the buttons of an element ask for, and which of it the launcher answers by opening or starting something.\<close>

fun actions :: "dom \<Rightarrow> action list" where
  "actions (Text t) = []"
| "actions (El t ps a ds) = (case a of None \<Rightarrow> [] | Some x \<Rightarrow> [x]) @ concat (map actions ds)"

fun answered :: "machine \<Rightarrow> action \<Rightarrow> bool" where
  "answered m (OpenHelp url) = (open_help url = Some url)"
| "answered m OpenDocker = starts_with ''https://'' (fst (dockerInstaller m))"
| "answered m StartDocker = (mc_platform m \<noteq> ''linux'')"

lemma guides_known [simp]: "open_help WINDOWS_GUIDE = Some WINDOWS_GUIDE" "open_help WSL_GUIDE = Some WSL_GUIDE"
  by (simp_all add: open_help_def HELP_LINKS_def WINDOWS_GUIDE_def WSL_GUIDE_def)

lemma installer_https [simp]: "starts_with ''https://'' (fst (dockerInstaller m))"
  by (simp add: dockerInstaller_def starts_with_def)

lemmas action_rules = actions.simps option.case list.map concat.simps append.simps

lemma actions_button: "actions (button l a p) = [a]"
  by (simp only: button_def action_rules)

lemma actions_waiting: "actions waiting = []"
  by (simp only: waiting_def action_rules)

lemma actions_troubleshooting: "actions windowsTroubleshooting = [OpenHelp WINDOWS_GUIDE, OpenHelp WSL_GUIDE]"
  by (simp only: windowsTroubleshooting_def actions_button action_rules)

lemmas element_actions = actions_button actions_waiting actions_troubleshooting

lemma install_actions: "concat (map actions (installSteps pl l)) =
   (if pl = ''win32'' then [OpenDocker, OpenHelp WINDOWS_GUIDE, OpenHelp WSL_GUIDE] else [OpenDocker])"
  by (simp only: installSteps_def Let_def if_distrib [of actions] if_distrib [of "map actions"] if_distrib [of concat] element_actions action_rules
      if_cancel)

lemma start_actions: "concat (map actions (startSteps pl)) =
   (if pl = ''linux'' then [] else [StartDocker] @ (if pl = ''win32'' then [OpenHelp WINDOWS_GUIDE, OpenHelp WSL_GUIDE] else []))"
  by (simp only: startSteps_def linuxStartSteps_def Let_def if_distrib [of actions] if_distrib [of "map actions"] if_distrib [of concat]
      map_append concat_append element_actions action_rules)

lemma steps_answered: "list_all (answered m) (concat (map actions (setup_steps m ph)))"
proof -
  have i: "list_all (answered m) (concat (map actions (installSteps (mc_platform m) l)))" for l
    unfolding install_actions by simp
  have b: "list_all (answered m) (concat (map actions (startSteps (mc_platform m))))"
    unfolding start_actions by (simp split: if_split)
  show ?thesis unfolding setup_steps_def using i b by (simp only: list.map concat.simps list.pred_inject(1) split: if_split) simp
qed

text \<open>The setup section is the one for its key.\<close>

definition setup_ok :: "machine \<Rightarrow> page \<Rightarrow> bool" where
  "setup_ok m p \<longleftrightarrow> pg_setup_hidden p = (pg_setup_key p = []) \<and>
     (\<forall>ph. setup_key m ph = pg_setup_key p \<longrightarrow> pg_setup p = setup_steps m ph)"

lemma setup_key_steps: "setup_key m x = setup_key m y \<Longrightarrow> setup_steps m x = setup_steps m y"
  by (auto simp: setup_key_def setup_steps_def WAITING_ON_DOCKER_def split: if_splits)

lemma renderSetup_ok: "setup_ok m p \<Longrightarrow> setup_ok m (renderSetup m ph p)"
proof (cases "setup_key m ph = pg_setup_key p")
  case False
  then have "renderSetup m ph p = p\<lparr>pg_setup_key := setup_key m ph, pg_setup := setup_steps m ph, pg_setup_hidden := (setup_key m ph = [])\<rparr>"
    by (simp only: renderSetup_def if_False)
  then show ?thesis by (simp add: setup_ok_def) (metis setup_key_steps)
qed (simp add: renderSetup_def)

lemma renderSetup_fields [simp]: "pg_setup_key (renderSetup m ph p) = setup_key m ph" "pg_message (renderSetup m ph p) = pg_message p"
  "pg_dashboard_hidden (renderSetup m ph p) = pg_dashboard_hidden p" "pg_log (renderSetup m ph p) = pg_log p"
  by (simp_all add: renderSetup_def)

lemma setup_ok_cong: "setup_ok m p \<Longrightarrow> pg_setup_hidden q = pg_setup_hidden p \<Longrightarrow> pg_setup_key q = pg_setup_key p \<Longrightarrow> pg_setup q = pg_setup p \<Longrightarrow> setup_ok m q"
  by (simp only: setup_ok_def) simp

lemma renderStatus_fields:
  assumes "setup_ok m p"
  shows "setup_ok m (renderStatus m (ph, t) p)" "pg_setup_key (renderStatus m (ph, t) p) = setup_key m ph"
    "pg_message (renderStatus m (ph, t) p) = t" "pg_dashboard_hidden (renderStatus m (ph, t) p) = (ph \<noteq> ''ready'')"
    "pg_log (renderStatus m (ph, t) p) = pg_log p"
proof -
  have 1: "setup_ok m (renderSetup m ph (p\<lparr>pg_message := t, pg_tone := a, pg_retry_hidden := b, pg_retry := c, pg_retry_class := d, pg_dashboard_hidden := e\<rparr>))"
    for a b c d e by (rule renderSetup_ok, rule setup_ok_cong [OF assms]) simp_all
  have 2: "setup_ok m (q\<lparr>pg_details := True\<rparr>)" if "setup_ok m q" for q
    by (rule setup_ok_cong [OF that]) simp_all
  show "setup_ok m (renderStatus m (ph, t) p)" unfolding renderStatus_def Let_def prod.case
    by (rule if_split [THEN iffD2]) (intro conjI impI 1 2)
qed (simp_all only: renderStatus_def Let_def prod.case split: if_split, simp_all)

lemma setup_ok_page0: "setup_ok m page0"
  by (auto simp: setup_ok_def page0_def setup_key_def setup_steps_def WAITING_ON_DOCKER_def split: if_splits)

lemma setup_ok_fold: "setup_ok m p \<Longrightarrow> setup_ok m (fold (renderStatus m) sts p)"
  by (induction sts arbitrary: p) (auto simp: renderStatus_fields(1))

text \<open>Although the setup section is rebuilt only when its key changes, after any sequence of
  statuses the page shows the message and the steps of the last one, hidden exactly when the launcher is not
  waiting for Docker; and every button in the steps asks for something the launcher answers.\<close>

theorem page_follows_status:
  "let p = fold (renderStatus m) (sts @ [(ph, t)]) page0 in
     pg_message p = t \<and> pg_setup p = setup_steps m ph \<and> pg_setup_hidden p = (ph \<notin> set WAITING_ON_DOCKER) \<and>
     pg_dashboard_hidden p = (ph \<noteq> ''ready'') \<and> list_all (answered m) (concat (map actions (pg_setup p)))"
proof -
  have k: "setup_ok m (fold (renderStatus m) sts page0)" by (rule setup_ok_fold [OF setup_ok_page0])
  show ?thesis
    using renderStatus_fields [OF k, of ph t] steps_answered [of m ph]
    by (auto simp: Let_def setup_ok_def setup_key_def)
qed

section \<open>The page shows the log\<close>

definition lines_ok :: "string list \<Rightarrow> bool" where
  "lines_ok = list_all (\<lambda>l. l \<noteq> [] \<and> char_of (10::nat) \<notin> set l)"

lemma lines_ok_log_lines: "lines_ok (log_lines t)"
proof -
  have n: "\<forall>l \<in> set (text_lines t). char_of (10::nat) \<notin> set l"
    using split_on_no_sep [of _ "char_of (10::nat)" t]
    by (auto simp: text_lines_def Let_def drop_cr_def dest!: in_set_butlastD)
  have "trim [] = []" by code_simp
  then show ?thesis using n by (auto simp: lines_ok_def list_all_iff log_lines_def)
qed

lemma lines_ok_append: "lines_ok b \<Longrightarrow> lines_ok (log_append b t)"
  using lines_ok_log_lines [of t] set_drop_subset [of _ "b @ log_lines t"]
  by (fastforce simp: lines_ok_def list_all_iff log_append_def last_n_def Let_def simp del: drop_append)

lemma join_Nil_iff: "lines_ok b \<Longrightarrow> join NL b = [] \<longleftrightarrow> b = []"
  by (cases b; cases "tl b") (auto simp: lines_ok_def NL_def join_Cons)

lemma join_append: "xs \<noteq> [] \<Longrightarrow> ys \<noteq> [] \<Longrightarrow> join s (xs @ ys) = join s xs @ s @ join s ys"
proof (induction xs)
  case (Cons a xs)
  then show ?case by (cases xs) (simp_all add: join_Cons)
qed simp

text \<open>Showing lines on the page is appending them to the buffer.\<close>

lemma appendLog_buffer:
  assumes "lines_ok b" "lines_ok ls" "ls \<noteq> []" "pg_log p = join NL b"
  shows "pg_log (appendLog h c ls p) = join NL (last_n LOG_LINES (b @ ls))"
proof -
  have t: "(if pg_log p \<noteq> [] then pg_log p @ NL else []) @ join NL ls = join NL (b @ ls)"
    using assms by (auto simp: join_Nil_iff join_append)
  have "split_on (char_of (10::nat)) (join NL (b @ ls)) = b @ ls"
    unfolding NL_def using assms by (intro split_on_join) (auto simp: lines_ok_def list_all_iff)
  then show ?thesis
    unfolding appendLog_def t Let_def by (simp add: last_n_def LOG_LINES_def del: drop_append)
qed

definition show_log :: "(string \<Rightarrow> int) \<Rightarrow> int \<Rightarrow> string \<Rightarrow> page \<Rightarrow> page" where
  "show_log h c t p = (let ls = log_lines t in if ls = [] then p else appendLog h c ls p)"

lemma show_log_buffer: "lines_ok b \<Longrightarrow> pg_log p = join NL b \<Longrightarrow> pg_log (show_log h c t p) = join NL (log_append b t)"
  by (simp add: show_log_def log_append_def Let_def appendLog_buffer lines_ok_log_lines)

lemma show_logs_buffer: "lines_ok b \<Longrightarrow> pg_log p = join NL b \<Longrightarrow>
    pg_log (fold (show_log h c) ts p) = join NL (fold (\<lambda>t b. log_append b t) ts b)"
  by (induction ts arbitrary: b p) (simp_all add: show_log_buffer lines_ok_append)

lemma log_kept [simp]: "la_log (setStatus p t s) = la_log s" "la_log (issue c s) = la_log s" "la_log (goto i bt s) = la_log s"
  "la_log (finish i s) = la_log s" "la_log (watchDocker s) = la_log s" "la_log (boot_start s) = la_log s" "la_log (arm s) = la_log s"
  "la_log (wait_turn i v d now s) = la_log s" "la_log (drop_timer k s) = la_log s" "la_log (set_timer k q s) = la_log s"
  "la_log (before_quit s) = la_log s" "la_log (showDockerState m b s) = la_log s" "la_log (no_docker m b i s) = la_log s" "la_log (poll_waits m b k s) = la_log s"
  by (simp_all add: launcher_parts boot_start_def wait_turn_def before_quit_def no_docker_def poll_waits_def Let_def)

lemma resume_log: "la_log (resume m i b r s) = la_log s"
  by (cases "(m, i, b, r, s)" rule: resume.cases) (simp_all split: sum.split)

lemma step_log: "launch_step m s t \<Longrightarrow> la_log t = la_log s \<or> (\<exists>x. la_log t = log_append (la_log s) x)"
proof (induction rule: launch_step.induct)
  case (polls s k p c)
  then show ?case by (cases p) auto
qed (auto simp: resume_log)

lemma reach_lines_ok: "launch_reach m s \<Longrightarrow> lines_ok (la_log s)"
proof (induction rule: launch_reach.induct)
  case (next_step s t)
  then show ?case using step_log [OF next_step(2)] lines_ok_append [of "la_log s"] by auto
qed (simp add: launcher0_def lines_ok_def)

lemma opened_log:
  assumes "launch_reach m s"
  shows "pg_log (opened h c m s page0) = join NL (la_log s)"
proof -
  have p: "pg_log (renderStatus m (la_phase s, la_message s) page0) = join NL []"
    using renderStatus_fields(5) [OF setup_ok_page0] by (simp add: page0_def)
  have "launcher_ok s" using assms by (induction) (simp_all add: launcher_ok_0 ok_launch_step)
  then have "last_n LOG_LINES (la_log s) = la_log s" by (simp add: launcher_ok_def last_n_def)
  then show ?thesis
    using appendLog_buffer [OF _ reach_lines_ok [OF assms] _ p] p by (simp add: opened_def Let_def lines_ok_def)
qed

text \<open>The page opened on any launcher shows that launcher's log, and keeps showing it: after any
  texts are logged, its text is the launcher's log buffer, line by line, so it too stops at 200 lines.\<close>

theorem page_follows_log:
  assumes "launch_reach m s"
  shows "pg_log (fold (show_log h c) ts (opened h c m s page0)) = join NL (fold (\<lambda>t b. log_append b t) ts (la_log s))"
  by (rule show_logs_buffer [OF reach_lines_ok [OF assms] opened_log [OF assms]])

theorem page_follows_log_witness:
  "pg_log (fold (show_log (\<lambda>t. 0) 0) [''Docker is running'', '' '', ''b'' @ [char_of (13::nat), char_of (10::nat)] @ ''c''] (opened (\<lambda>t. 0) 0 linux_pc launcher0 page0)) =
     join NL [''Docker is running'', ''b'', ''c'']"
proof -
  have "fold (\<lambda>t b. log_append b t) [''Docker is running'', '' '', ''b'' @ [char_of (13::nat), char_of (10::nat)] @ ''c''] (la_log launcher0) =
     [''Docker is running'', ''b'', ''c'']" by code_simp
  then show ?thesis unfolding page_follows_log [OF launch_reach.init] by (rule arg_cong)
qed

end
