(* ===== verification/Export.thy ===== *)
theory Export
  imports RoutesRead
begin

text \<open>
  Downloads of what the console shows, \<open>app/ui/export.js\<close>: CSV text and the columns of each view, file
  names, and the snapshot of a view. What is asked of the browser is a command; \<open>JSON.stringify\<close> and
  the local clock are arguments. \<open>csv_rows\<close> is a reader of RFC 4180 text, against which the writer is
  checked.
\<close>

section \<open>Cells\<close>

text \<open>\<open>xs.join(sep)\<close>: \<open>null\<close> and \<open>undefined\<close> are empty. Only arrays have the method.\<close>

definition arr_join :: "string \<Rightarrow> jval list \<Rightarrow> string" where
  "arr_join sep xs = join sep (map (\<lambda>x. if nullish x then [] else to_str x) xs)"

definition join_with :: "string \<Rightarrow> jval \<Rightarrow> jserr + jval" where
  "join_with sep v = (case v of JArr xs \<Rightarrow> Inr (JStr (arr_join sep xs)) | _ \<Rightarrow> Inl TypeError)"

definition DQ :: char where "DQ = char_of (34::nat)"
definition LF :: char where "LF = char_of (10::nat)"
definition CR :: char where "CR = char_of (13::nat)"

definition cell_text :: "jval \<Rightarrow> string" where
  "cell_text v = (if nullish v then [] else case v of JArr xs \<Rightarrow> arr_join '' '' xs | _ \<Rightarrow> to_str v)"

definition special :: "char \<Rightarrow> bool" where
  "special c \<longleftrightarrow> c = DQ \<or> c = CHR '','' \<or> c = LF \<or> c = CR"

definition double_quotes :: "string \<Rightarrow> string" where
  "double_quotes t = concat (map (\<lambda>c. if c = DQ then [DQ, DQ] else [c]) t)"

definition cell :: "jval \<Rightarrow> string" where
  "cell v = (let t = cell_text v in if list_ex special t then [DQ] @ double_quotes t @ [DQ] else t)"

section \<open>Tables\<close>

type_synonym column = "string \<times> (jval \<Rightarrow> jserr + jval)"

definition toCsv :: "jval list \<Rightarrow> column list \<Rightarrow> jserr + string" where
  "toCsv rows columns =
     (let head = join '','' (map (\<lambda>c. cell (JStr (fst c))) columns) in
      sbind (sum_map (\<lambda>row. sbind (sum_map (\<lambda>c. sbind (snd c row) (\<lambda>v. Inr (cell v))) columns) (\<lambda>cs. Inr (join '','' cs))) rows)
        (\<lambda>body. Inr (join [CR, LF] (head # body))))"

text \<open>\<open>(e) => e.k\<close> and \<open>(e) => (e.k || []).join(sep)\<close>.\<close>

definition field :: "string \<Rightarrow> jval \<Rightarrow> jserr + jval" where
  "field k e = dot e k"

definition list_field :: "string \<Rightarrow> string \<Rightarrow> jval \<Rightarrow> jserr + jval" where
  "list_field k sep e = sbind (dot e k) (\<lambda>v. join_with sep (jor v (JArr [])))"

definition EVENT_COLUMNS :: "column list" where
  "EVENT_COLUMNS = [(''time'', field ''ts''), (''ip'', field ''ip''), (''method'', field ''method''), (''path'', field ''path''),
     (''query'', field ''query''), (''status'', field ''status''), (''decision'', field ''decision''), (''risk'', field ''riskScore''),
     (''signals'', list_field ''fired'' '' ''), (''userAgent'', field ''userAgent''), (''backendMs'', field ''backendMs''), (''requestId'', field ''requestId'')]"

definition CAMPAIGN_COLUMNS :: "column list" where
  "CAMPAIGN_COLUMNS = [(''id'', field ''id''), (''type'', field ''type''), (''severity'', field ''severity''), (''status'', field ''status''),
     (''confidence'', field ''confidence''), (''events'', field ''events''), (''ips'', list_field ''ips'' '' ''), (''stages'', list_field ''stages'' '' > ''),
     (''lastAction'', field ''lastAction''), (''outcome'', field ''outcome''), (''reason'', field ''reason''), (''firstSeen'', field ''firstSeen''),
     (''lastSeen'', field ''lastSeen'')]"

definition POLICY_COLUMNS :: "column list" where
  "POLICY_COLUMNS = [(''ip'', field ''ip''), (''scopes'', list_field ''scopes'' '' | ''), (''action'', field ''action''), (''expiresIn'', field ''expiresIn''),
     (''campaignId'', field ''campaignId''), (''confidence'', field ''confidence''), (''source'', field ''source''), (''issuedAt'', field ''issuedAt''),
     (''reason'', field ''reason'')]"

section \<open>Files\<close>

text \<open>A local time: year, month from 0, day, hours, minutes, seconds.\<close>

record local_time =
  lt_year :: int
  lt_month :: int
  lt_day :: int
  lt_hours :: int
  lt_minutes :: int
  lt_seconds :: int

definition stamp :: "local_time \<Rightarrow> string \<Rightarrow> string \<Rightarrow> string" where
  "stamp now pre ext = ''iasg-'' @ pre @ ''-'' @ show_int (lt_year now) @ pad 2 (lt_month now + 1) @ pad 2 (lt_day now) @ ''-'' @
     pad 2 (lt_hours now) @ pad 2 (lt_minutes now) @ pad 2 (lt_seconds now) @ ''.'' @ ext"

datatype browser =
    CreateUrl string jval
  | AppendLink string jval
  | ClickLink
  | RemoveLink
  | RevokeLater int jval
  | AddClass string
  | RemoveClass string
  | NextFrame
  | BoundingRect
  | BodyColor
  | ToBlob jval jnum

type_synonym 'a web = "(browser, 'a) io"

text \<open>A link to a new object URL, clicked and removed; the URL is revoked a second later.\<close>

definition click_link :: "string \<Rightarrow> jval \<Rightarrow> unit web" where
  "click_link filename url = next_do (await (AppendLink filename url)) (\<lambda>_. next_do (await ClickLink) (\<lambda>_.
     next_do (await RemoveLink) (\<lambda>_. discard (await (RevokeLater 1000 url)))))"

definition download :: "string \<Rightarrow> string \<Rightarrow> string \<Rightarrow> unit web" where
  "download filename t mime = next_do (await (CreateUrl (mime @ '';charset=utf-8'') (JStr t))) (click_link filename)"

definition exportCsv :: "local_time \<Rightarrow> string \<Rightarrow> jval list \<Rightarrow> column list \<Rightarrow> unit web" where
  "exportCsv now pre rows columns = next_do (of_sum (toCsv rows columns)) (\<lambda>t. download (stamp now pre ''csv'') t ''text/csv'')"

definition exportJson :: "(jval \<Rightarrow> string) \<Rightarrow> local_time \<Rightarrow> string \<Rightarrow> jval list \<Rightarrow> unit web" where
  "exportJson stringify now pre rows = download (stamp now pre ''json'') (stringify (JArr rows)) ''application/json''"

section \<open>Snapshots\<close>

text \<open>\<open>Math.sqrt\<close>: the integer square root of the number scaled by \<open>4 ^ k\<close>, one bit at a time, with a last bit
  that says whether it is exact, rounded to a double.\<close>

fun isqrt_bits :: "nat \<Rightarrow> nat \<Rightarrow> nat \<Rightarrow> nat" where
  "isqrt_bits 0 n r = r"
| "isqrt_bits (Suc k) n r = isqrt_bits k n (if (r + 2 ^ k) * (r + 2 ^ k) \<le> n then r + 2 ^ k else r)"

definition sqrt_pos :: "rat \<Rightarrow> rat" where
  "sqrt_pos q = (let k = 56 - binexp q div 2; n = nat \<lfloor>q * pow2 (2 * k)\<rfloor>; r = isqrt_bits 60 n 0
     in (of_nat (2 * r) + (if of_nat (r * r) = q * pow2 (2 * k) then 0 else 1)) * pow2 (- k - 1))"

fun nsqrt :: "jnum \<Rightarrow> jnum" where
  "nsqrt (Fin q) = (if q < 0 then NaN else if q = 0 then Fin 0 else fl (sqrt_pos q))"
| "nsqrt PInf = PInf"
| "nsqrt NInf = NaN"
| "nsqrt NaN = NaN"

definition pixel_ratio :: "jval \<Rightarrow> jval \<Rightarrow> jnum" where
  "pixel_ratio width height = nmin (nint 2) (nsqrt (ndiv (nint 16000000) (nmax (nint 1) (nmul (to_num width) (to_num height)))))"

definition snapshotPng :: "local_time \<Rightarrow> bool \<Rightarrow> string \<Rightarrow> unit web" where
  "snapshotPng now node pre =
     (if \<not> node then throw (ServiceError ''nothing to snapshot'')
      else next_do (await (AddClass ''snapshotting'')) (\<lambda>_. next_do (await NextFrame) (\<lambda>_.
        try_finally
          (next_do (await BoundingRect) (\<lambda>rect. next_do (await BodyColor) (\<lambda>color.
           next_do (await (ToBlob (jor color (JStr ''#0b0d12'')) (pixel_ratio (jget rect ''width'') (jget rect ''height'')))) (\<lambda>blob.
           if \<not> truthy blob then throw (ServiceError ''the browser produced an empty image'')
           else next_do (await (CreateUrl [] blob)) (click_link (stamp now pre ''png''))))))
          (discard (await (RemoveClass ''snapshotting''))))))"

section \<open>Reading CSV\<close>

datatype csv_mode = Fresh | Plain | Quoted | Closing

function csv_rows :: "csv_mode \<Rightarrow> string \<Rightarrow> string list \<Rightarrow> string \<Rightarrow> string list list" where
  "csv_rows m acc row [] = [row @ [acc]]"
| "csv_rows m acc row (c # cs) =
     (if m = Quoted then (if c = DQ then csv_rows Closing acc row cs else csv_rows Quoted (acc @ [c]) row cs)
      else if m = Closing \<and> c = DQ then csv_rows Quoted (acc @ [DQ]) row cs
      else if m = Fresh \<and> c = DQ then csv_rows Quoted acc row cs
      else if c = CHR '','' then csv_rows Fresh [] (row @ [acc]) cs
      else if c = CR \<and> take 1 cs = [LF] then (row @ [acc]) # csv_rows Fresh [] [] (drop 1 cs)
      else csv_rows Plain (acc @ [c]) row cs)"
  by pat_completeness auto
termination by (relation "measure (\<lambda>(m, acc, row, cs). length cs)") auto

definition csv_read :: "string \<Rightarrow> string list list" where
  "csv_read t = csv_rows Fresh [] [] t"

section \<open>What is written can be read back\<close>

lemma separators [simp]: "CHR '','' \<noteq> DQ" "CHR '','' \<noteq> CR" "CR \<noteq> DQ" "CR \<noteq> CHR '',''" "DQ \<noteq> CHR '',''" "DQ \<noteq> CR"
  by (code_simp, code_simp, code_simp, code_simp, code_simp, code_simp)

declare csv_rows.simps(2) [simp del]

lemma csv_steps [simp]:
  "csv_rows Quoted acc row (DQ # cs) = csv_rows Closing acc row cs"
  "c \<noteq> DQ \<Longrightarrow> csv_rows Quoted acc row (c # cs) = csv_rows Quoted (acc @ [c]) row cs"
  "csv_rows Closing acc row (DQ # cs) = csv_rows Quoted (acc @ [DQ]) row cs"
  "csv_rows Fresh acc row (DQ # cs) = csv_rows Quoted acc row cs"
  "m \<noteq> Quoted \<Longrightarrow> csv_rows m acc row (CHR '','' # cs) = csv_rows Fresh [] (row @ [acc]) cs"
  "m \<noteq> Quoted \<Longrightarrow> csv_rows m acc row (CR # LF # cs) = (row @ [acc]) # csv_rows Fresh [] [] cs"
  "m \<noteq> Quoted \<Longrightarrow> \<not> special d \<Longrightarrow> csv_rows m acc row (d # cs) = csv_rows Plain (acc @ [d]) row cs"
  by (simp_all add: csv_rows.simps(2) special_def)

text \<open>What may follow a cell, and what may follow a line.\<close>

definition line_ends :: "string \<Rightarrow> bool" where
  "line_ends r \<longleftrightarrow> r = [] \<or> (\<exists>u. r = CR # LF # u)"

definition cell_ends :: "string \<Rightarrow> bool" where
  "cell_ends r \<longleftrightarrow> line_ends r \<or> (\<exists>u. r = CHR '','' # u)"

lemma ends_plain: "cell_ends r \<Longrightarrow> m = Fresh \<or> m = Closing \<Longrightarrow> csv_rows m acc row r = csv_rows Plain acc row r"
  by (auto simp: cell_ends_def line_ends_def)

lemma csv_quoted: "csv_rows Quoted acc row (double_quotes t @ DQ # r) = csv_rows Closing (acc @ t) row r"
  by (induction t arbitrary: acc) (simp_all add: double_quotes_def)

lemma csv_plain: "\<not> list_ex special t \<Longrightarrow> cell_ends r \<Longrightarrow> m \<noteq> Quoted \<Longrightarrow> csv_rows m acc row (t @ r) = csv_rows Plain (acc @ t) row r"
proof (induction t arbitrary: m acc)
  case Nil
  then show ?case using ends_plain [of r m acc row] by (cases m) auto
next
  case (Cons c t)
  then show ?case by auto
qed

lemma csv_cell: "cell_ends r \<Longrightarrow> csv_rows Fresh [] row (cell v @ r) = csv_rows Plain (cell_text v) row r"
  by (simp add: cell_def Let_def csv_quoted csv_plain ends_plain [of r Closing])

lemma csv_line: "vs \<noteq> [] \<Longrightarrow> line_ends r \<Longrightarrow> csv_rows Fresh [] row (join '','' (map cell vs) @ r) =
    (row @ map cell_text vs) # (if r = [] then [] else csv_rows Fresh [] [] (drop 2 r))"
proof (induction vs arbitrary: row)
  case (Cons v vs)
  show ?case
  proof (cases "vs = []")
    case True
    have "cell_ends r" using Cons.prems by (simp add: cell_ends_def)
    then have "csv_rows Fresh [] row (cell v @ r) = csv_rows Plain (cell_text v) row r" by (rule csv_cell)
    also have "\<dots> = (row @ [cell_text v]) # (if r = [] then [] else csv_rows Fresh [] [] (drop 2 r))"
      using Cons.prems(2) by (auto simp: line_ends_def)
    finally show ?thesis using True by simp
  next
    case False
    have "csv_rows Fresh [] row (cell v @ CHR '','' # join '','' (map cell vs) @ r) =
        csv_rows Fresh [] (row @ [cell_text v]) (join '','' (map cell vs) @ r)"
      by (subst csv_cell) (simp_all add: cell_ends_def)
    then show ?thesis using Cons False by (simp add: join_Cons)
  qed
qed simp

lemma csv_table: "vss \<noteq> [] \<Longrightarrow> [] \<notin> set vss \<Longrightarrow> csv_read (join [CR, LF] (map (\<lambda>vs. join '','' (map cell vs)) vss)) = map (map cell_text) vss"
proof (induction vss)
  case (Cons vs vss)
  show ?case
  proof (cases "vss = []")
    case True
    then show ?thesis using Cons.prems csv_line [of vs "[]" "[]"] by (auto simp: csv_read_def line_ends_def)
  next
    case False
    let ?r = "join [CR, LF] (map (\<lambda>vs. join '','' (map cell vs)) vss)"
    have "csv_rows Fresh [] [] (join '','' (map cell vs) @ [CR, LF] @ ?r) = map cell_text vs # csv_rows Fresh [] [] ?r"
      using Cons.prems by (subst csv_line) (auto simp: line_ends_def numeral_eq_Suc)
    then show ?thesis using Cons False by (simp add: join_Cons csv_read_def)
  qed
qed simp

text \<open>The values a table holds.\<close>

definition table_values :: "jval list \<Rightarrow> column list \<Rightarrow> jserr + jval list list" where
  "table_values rows columns = sum_map (\<lambda>row. sum_map (\<lambda>c. snd c row) columns) rows"

lemma sum_map_after: "sum_map (\<lambda>x. sbind (f x) (\<lambda>a. Inr (g a))) xs = map_sum id (map g) (sum_map f xs)"
proof (induction xs)
  case (Cons x xs)
  then show ?case by (cases "f x"; cases "sum_map f xs") (simp_all add: sbind_def)
qed simp

lemma sum_map_width: "sum_map f xs = Inr ys \<Longrightarrow> length ys = length xs"
proof (induction xs arbitrary: ys)
  case (Cons x xs)
  then show ?case by (auto simp: sbind_def split: sum.splits)
qed simp

lemma table_widths: "table_values rows columns = Inr vss \<Longrightarrow> vs \<in> set vss \<Longrightarrow> length vs = length columns"
  unfolding table_values_def
proof (induction rows arbitrary: vss)
  case (Cons row rows)
  then show ?case by (auto simp: sbind_def split: sum.splits dest: sum_map_width)
qed simp

lemma toCsv_values: "toCsv rows columns = map_sum id (\<lambda>vss. join [CR, LF] (map (\<lambda>vs. join '','' (map cell vs)) (map (\<lambda>c. JStr (fst c)) columns # vss)))
    (table_values rows columns)"
proof -
  have a: "sum_map (\<lambda>c. sbind (snd c row) (\<lambda>v. Inr (cell v))) columns = map_sum id (map cell) (sum_map (\<lambda>c. snd c row) columns)" for row
    by (rule sum_map_after)
  have b: "sbind (map_sum id (map cell) x) (\<lambda>cs. Inr (join '','' cs)) = sbind x (\<lambda>vs. Inr (join '','' (map cell vs)))" for x :: "jserr + jval list"
    by (cases x) (simp_all add: sbind_def)
  show ?thesis unfolding toCsv_def Let_def a b sum_map_after table_values_def [symmetric]
    by (cases "table_values rows columns") (simp_all add: sbind_def comp_def)
qed

text \<open>Property C34. Whatever a table holds - commas, quotes, line breaks, lists, missing values - the exported
  text, read back as RFC 4180 prescribes, is the labels and the text of every cell; and the export fails
  exactly when a column cannot be read.\<close>

theorem csv_roundtrip:
  assumes "columns \<noteq> []"
  shows "map_sum id csv_read (toCsv rows columns) =
    map_sum id (\<lambda>vss. map fst columns # map (map cell_text) vss) (table_values rows columns)"
proof (cases "table_values rows columns")
  case (Inr vss)
  have "cell_text (JStr l) = l" for l by (simp add: cell_text_def nullish_def)
  moreover have "[] \<notin> set vss" using table_widths [OF Inr] assms by force
  ultimately show ?thesis using csv_table [of "map (\<lambda>c. JStr (fst c)) columns # vss"] assms Inr
    by (simp add: toCsv_values comp_def)
qed (simp add: toCsv_values)

definition sample_policy :: jval where
  "sample_policy = JObj [(''ip'', JStr ''10.0.0.1''), (''scopes'', JArr [JStr ''login'', JStr ''api'']), (''reason'', JStr (''said '' @ [DQ] @ ''no'' @ [DQ] @ '', twice'' @ [CR, LF]))]"

theorem csv_roundtrip_witness:
  "\<exists>t. toCsv [sample_policy] (take 2 POLICY_COLUMNS @ drop 8 POLICY_COLUMNS) = Inr t \<and> csv_read t =
     [[''ip'', ''scopes'', ''reason''], [''10.0.0.1'', ''login | api'', ''said '' @ [DQ] @ ''no'' @ [DQ] @ '', twice'' @ [CR, LF]]]"
proof -
  let ?cs = "take 2 POLICY_COLUMNS @ drop 8 POLICY_COLUMNS"
  have v: "map_sum id (\<lambda>vss. map fst ?cs # map (map cell_text) vss) (table_values [sample_policy] ?cs) =
     Inr [[''ip'', ''scopes'', ''reason''], [''10.0.0.1'', ''login | api'', ''said '' @ [DQ] @ ''no'' @ [DQ] @ '', twice'' @ [CR, LF]]]"
    by code_simp
  have "?cs \<noteq> []" by (simp add: POLICY_COLUMNS_def)
  from csv_roundtrip [OF this, of "[sample_policy]"] v show ?thesis
    by (cases "toCsv [sample_policy] ?cs") auto
qed

section \<open>The snapshot leaves the page as it was\<close>

text \<open>The class is on while the snapshot is taken, and off when it has ended, however it ends.\<close>

fun snap_step :: "bool \<Rightarrow> browser \<Rightarrow> reply \<Rightarrow> bool" where
  "snap_step b (AddClass c) r = True"
| "snap_step b (RemoveClass c) r = False"
| "snap_step b c r = b"

definition snap_allow :: "bool \<Rightarrow> browser \<Rightarrow> bool" where
  "snap_allow b c \<longleftrightarrow> (case c of ToBlob x y \<Rightarrow> b | _ \<Rightarrow> True)"

text \<open>Adding a class and waiting for a frame do not fail.\<close>

definition snap_trust :: "bool \<Rightarrow> browser \<Rightarrow> reply \<Rightarrow> bool" where
  "snap_trust b c r \<longleftrightarrow> (case c of AddClass k \<Rightarrow> \<not> isl r | NextFrame \<Rightarrow> \<not> isl r | _ \<Rightarrow> True)"

lemma click_snap: "follows snap_allow snap_trust snap_step (click_link f url) (\<lambda>t x. True) b"
  unfolding click_link_def
  by (rule follows_unaffected [OF _ rets_True]) (auto simp: snap_allow_def intro!: asks_intros split: sum.split)

lemma snapshot_restores: "follows snap_allow snap_trust snap_step (snapshotPng now node pre) (\<lambda>b x. \<not> b) False"
  by (auto simp: snapshotPng_def follows_simps follows_if snap_allow_def snap_trust_def
      intro!: follows_mono [OF click_snap] split: sum.split)

end
