(* ===== verification/ConsoleStore.thy ===== *)
theory ConsoleStore
  imports RoutesRead
begin

text \<open>
  The console's shared state, \<open>app/ui/store.jsx\<close>: one poller, the instructions to the decision
  engine, and what the pages are given. Between two awaits JavaScript runs without interruption, so
  the requests that are under way form a list, and a step starts one or ends one with the answers it
  got. A React updater runs on the state it finds; one that throws takes the provider down
  (\<open>co_crashed\<close>). Values are compared by content (\<open>===\<close> on the strings and numbers that occur here);
  a dash U+2014 is written as two hyphens.
\<close>

section \<open>State\<close>

text \<open>A request under way, and what follows it.\<close>

datatype op =
    Polling
  | HistoryPoll
  | Instructing "string list" string
  | InstructRefresh "string list" string
  | Deleting string
  | DeleteRefresh

record console =
  co_overview :: jval
  co_plane :: jval
  co_history :: jval
  co_paused :: bool
  co_busy :: string
  co_pending :: "(string \<times> string) list"
  co_toast :: "(string \<times> string) option"
  co_updated :: "jnum option"
  co_flash :: "jval option"
  co_seen :: "jval list option"
  co_ops :: "op list"
  co_crashed :: bool

definition EMPTY_OVERVIEW :: jval where
  "EMPTY_OVERVIEW = JObj [(''redis'', JBool False),
     (''stats'', JObj [(''requests'', jint 0), (''alerts'', jint 0), (''decisions'', JObj []), (''signals'', JObj [])]),
     (''attackers'', JArr []), (''events'', JArr []), (''sources'', JArr []), (''setup'', JArr []), (''site'', JNull)]"

definition EMPTY_PLANE :: jval where
  "EMPTY_PLANE = JObj [(''redis'', JBool False), (''campaigns'', JArr []), (''policies'', JArr []), (''alerts'', JArr []),
     (''learned'', JArr []), (''heartbeat'', JObj [(''alive'', JBool False)]), (''active'', jint 0)]"

definition EMPTY_HISTORY :: jval where
  "EMPTY_HISTORY = JObj [(''available'', JBool False), (''campaigns'', JArr []), (''byType'', JArr []), (''total'', jint 0)]"

text \<open>The first render starts both pollers.\<close>

definition console0 :: console where
  "console0 = \<lparr>co_overview = EMPTY_OVERVIEW, co_plane = EMPTY_PLANE, co_history = EMPTY_HISTORY, co_paused = False, co_busy = [],
     co_pending = [], co_toast = None, co_updated = None, co_flash = None, co_seen = None, co_ops = [Polling, HistoryPoll], co_crashed = False\<rparr>"

definition canAct :: "jval \<Rightarrow> bool" where
  "canAct me \<longleftrightarrow> truthy me \<and> (jget me ''role'' = JStr ''operator'' \<or> jget me ''role'' = JStr ''admin'')"

definition setToast :: "string \<Rightarrow> string \<Rightarrow> console \<Rightarrow> console" where
  "setToast tone t s = s\<lparr>co_toast := Some (tone, t)\<rparr>"

section \<open>Refreshing\<close>

text \<open>\<open>.map\<close>, \<open>.filter\<close> and \<open>.some\<close> are methods of arrays only.\<close>

definition array_of :: "jval \<Rightarrow> jserr + jval list" where
  "array_of v = (case v of JArr xs \<Rightarrow> Inr xs | _ \<Rightarrow> Inl TypeError)"

definition escalation_text :: "jval list \<Rightarrow> string" where
  "escalation_text fresh = (if length fresh = 1
     then ''Escalated: '' @ to_str (jor (jor (jget (hd fresh) ''explanation'') (jget (hd fresh) ''type''))
            (JStr (''campaign '' @ to_str (jget (hd fresh) ''campaignId''))))
     else show_nat (length fresh) @ '' campaigns escalated'')"

text \<open>The alerts of an answer against those of the one before; the first answer is the baseline.\<close>

definition note_alerts :: "jval list \<Rightarrow> jval list \<Rightarrow> console \<Rightarrow> console" where
  "note_alerts alerts ids s = (case co_seen s of
       None \<Rightarrow> s\<lparr>co_seen := Some ids\<rparr>
     | Some old \<Rightarrow> (let fresh = filter (\<lambda>a. jget a ''id'' \<notin> set old) alerts; t = s\<lparr>co_seen := Some ids\<rparr> in
         if fresh = [] then t else setToast ''bad'' (escalation_text fresh) (t\<lparr>co_flash := Some (jget (hd fresh) ''id'')\<rparr>)))"

text \<open>\<open>(b.policies || []).some((policy) => policy.ip === ip && policy.action === action)\<close>\<close>

fun some_policy :: "string \<Rightarrow> string \<Rightarrow> jval list \<Rightarrow> jserr + bool" where
  "some_policy ip act [] = Inr False"
| "some_policy ip act (p # ps) = sbind (dot p ''ip'') (\<lambda>i.
     if i = JStr ip \<and> jget p ''action'' = JStr act then Inr True else some_policy ip act ps)"

definition still_pending :: "jval \<Rightarrow> (string \<times> string) list \<Rightarrow> jserr + (string \<times> string) list" where
  "still_pending b pending = sum_filter (\<lambda>(ip, act).
     sbind (array_of (jor (jget b ''policies'') (JArr []))) (\<lambda>ps. sbind (some_policy ip act ps) (\<lambda>m. Inr (\<not> m)))) pending"

definition acknowledge :: "jval \<Rightarrow> console \<Rightarrow> console" where
  "acknowledge b s = (case still_pending b (co_pending s) of Inl e \<Rightarrow> s\<lparr>co_crashed := True\<rparr> | Inr ps \<Rightarrow> s\<lparr>co_pending := ps\<rparr>)"

definition refresh_failed :: "console \<Rightarrow> console" where
  "refresh_failed s = s\<lparr>co_overview := JObj (dput ''redis'' (JBool False) (spread (co_overview s)))\<rparr>"

definition refreshed :: "jval \<Rightarrow> jval \<Rightarrow> jnum \<Rightarrow> console \<Rightarrow> console" where
  "refreshed a b now s =
     (let t = s\<lparr>co_overview := a, co_plane := b\<rparr> in
      case sbind (dot b ''alerts'') (\<lambda>v. sbind (array_of (jor v (JArr []))) (\<lambda>alerts.
             sbind (sum_map (\<lambda>x. dot x ''id'') alerts) (\<lambda>ids. Inr (alerts, ids)))) of
        Inl e \<Rightarrow> refresh_failed t
      | Inr (alerts, ids) \<Rightarrow> (acknowledge b (note_alerts alerts ids t))\<lparr>co_updated := Some now\<rparr>)"

text \<open>The two answers, or the error of the first request to fail.\<close>

definition refresh :: "jserr + jval \<times> jval \<Rightarrow> jnum \<Rightarrow> console \<Rightarrow> console" where
  "refresh r now s = (case r of Inl e \<Rightarrow> refresh_failed s | Inr (a, b) \<Rightarrow> refreshed a b now s)"

definition refreshHistory :: "jserr + jval \<Rightarrow> console \<Rightarrow> console" where
  "refreshHistory r s = (case r of Inl e \<Rightarrow> s | Inr h \<Rightarrow> s\<lparr>co_history := h\<rparr>)"

section \<open>Instructions\<close>

definition targets :: "string list \<Rightarrow> string list" where
  "targets ips = filter (\<lambda>ip. ip \<noteq> []) (uniq ips)"

text \<open>The body of one request, and the start of \<open>instruct\<close>.\<close>

definition override_request :: "string \<Rightarrow> string \<Rightarrow> string \<Rightarrow> jval" where
  "override_request ip act reason = JObj [(''ip'', JStr ip), (''action'', JStr act), (''actor'', JStr ''dashboard''),
     (''reason'', JStr (if reason \<noteq> [] then reason else actionLabel act @ '' set from the console''))]"

definition instruct :: "jval \<Rightarrow> string list \<Rightarrow> string \<Rightarrow> string \<Rightarrow> console \<Rightarrow> console" where
  "instruct me ips act label s =
     (if targets ips = [] then s
      else if \<not> canAct me then setToast ''bad'' ''your account can read the console but not change enforcement'' s
      else s\<lparr>co_busy := label @ '':'' @ act, co_ops := co_ops s @ [Instructing (targets ips) act]\<rparr>)"

definition not_busy :: "console \<Rightarrow> console" where
  "not_busy s = s\<lparr>co_busy := []\<rparr>"

definition unreachable :: "string \<Rightarrow> jserr \<Rightarrow> console \<Rightarrow> console" where
  "unreachable what e s = not_busy (setToast ''bad'' (''could not reach the '' @ what @ '': '' @ err_message e) s)"

definition put_pending :: "string list \<Rightarrow> string \<Rightarrow> (string \<times> string) list \<Rightarrow> (string \<times> string) list" where
  "put_pending ips act pending = (if act = ''monitor'' then pending else dput_all (map (\<lambda>ip. (ip, act)) ips) pending)"

text \<open>All answers of \<open>instruct\<close> are in; \<open>Some\<close> is what it waits for next.\<close>

definition instructed :: "string list \<Rightarrow> string \<Rightarrow> jserr + jval list \<Rightarrow> console \<Rightarrow> console \<times> op option" where
  "instructed ips act r s =
     (case sbind r (sum_filter (\<lambda>x. sbind (dot x ''ok'') (\<lambda>v. Inr (\<not> truthy v)))) of
        Inl e \<Rightarrow> (unreachable ''gateway'' e s, None)
      | Inr failed \<Rightarrow>
          if failed \<noteq> []
          then (not_busy (setToast ''bad'' (show_nat (length failed) @ '' of '' @ show_nat (length ips) @ '' rejected: '' @ to_str (jget (hd failed) ''error'')) s), None)
          else (s\<lparr>co_pending := put_pending ips act (co_pending s)\<rparr>, Some (InstructRefresh ips act)))"

definition queued_text :: "string list \<Rightarrow> string \<Rightarrow> string" where
  "queued_text ips act = actionLabel act @ '' queued for '' @ show_nat (length ips) @ '' '' @
     (if length ips = 1 then ''address'' else ''addresses'') @ '' -- applies next cycle''"

definition deletePolicy :: "jval \<Rightarrow> string \<Rightarrow> console \<Rightarrow> console" where
  "deletePolicy me ip s =
     (if \<not> canAct me then setToast ''bad'' ''your account can read the console but not remove enforcement'' s
      else s\<lparr>co_busy := ''delete-policy:'' @ ip, co_ops := co_ops s @ [Deleting ip]\<rparr>)"

text \<open>The answer: \<open>res.ok\<close>, \<open>res.status\<close> and the body.\<close>

definition deleted :: "string \<Rightarrow> jserr + bool \<times> int \<times> jval \<Rightarrow> console \<Rightarrow> console \<times> op option" where
  "deleted ip r s =
     (case sbind r (\<lambda>(fine, status, data). sbind (if fine then dot data ''ok'' else Inr (JBool False)) (\<lambda>o'.
           if truthy o' then sbind (dot data ''removed'') (\<lambda>v. Inr (True, if truthy v then ''policy removed for '' @ ip else ''no current policy existed for '' @ ip))
           else sbind (dot data ''error'') (\<lambda>e. Inr (False, ''policy delete failed: '' @ to_str (jor e (jint status)))))) of
        Inl e \<Rightarrow> (unreachable ''server'' e s, None)
      | Inr (good, t) \<Rightarrow> if good then (setToast ''good'' t s, Some DeleteRefresh) else (not_busy (setToast ''bad'' t s), None))"

section \<open>Requests that end\<close>

record answers_got =
  an_poll :: "jserr + jval \<times> jval"
  an_now :: jnum
  an_history :: "jserr + jval"
  an_posts :: "jserr + jval list"
  an_delete :: "jserr + bool \<times> int \<times> jval"

fun end_op :: "op \<Rightarrow> answers_got \<Rightarrow> console \<Rightarrow> console \<times> op option" where
  "end_op Polling r s = (refresh (an_poll r) (an_now r) s, None)"
| "end_op HistoryPoll r s = (refreshHistory (an_history r) s, None)"
| "end_op (Instructing ips act) r s = instructed ips act (an_posts r) s"
| "end_op (InstructRefresh ips act) r s = (not_busy (setToast ''good'' (queued_text ips act) (refresh (an_poll r) (an_now r) s)), None)"
| "end_op (Deleting ip) r s = deleted ip (an_delete r) s"
| "end_op DeleteRefresh r s = (not_busy (refresh (an_poll r) (an_now r) s), None)"

definition start_op :: "op \<Rightarrow> console \<Rightarrow> console" where
  "start_op p s = s\<lparr>co_ops := co_ops s @ [p]\<rparr>"

text \<open>Request number \<open>i\<close> ends.\<close>

definition end_nth :: "nat \<Rightarrow> answers_got \<Rightarrow> console \<Rightarrow> console" where
  "end_nth i r s = (case end_op (co_ops s ! i) r (s\<lparr>co_ops := take i (co_ops s) @ drop (Suc i) (co_ops s)\<rparr>) of
     (t, None) \<Rightarrow> t | (t, Some p) \<Rightarrow> start_op p t)"

text \<open>A change of \<open>paused\<close> runs both effects again, so both pollers load once.\<close>

definition setPaused :: "bool \<Rightarrow> console \<Rightarrow> console" where
  "setPaused b s = (if b = co_paused s then s else start_op HistoryPoll (start_op Polling (s\<lparr>co_paused := b\<rparr>)))"

inductive console_step :: "jval \<Rightarrow> console \<Rightarrow> console \<Rightarrow> bool" for me :: jval where
  tick: "\<not> co_paused s \<Longrightarrow> console_step me s (start_op Polling s)"
| history_tick: "\<not> co_paused s \<Longrightarrow> console_step me s (start_op HistoryPoll s)"
| pause: "console_step me s (setPaused b s)"
| instructs: "console_step me s (instruct me ips act label s)"
| deletes: "console_step me s (deletePolicy me ip s)"
| ends: "i < length (co_ops s) \<Longrightarrow> console_step me s (end_nth i r s)"
| toast_ends: "console_step me s (s\<lparr>co_toast := None\<rparr>)"
| flash_ends: "console_step me s (s\<lparr>co_flash := None\<rparr>)"

inductive console_reach :: "jval \<Rightarrow> console \<Rightarrow> bool" for me :: jval where
  init: "console_reach me console0"
| next_step: "console_reach me s \<Longrightarrow> console_step me s t \<Longrightarrow> console_reach me t"

inductive_cases console_stepE: "console_step me s t"

section \<open>What the pages read\<close>

record live =
  li_me :: jval
  li_canAct :: bool
  li_stats :: jval
  li_events :: jval
  li_sources :: jval
  li_attackers :: jval
  li_setup :: jval
  li_campaigns :: jval
  li_policies :: jval
  li_escalations :: jval
  li_learned :: jval
  li_beat :: jval

definition live_value :: "jval \<Rightarrow> console \<Rightarrow> jserr + live" where
  "live_value me s = (if nullish (co_overview s) \<or> nullish (co_plane s) then Inl TypeError
     else let o' = jget (co_overview s); p = jget (co_plane s); list = (\<lambda>v. jor v (JArr [])) in
       Inr \<lparr>li_me = me, li_canAct = canAct me, li_stats = jor (o' ''stats'') (jget EMPTY_OVERVIEW ''stats''),
         li_events = list (o' ''events''), li_sources = list (o' ''sources''), li_attackers = list (o' ''attackers''), li_setup = list (o' ''setup''),
         li_campaigns = list (p ''campaigns''), li_policies = list (p ''policies''), li_escalations = list (p ''alerts''), li_learned = list (p ''learned''),
         li_beat = jor (p ''heartbeat'') (JObj [(''alive'', JBool False)])\<rparr>)"

section \<open>The console is never stuck\<close>

text \<open>How many more answers a request waits for, and whether it holds the busy label.\<close>

fun op_weight :: "op \<Rightarrow> nat" where
  "op_weight (Instructing ips act) = 2"
| "op_weight (Deleting ip) = 2"
| "op_weight p = 1"

fun holds_busy :: "op \<Rightarrow> bool" where
  "holds_busy Polling = False"
| "holds_busy HistoryPoll = False"
| "holds_busy p = True"

definition console_weight :: "console \<Rightarrow> nat" where
  "console_weight s = sum_list (map op_weight (co_ops s))"

definition busy_held :: "console \<Rightarrow> bool" where
  "busy_held s \<longleftrightarrow> co_busy s = [] \<or> list_ex holds_busy (co_ops s)"

lemma op_weight_pos [simp]: "0 < op_weight p" "op_weight p \<noteq> 0"
  by (cases p; simp)+

lemma kept_simps [simp]:
  "co_ops (setToast a b s) = co_ops s" "co_busy (setToast a b s) = co_busy s"
  "co_ops (refresh_failed s) = co_ops s" "co_busy (refresh_failed s) = co_busy s"
  "co_ops (not_busy s) = co_ops s" "co_busy (not_busy s) = []"
  "co_ops (unreachable w e s) = co_ops s" "co_busy (unreachable w e s) = []"
  by (simp_all add: setToast_def refresh_failed_def not_busy_def unreachable_def)

lemma note_kept [simp]: "co_ops (note_alerts xs ids s) = co_ops s" "co_busy (note_alerts xs ids s) = co_busy s"
  by (simp_all add: note_alerts_def Let_def split: option.split)

lemma acknowledge_kept [simp]: "co_ops (acknowledge b s) = co_ops s" "co_busy (acknowledge b s) = co_busy s"
  by (simp_all add: acknowledge_def split: sum.split)

lemma refreshed_kept [simp]: "co_ops (refreshed a b now s) = co_ops s" "co_busy (refreshed a b now s) = co_busy s"
  by (auto simp: refreshed_def Let_def split: sum.split prod.split)

lemma refresh_kept [simp]: "co_ops (refresh r now s) = co_ops s" "co_busy (refresh r now s) = co_busy s"
  by (auto simp: refresh_def split: sum.split prod.split)

lemma history_kept [simp]: "co_ops (refreshHistory r s) = co_ops s" "co_busy (refreshHistory r s) = co_busy s"
  by (auto simp: refreshHistory_def split: sum.split)

text \<open>Ending a request: nothing else is started but its own continuation, and the label goes with it.\<close>

lemma end_op_kept:
  assumes "end_op p r s = (t, nx)"
  shows "co_ops t = co_ops s \<and> (case nx of None \<Rightarrow> co_busy t = (if holds_busy p then [] else co_busy s)
    | Some q \<Rightarrow> co_busy t = co_busy s \<and> holds_busy q \<and> op_weight q < op_weight p)"
proof (cases p)
  case (Instructing ips act)
  then show ?thesis using assms by (auto simp: instructed_def split: sum.splits if_splits)
next
  case (Deleting ip)
  then show ?thesis using assms by (auto simp: deleted_def split: sum.splits prod.splits if_splits)
qed (use assms in auto)

lemma end_nth_ops:
  assumes "i < length (co_ops s)"
  shows "console_weight (end_nth i r s) < console_weight s" "busy_held s \<Longrightarrow> busy_held (end_nth i r s)"
proof -
  let ?s = "s\<lparr>co_ops := take i (co_ops s) @ drop (Suc i) (co_ops s)\<rparr>"
  obtain t nx where e: "end_op (co_ops s ! i) r ?s = (t, nx)" by (cases "end_op (co_ops s ! i) r ?s")
  note k = end_op_kept [OF e]
  have ops: "co_ops s = take i (co_ops s) @ co_ops s ! i # drop (Suc i) (co_ops s)" using id_take_nth_drop [OF assms] .
  have w: "console_weight s = sum_list (map op_weight (take i (co_ops s))) + (op_weight (co_ops s ! i) + sum_list (map op_weight (drop (Suc i) (co_ops s))))"
    unfolding console_weight_def by (subst ops) (simp del: append_take_drop_id)
  show "console_weight (end_nth i r s) < console_weight s"
    using k w op_weight_pos(1) [of "co_ops s ! i"]
    by (auto simp: end_nth_def e console_weight_def start_op_def split: option.splits)
  show "busy_held (end_nth i r s)" if "busy_held s"
  proof -
    have "list_ex holds_busy (co_ops s) \<longleftrightarrow> list_ex holds_busy (take i (co_ops s)) \<or> holds_busy (co_ops s ! i) \<or> list_ex holds_busy (drop (Suc i) (co_ops s))"
      by (subst ops) (simp del: append_take_drop_id)
    then show ?thesis using that k
      by (auto simp: end_nth_def e busy_held_def start_op_def split: option.splits if_splits)
  qed
qed

lemma step_busy_held: "console_step me s t \<Longrightarrow> busy_held s \<Longrightarrow> busy_held t"
proof (induction rule: console_step.induct)
  case (ends i s r)
  then show ?case by (simp add: end_nth_ops(2))
qed (auto simp: busy_held_def start_op_def setPaused_def instruct_def deletePolicy_def)

lemma reach_busy_held: "console_reach me s \<Longrightarrow> busy_held s"
  by (induction rule: console_reach.induct) (auto simp: step_busy_held, simp add: busy_held_def console0_def)

text \<open>Requests that end one after another, in any order and with any answers.\<close>

fun all_end :: "(nat \<times> answers_got) list \<Rightarrow> console \<Rightarrow> console" where
  "all_end [] s = s"
| "all_end ((i, r) # es) s = (if co_ops s = [] then s else all_end es (end_nth (i mod length (co_ops s)) r s))"

text \<open>Property C25. The console never stays busy: once the requests under way end, in whatever order and with
  whatever answers or errors, at most two answers per request leave nothing under way and the busy label
  cleared.\<close>

theorem console_becomes_idle:
  assumes "console_reach me s" "console_weight s \<le> length es"
  shows "co_ops (all_end es s) = [] \<and> co_busy (all_end es s) = [] \<and> console_weight s \<le> 2 * length (co_ops s)"
proof -
  have "busy_held s \<Longrightarrow> console_weight s \<le> length es \<Longrightarrow> co_ops (all_end es s) = [] \<and> co_busy (all_end es s) = []"
  proof (induction es s rule: all_end.induct)
    case (1 s)
    then show ?case by (cases "co_ops s") (auto simp: console_weight_def busy_held_def)
  next
    case (2 i r es s)
    show ?case
    proof (cases "co_ops s = []")
      case False
      then have "i mod length (co_ops s) < length (co_ops s)" by simp
      from end_nth_ops [OF this, of r] show ?thesis using 2 False by simp
    qed (use 2 in \<open>simp add: busy_held_def\<close>)
  qed
  moreover have "sum_list (map op_weight ps) \<le> 2 * length ps" for ps
  proof (induction ps)
    case (Cons p ps)
    then show ?case by (cases p) auto
  qed simp
  ultimately show ?thesis using assms reach_busy_held by (simp add: console_weight_def)
qed

text \<open>Answers used below: a poll whose requests fail, and the other outcomes.\<close>

definition lost :: answers_got where
  "lost = \<lparr>an_poll = Inl (ServiceError ''offline''), an_now = Fin 0, an_history = Inl (ServiceError ''offline''),
     an_posts = Inr [JObj [(''ok'', JBool True)]], an_delete = Inl (ServiceError ''offline'')\<rparr>"

definition operator_me :: jval where
  "operator_me = JObj [(''role'', JStr ''operator'')]"

definition busy_console :: console where
  "busy_console = instruct operator_me [''10.0.0.1''] ''temporary_block'' ''row'' console0"

lemma busy_console_reached: "console_reach operator_me busy_console"
  unfolding busy_console_def by (intro next_step [OF init] instructs)

theorem console_becomes_idle_witness:
  "co_busy busy_console = ''row:temporary_block'' \<and> co_ops busy_console = [Polling, HistoryPoll, Instructing [''10.0.0.1''] ''temporary_block''] \<and>
   co_ops (all_end (replicate 4 (2, lost)) busy_console) = [] \<and> co_busy (all_end (replicate 4 (2, lost)) busy_console) = []"
proof -
  have o: "co_busy busy_console = ''row:temporary_block''" "co_ops busy_console = [Polling, HistoryPoll, Instructing [''10.0.0.1''] ''temporary_block'']"
    by (code_simp, code_simp)
  have "console_weight busy_console \<le> length (replicate 4 (2::nat, lost))" unfolding console_weight_def o by simp
  from console_becomes_idle [OF busy_console_reached this] o show ?thesis by simp
qed

section \<open>What an answer changes\<close>

text \<open>An answer of \<open>/api/campaigns\<close> with these alert ids and these policies.\<close>

definition plane_with :: "jval list \<Rightarrow> (string \<times> string) list \<Rightarrow> jval" where
  "plane_with ids ps = JObj [(''alerts'', JArr (map (\<lambda>i. JObj [(''id'', i)]) ids)),
     (''policies'', JArr (map (\<lambda>(ip, act). JObj [(''ip'', JStr ip), (''action'', JStr act)]) ps))]"

lemma some_policy_rows: "some_policy ip act (map (\<lambda>(ip, act). JObj [(''ip'', JStr ip), (''action'', JStr act)]) ps) = Inr ((ip, act) \<in> set ps)"
  by (induction ps) (auto simp: dot_JObj sbind_def jget_Cons)

lemma sum_filter_Inr: "sum_filter (\<lambda>x. Inr (P x)) xs = Inr (filter P xs)"
  by (induction xs) (simp_all add: sbind_def)

lemma still_pending_rows: "still_pending (plane_with ids ps) pending = Inr (filter (\<lambda>e. e \<notin> set ps) pending)"
proof -
  have "jor (jget (plane_with ids ps) ''policies'') (JArr []) = JArr (map (\<lambda>(ip, act). JObj [(''ip'', JStr ip), (''action'', JStr act)]) ps)"
    by (simp add: plane_with_def jget_Cons jor_def)
  then have "still_pending (plane_with ids ps) pending = sum_filter (\<lambda>e. Inr (e \<notin> set ps)) pending"
    by (simp add: still_pending_def array_of_def sbind_def some_policy_rows [unfolded case_prod_unfold] case_prod_unfold)
  then show ?thesis by (simp add: sum_filter_Inr)
qed

lemma note_fields: "co_pending (note_alerts xs ids s) = co_pending s" "co_crashed (note_alerts xs ids s) = co_crashed s"
    "co_seen (note_alerts xs ids s) = Some ids"
  by (simp_all add: note_alerts_def Let_def setToast_def split: option.split)

text \<open>A poll settles exactly what it shows: an override stays pending until an answer holds a
  policy with its address and action; an alert flashes exactly when the answer before did not hold it, the
  first one of them; the first answer of all flashes nothing.\<close>

theorem poll_settles:
  "let t = refresh (Inr (a, plane_with ids ps)) now s in
     co_pending t = filter (\<lambda>e. e \<notin> set ps) (co_pending s) \<and> co_seen t = Some ids \<and> co_updated t = Some now \<and> co_crashed t = co_crashed s \<and>
     co_flash t = (case co_seen s of None \<Rightarrow> co_flash s | Some old \<Rightarrow>
       (case filter (\<lambda>i. i \<notin> set old) ids of [] \<Rightarrow> co_flash s | i # is \<Rightarrow> Some i))"
proof -
  let ?al = "map (\<lambda>i. JObj [(''id'', i)]) ids"
  have al: "dot (plane_with ids ps) ''alerts'' = Inr (JArr ?al)" by (simp add: plane_with_def dot_JObj jget_Cons)
  have "sum_map (\<lambda>x. dot x ''id'') ?al = sum_map (\<lambda>i. Inr i) ids" by (simp add: sum_map_map dot_JObj jget_Cons)
  then have ids: "sum_map (\<lambda>x. dot x ''id'') ?al = Inr ids" using sum_map_Inr [of "\<lambda>i. i" ids] by simp
  have fresh: "filter (\<lambda>x. jget x ''id'' \<notin> S) ?al = map (\<lambda>i. JObj [(''id'', i)]) (filter (\<lambda>i. i \<notin> S) ids)" for S
    by (simp add: filter_map comp_def jget_Cons)
  let ?u = "note_alerts ?al ids (s\<lparr>co_overview := a, co_plane := plane_with ids ps\<rparr>)"
  have t: "refresh (Inr (a, plane_with ids ps)) now s = (?u\<lparr>co_pending := filter (\<lambda>e. e \<notin> set ps) (co_pending s)\<rparr>)\<lparr>co_updated := Some now\<rparr>"
    by (simp add: refresh_def refreshed_def Let_def al ids jor_def array_of_def sbind_def acknowledge_def still_pending_rows note_fields)
  have "co_flash ?u = (case co_seen s of None \<Rightarrow> co_flash s | Some old \<Rightarrow>
       (case filter (\<lambda>i. i \<notin> set old) ids of [] \<Rightarrow> co_flash s | i # is \<Rightarrow> Some i))"
    unfolding note_alerts_def Let_def fresh
    by (auto simp: setToast_def jget_Cons split: option.split list.split)
  then show ?thesis unfolding t Let_def by (simp add: note_fields)
qed

text \<open>Two polls that overtake each other: the older answer takes the newest alert back, so the next poll
  flashes it again.\<close>

lemma overtaken_poll_flashes_again:
  "map (\<lambda>s. co_flash s) [
     fold (\<lambda>ids s. refresh (Inr (JObj [], plane_with ids [])) (Fin 0) s) [[JStr ''1''], [JStr ''2'', JStr ''1'']] console0,
     fold (\<lambda>ids s. refresh (Inr (JObj [], plane_with ids [])) (Fin 0) s) [[JStr ''2'', JStr ''1'']]
       ((fold (\<lambda>ids s. refresh (Inr (JObj [], plane_with ids [])) (Fin 0) s) [[JStr ''1''], [JStr ''2'', JStr ''1''], [JStr ''1'']] console0)\<lparr>co_flash := None\<rparr>)] =
   [Some (JStr ''2''), Some (JStr ''2'')]"
  by code_simp

end
