(* ===== verification/EventsPage.thy ===== *)
theory EventsPage
  imports ConsoleStore JsText
begin

text \<open>
  The page of raw traffic, \<open>app/(console)/events/page.jsx\<close>: the filters and their place in the URL, the
  requests for the newest events and for older ones, and what the table shows. Requests may overlap,
  so those under way form a list; a step starts one or ends one with its answer. An answer is the page
  \<open>events_GET\<close> gives, or the error of a request that failed. \<open>locale_le\<close> is the order of
  \<open>localeCompare\<close>. A snapshot is one more parameter of the table.
\<close>

definition WINDOWS :: "nat list" where
  "WINDOWS = [100, 250, 500, 1000, 2000]"

definition SNAPSHOT_ROW_CAP :: nat where
  "SNAPSHOT_ROW_CAP = 500"

definition RANGES :: "(string \<times> int) list" where
  "RANGES = [(''all'', 0), (''5m'', 5 * 60000), (''15m'', 15 * 60000), (''1h'', 60 * 60000), (''6h'', 6 * 60 * 60000), (''24h'', 24 * 60 * 60000)]"

section \<open>Filters and the URL\<close>

record filters =
  fi_alerts :: bool
  fi_ip :: string
  fi_path :: string
  fi_method :: string
  fi_agent :: string
  fi_signal :: string

definition no_filters :: filters where
  "no_filters = \<lparr>fi_alerts = False, fi_ip = [], fi_path = [], fi_method = [], fi_agent = [], fi_signal = []\<rparr>"

text \<open>\<open>params.get(k) || ""\<close>\<close>

definition url_param :: "(string \<times> string) list \<Rightarrow> string \<Rightarrow> string" where
  "url_param ps k = (case dget ps k of None \<Rightarrow> [] | Some v \<Rightarrow> v)"

definition filters_of :: "(string \<times> string) list \<Rightarrow> filters" where
  "filters_of ps = (let q = url_param ps ''q'' in
     \<lparr>fi_alerts = (url_param ps ''alerts'' = ''1''),
      fi_ip = (if url_param ps ''ip'' \<noteq> [] then url_param ps ''ip'' else if isValidIp q then q else []),
      fi_path = url_param ps ''path'', fi_method = url_param ps ''method'', fi_agent = url_param ps ''agent'',
      fi_signal = url_param ps ''signal''\<rparr>)"

definition put_if :: "string \<Rightarrow> string \<Rightarrow> (string \<times> string) list \<Rightarrow> (string \<times> string) list" where
  "put_if k v ps = (if v = [] then ps else dput k v ps)"

definition params_of :: "filters \<Rightarrow> (string \<times> string) list" where
  "params_of f = put_if ''signal'' (fi_signal f) (put_if ''agent'' (fi_agent f) (put_if ''method'' (fi_method f)
     (put_if ''path'' (fi_path f) (put_if ''ip'' (fi_ip f) (put_if ''alerts'' (if fi_alerts f then ''1'' else []) [])))))"

section \<open>State\<close>

text \<open>A request under way: the newest events, or those before a cursor.\<close>

datatype fetch =
    Newest nat string
  | Older nat jval string

record events_view =
  ew_filters :: filters
  ew_limit :: nat
  ew_range :: int
  ew_frozen :: bool
  ew_paused :: bool
  ew_rows :: "row list"
  ew_cursor :: jval
  ew_total :: jval
  ew_loading :: bool
  ew_older :: nat
  ew_fetches :: "fetch list"

definition start_fetch :: "fetch \<Rightarrow> events_view \<Rightarrow> events_view" where
  "start_fetch f s = s\<lparr>ew_loading := True, ew_fetches := ew_fetches s @ [f]\<rparr>"

definition load :: "events_view \<Rightarrow> events_view" where
  "load s = start_fetch (Newest (ew_limit s) (fi_ip (ew_filters s))) s"

definition loadOlder :: "events_view \<Rightarrow> events_view" where
  "loadOlder s = (if \<not> truthy (ew_cursor s) then s else start_fetch (Older (ew_limit s) (ew_cursor s) (fi_ip (ew_filters s))) s)"

text \<open>The button is there with a cursor, and works while nothing loads.\<close>

definition older_button :: "events_view \<Rightarrow> bool" where
  "older_button s \<longleftrightarrow> truthy (ew_cursor s) \<and> \<not> ew_loading s"

definition is_live :: "events_view \<Rightarrow> bool" where
  "is_live s \<longleftrightarrow> \<not> ew_frozen s \<and> \<not> ew_paused s \<and> ew_older s = 0"

text \<open>The query of a request: \<open>limit\<close>, \<open>before\<close>, \<open>ip\<close>.\<close>

fun query_of :: "fetch \<Rightarrow> string option \<times> string option \<times> string option" where
  "query_of (Newest n ip) = (Some (show_nat n), None, if ip = [] then None else Some ip)"
| "query_of (Older n c ip) = (Some (show_nat n), Some (to_str c), if ip = [] then None else Some ip)"

definition fetched :: "fetch \<Rightarrow> events_page \<Rightarrow> events_view \<Rightarrow> events_view" where
  "fetched f p s = (let c = jor (ep_cursor p) JNull in
     case f of
       Newest n ip \<Rightarrow> s\<lparr>ew_rows := ep_events p, ew_cursor := c, ew_total := jor (ep_total p) (jint 0), ew_older := 0\<rparr>
     | Older n b ip \<Rightarrow> s\<lparr>ew_rows := ew_rows s @ ep_events p, ew_cursor := c, ew_older := ew_older s + 1\<rparr>)"

text \<open>Request number \<open>i\<close> ends; a failed one leaves what is there.\<close>

definition end_fetch :: "nat \<Rightarrow> jserr + events_page \<Rightarrow> events_view \<Rightarrow> events_view" where
  "end_fetch i r s = (let t = s\<lparr>ew_fetches := take i (ew_fetches s) @ drop (Suc i) (ew_fetches s)\<rparr> in
     (case r of Inl e \<Rightarrow> t | Inr p \<Rightarrow> fetched (ew_fetches s ! i) p t)\<lparr>ew_loading := False\<rparr>)"

text \<open>New filters; a new address loads again.\<close>

definition setFilters :: "filters \<Rightarrow> events_view \<Rightarrow> events_view" where
  "setFilters f s = (let t = s\<lparr>ew_filters := f\<rparr> in if fi_ip f = fi_ip (ew_filters s) then t else load t)"

definition setLimit :: "nat \<Rightarrow> events_view \<Rightarrow> events_view" where
  "setLimit n s = (if n = ew_limit s then s else load (s\<lparr>ew_limit := n\<rparr>))"

definition clear_filters :: "events_view \<Rightarrow> events_view" where
  "clear_filters s = setFilters no_filters (s\<lparr>ew_range := 0\<rparr>)"

definition events_opened :: "(string \<times> string) list \<Rightarrow> bool \<Rightarrow> events_view" where
  "events_opened ps paused = load \<lparr>ew_filters = filters_of ps, ew_limit = 250, ew_range = 0, ew_frozen = False, ew_paused = paused, ew_rows = [],
     ew_cursor = JNull, ew_total = jint 0, ew_loading = True, ew_older = 0, ew_fetches = []\<rparr>"

inductive events_step :: "events_view \<Rightarrow> events_view \<Rightarrow> bool" where
  tick: "is_live s \<Longrightarrow> events_step s (load s)"
| older: "older_button s \<Longrightarrow> events_step s (loadOlder s)"
| filters: "events_step s (setFilters f s)"
| arrive: "events_step s (setFilters (filters_of ps) s)"
| limits: "n \<in> set WINDOWS \<Longrightarrow> events_step s (setLimit n s)"
| range: "r \<in> set (map snd RANGES) \<Longrightarrow> events_step s (s\<lparr>ew_range := r\<rparr>)"
| clear: "events_step s (clear_filters s)"
| freeze: "events_step s (s\<lparr>ew_frozen := \<not> ew_frozen s\<rparr>)"
| pause: "events_step s (s\<lparr>ew_paused := b\<rparr>)"
| ends: "i < length (ew_fetches s) \<Longrightarrow> events_step s (end_fetch i r s)"

inductive events_reach :: "events_view \<Rightarrow> bool" where
  opens: "events_reach (events_opened ps b)"
| next_step: "events_reach s \<Longrightarrow> events_step s t \<Longrightarrow> events_reach t"

section \<open>What the table shows\<close>

definition in_view :: "filters \<Rightarrow> int \<Rightarrow> event \<Rightarrow> bool" where
  "in_view f floor_ms e \<longleftrightarrow>
     (fi_ip f = [] \<or> ev_ip e = fi_ip f) \<and> (\<not> fi_alerts f \<or> fired_any e) \<and>
     (floor_ms = 0 \<or> \<not> nlt (ev_time e) (nint floor_ms)) \<and>
     (fi_path f = [] \<or> ev_path e = fi_path f) \<and> (fi_method f = [] \<or> ev_method e = fi_method f) \<and>
     (fi_agent f = [] \<or> ev_agent e = fi_agent f) \<and> (fi_signal f = [] \<or> fi_signal f \<in> set (ev_fired e))"

text \<open>\<open>now\<close> is \<open>Date.now()\<close>.\<close>

definition shown :: "int \<Rightarrow> events_view \<Rightarrow> row list" where
  "shown now s = filter (\<lambda>(i, e). in_view (ew_filters s) (if ew_range s = 0 then 0 else now - ew_range s) e) (ew_rows s)"

definition table_rows :: "bool \<Rightarrow> int \<Rightarrow> events_view \<Rightarrow> row list" where
  "table_rows capturing now s = (if capturing then take SNAPSHOT_ROW_CAP (shown now s) else shown now s)"

definition ips_in_view :: "int \<Rightarrow> events_view \<Rightarrow> string list" where
  "ips_in_view now s = uniq (filter (\<lambda>ip. ip \<noteq> []) (map (\<lambda>(i, e). ev_ip e) (shown now s)))"

definition optionsFrom :: "(string \<Rightarrow> string \<Rightarrow> bool) \<Rightarrow> string list \<Rightarrow> string \<Rightarrow> string list" where
  "optionsFrom locale_le values selected = js_sort locale_le
     (uniq (filter (\<lambda>v. v \<noteq> []) values @ (if selected = [] then [] else [selected])))"

record filter_options =
  fo_ips :: "string list"
  fo_paths :: "string list"
  fo_methods :: "string list"
  fo_agents :: "string list"
  fo_signals :: "string list"

definition filterOptions :: "(string \<Rightarrow> string \<Rightarrow> bool) \<Rightarrow> events_view \<Rightarrow> filter_options" where
  "filterOptions locale_le s = (let es = map snd (ew_rows s); f = ew_filters s; opts = optionsFrom locale_le in
     \<lparr>fo_ips = opts (map ev_ip es) (fi_ip f), fo_paths = opts (map ev_path es) (fi_path f),
      fo_methods = opts (map ev_method es) (fi_method f), fo_agents = opts (map ev_agent es) (fi_agent f),
      fo_signals = opts (concat (map ev_fired es)) (fi_signal f)\<rparr>)"

text \<open>The chips: how often each signal fired in the rows shown.\<close>

definition signal_chips :: "int \<Rightarrow> events_view \<Rightarrow> (string \<times> nat) list" where
  "signal_chips now s = ranked_tally (concat (map (\<lambda>(i, e). ev_fired e) (shown now s)))"

definition is_filtered :: "events_view \<Rightarrow> bool" where
  "is_filtered s \<longleftrightarrow> ew_filters s \<noteq> no_filters \<or> ew_range s \<noteq> 0"

text \<open>The place of an address, from the sources of the overview.\<close>

definition geoByIp :: "located list \<Rightarrow> (string \<times> string) list" where
  "geoByIp sources = fold (\<lambda>l d. dput (src_ip (lo_source l))
     (if lo_private l then ''Private network'' else join '', '' (map to_str (filter truthy [lo_city l, lo_country l]))) d) sources []"

text \<open>The button that blocks what is in view, drawn for at most 25 addresses and disabled while the console is busy.\<close>

definition block_in_view :: "jval \<Rightarrow> int \<Rightarrow> events_view \<Rightarrow> console \<Rightarrow> console" where
  "block_in_view me now s c = (let ips = ips_in_view now s in
     if ips \<noteq> [] \<and> length ips \<le> 25 \<and> co_busy c = [] then instruct me ips ''temp_block'' ''filtered'' c else c)"

section \<open>The URL keeps the filters\<close>

lemma dget_put_if: "dget (put_if k v ps) x = (if x = k \<and> v \<noteq> [] then Some v else dget ps x)"
  by (simp add: put_if_def)

lemma url_params_of [simp]:
  "url_param (params_of f) ''alerts'' = (if fi_alerts f then ''1'' else [])" "url_param (params_of f) ''ip'' = fi_ip f"
  "url_param (params_of f) ''path'' = fi_path f" "url_param (params_of f) ''method'' = fi_method f"
  "url_param (params_of f) ''agent'' = fi_agent f" "url_param (params_of f) ''signal'' = fi_signal f"
  "url_param (params_of f) ''q'' = []"
  by (simp_all add: url_param_def params_of_def dget_put_if)

text \<open>What the page writes into the URL reads back as the same filters, so the two effects settle.\<close>

lemma filters_roundtrip: "filters_of (params_of f) = f"
  by (cases f) (simp add: filters_of_def Let_def)

section \<open>The page is never stuck loading\<close>

text \<open>The window is one of those offered, loading is claimed only while a request is under way, and
  the cursor is null or what an answer carried.\<close>

definition view_wf :: "events_view \<Rightarrow> bool" where
  "view_wf s \<longleftrightarrow> ew_limit s \<in> set WINDOWS \<and> (ew_loading s \<longrightarrow> ew_fetches s \<noteq> []) \<and> (truthy (ew_cursor s) \<or> ew_cursor s = JNull)"

lemma load_fields [simp]:
  "ew_limit (load s) = ew_limit s" "ew_cursor (load s) = ew_cursor s" "ew_rows (load s) = ew_rows s" "ew_filters (load s) = ew_filters s"
  "ew_fetches (load s) = ew_fetches s @ [Newest (ew_limit s) (fi_ip (ew_filters s))]" "ew_loading (load s) = True"
  by (simp_all add: load_def start_fetch_def)

lemma step_view_wf: "events_step s t \<Longrightarrow> view_wf s \<Longrightarrow> view_wf t"
proof (induction rule: events_step.induct)
  case (ends i s r)
  then show ?case by (auto simp: view_wf_def end_fetch_def fetched_def jor_def Let_def split: sum.split fetch.split)
next
  case (older s)
  then show ?case by (auto simp: view_wf_def loadOlder_def start_fetch_def)
next
  case (limits n s)
  then show ?case by (auto simp: view_wf_def setLimit_def)
qed (auto simp: view_wf_def setFilters_def clear_filters_def Let_def)

lemma reach_view_wf: "events_reach s \<Longrightarrow> view_wf s"
proof (induction rule: events_reach.induct)
  case (opens ps b)
  show ?case by (simp add: events_opened_def view_wf_def) (simp add: WINDOWS_def)
qed (rule step_view_wf)

section \<open>Looking back reaches everything\<close>

text \<open>A request answered by the route over a stream that stands still, before the next one starts.\<close>

definition served :: "(string \<Rightarrow> event option) \<Rightarrow> stream_log \<Rightarrow> fetch \<Rightarrow> jserr + events_page" where
  "served decode st f = (case query_of f of (l, b, i) \<Rightarrow> snd (exec stream_serve (events_GET decode l b i) st))"

definition settle :: "(string \<Rightarrow> event option) \<Rightarrow> stream_log \<Rightarrow> events_view \<Rightarrow> events_view" where
  "settle decode st s = end_fetch 0 (served decode st (hd (ew_fetches s))) s"

fun look_back :: "(string \<Rightarrow> event option) \<Rightarrow> stream_log \<Rightarrow> nat \<Rightarrow> events_view \<Rightarrow> events_view" where
  "look_back decode st 0 s = s"
| "look_back decode st (Suc m) s = (if older_button s then look_back decode st m (settle decode st (loadOlder s)) else s)"

definition asked_ip :: "events_view \<Rightarrow> string" where
  "asked_ip s = ip_filter (if fi_ip (ew_filters s) = [] then None else Some (fi_ip (ew_filters s)))"

text \<open>The table holds the matching entries among the newest \<open>k\<close>, and the cursor leads to the rest.\<close>

definition covers :: "(string \<Rightarrow> event option) \<Rightarrow> stream_log \<Rightarrow> events_view \<Rightarrow> nat \<Rightarrow> bool" where
  "covers decode st s k \<longleftrightarrow> k \<le> length st \<and> ew_rows s = rows_of_log decode (asked_ip s) (take k st) \<and>
     ew_fetches s = [] \<and> \<not> ew_loading s \<and>
     (case ew_cursor s of JStr c \<Rightarrow> c \<noteq> [] \<and> 0 < k \<and> entries_from (start_cursor (Some c)) st = drop k st
      | JNull \<Rightarrow> k = length st \<or> length st < k + ew_limit s | _ \<Rightarrow> False)"

lemma window_limit: "n \<in> set WINDOWS \<Longrightarrow> page_limit (Some (show_nat n)) = Fin (of_nat n)"
  by (auto simp: WINDOWS_def page_limit_def param_number_def str_to_num_show MAX_LIMIT_def DEFAULT_LIMIT_def nis_finite_def Let_def)

lemma settle_load:
  assumes "stream_ok st" "ew_limit s \<in> set WINDOWS" "ew_fetches s = []"
  obtains k where "covers decode st (settle decode st (load s)) k"
    "ew_limit (settle decode st (load s)) = ew_limit s" "ew_filters (settle decode st (load s)) = ew_filters s"
proof -
  let ?ip = "if fi_ip (ew_filters s) = [] then None else Some (fi_ip (ew_filters s))"
  have st: "st = [] @ st" "entries_from (start_cursor None) st = st" by (simp_all add: start_cursor_def entries_from_def)
  obtain k page where p: "exec stream_serve (events_GET decode (Some (show_nat (ew_limit s))) None ?ip) st = (st, Inr page)"
    "page_ok decode (ip_filter ?ip) (ew_limit s) st st k page"
    using events_pages_cover [OF assms(1) window_limit [OF assms(2)] st] by blast
  let ?t = "settle decode st (load s)"
  have t: "?t = (fetched (Newest (ew_limit s) (fi_ip (ew_filters s))) page ((load s)\<lparr>ew_fetches := []\<rparr>))\<lparr>ew_loading := False\<rparr>"
    using p(1) by (simp add: settle_def served_def end_fetch_def assms(3))
  have "covers decode st ?t k" using p(2)
    by (auto simp: t covers_def page_ok_def fetched_def asked_ip_def jor_def split: jval.splits)
  then show thesis by (rule that) (simp_all add: t fetched_def)
qed

lemma settle_older:
  assumes "stream_ok st" "ew_limit s \<in> set WINDOWS" "covers decode st s k" "older_button s"
  obtains k' where "older_button (settle decode st (loadOlder s)) \<Longrightarrow> k < k'" "covers decode st (settle decode st (loadOlder s)) k'"
    "ew_limit (settle decode st (loadOlder s)) = ew_limit s" "ew_filters (settle decode st (loadOlder s)) = ew_filters s"
proof -
  let ?ip = "if fi_ip (ew_filters s) = [] then None else Some (fi_ip (ew_filters s))"
  obtain c where c: "ew_cursor s = JStr c" "0 < k" "k \<le> length st" "entries_from (start_cursor (Some c)) st = drop k st" "c \<noteq> []"
    using assms(3,4) by (auto simp: covers_def older_button_def split: jval.splits)
  have st: "st = take k st @ drop k st" by simp
  obtain j page where p: "exec stream_serve (events_GET decode (Some (show_nat (ew_limit s))) (Some c) ?ip) st = (st, Inr page)"
    "page_ok decode (ip_filter ?ip) (ew_limit s) st (drop k st) j page"
    using events_pages_cover [OF assms(1) window_limit [OF assms(2)] st c(4)] by blast
  let ?t = "settle decode st (loadOlder s)"
  have t: "?t = (fetched (Older (ew_limit s) (JStr c) (fi_ip (ew_filters s))) page (s\<lparr>ew_loading := True, ew_fetches := []\<rparr>))\<lparr>ew_loading := False\<rparr>"
    using p(1) c(5) assms(3) by (simp add: settle_def served_def end_fetch_def covers_def loadOlder_def c(1) start_fetch_def)
  have rows: "rows_of_log decode ip (take (k + j) st) = rows_of_log decode ip (take k st) @ rows_of_log decode ip (take j (drop k st))" for ip
    by (simp add: take_add rows_of_log_append)
  have ip: "asked_ip ?t = asked_ip s" by (simp add: t asked_ip_def fetched_def)
  have "ew_rows ?t = ew_rows s @ ep_events page" by (simp add: t fetched_def)
  also have "\<dots> = rows_of_log decode (asked_ip ?t) (take (k + j) st)"
    using p(2) assms(3) unfolding rows ip by (simp add: covers_def page_ok_def asked_ip_def)
  finally have "covers decode st ?t (k + j)" using p(2) c(2,3) unfolding covers_def page_ok_def
    by (auto simp: t fetched_def jor_def add.commute split: jval.splits)
  moreover have "0 < j" if "older_button ?t" using p(2) that
    by (auto simp: t page_ok_def fetched_def older_button_def jor_def split: jval.splits)
  ultimately show thesis by (intro that [of "k + j"]) (simp_all add: t fetched_def)
qed

lemma look_back_covers:
  assumes "stream_ok st" "ew_limit s \<in> set WINDOWS" "covers decode st s k" "older_button s \<Longrightarrow> length st < k + m"
  shows "\<exists>k'. covers decode st (look_back decode st m s) k' \<and> \<not> older_button (look_back decode st m s) \<and>
    ew_limit (look_back decode st m s) = ew_limit s \<and> ew_filters (look_back decode st m s) = ew_filters s"
  using assms(2-)
proof (induction m arbitrary: s k)
  case 0
  then have "\<not> older_button s" by (auto simp: covers_def)
  with 0 show ?case by auto
next
  case (Suc m)
  show ?case
  proof (cases "older_button s")
    case True
    obtain k' where k: "older_button (settle decode st (loadOlder s)) \<Longrightarrow> k < k'" "covers decode st (settle decode st (loadOlder s)) k'"
      "ew_limit (settle decode st (loadOlder s)) = ew_limit s" "ew_filters (settle decode st (loadOlder s)) = ew_filters s"
      using settle_older [OF assms(1) Suc.prems(1,2) True] by metis
    have "ew_limit (settle decode st (loadOlder s)) \<in> set WINDOWS" using Suc.prems(1) k(3) by simp
    moreover have "length st < k' + m" if "older_button (settle decode st (loadOlder s))"
      using k(1) [OF that] Suc.prems(3) [OF True] by simp
    ultimately show ?thesis using Suc.IH [OF _ k(2)] k(3,4) True by simp
  qed (use Suc.prems in auto)
qed

text \<open>Property C27. Looking back reaches everything the gateway still has: on a stream that stands still, the page
  that loads a window and then asks for older entries while the button is there needs at most one click
  per entry until the button goes. Then the table holds, in order and each once, the matching entries of
  the newest part of the stream, of which fewer entries than one window are left out.\<close>

theorem looking_back_reaches_everything:
  fixes decode :: "string \<Rightarrow> event option"
  assumes "stream_ok st" "events_reach s" "ew_fetches s = []"
  defines "t \<equiv> look_back decode st (length st) (settle decode st (load s))"
  shows "\<exists>k. ew_rows t = rows_of_log decode (asked_ip s) (take k st) \<and> k \<le> length st \<and> (k = length st \<or> length st < k + ew_limit s) \<and>
    ew_cursor t = JNull \<and> \<not> ew_loading t \<and> ew_fetches t = []"
proof -
  have w: "ew_limit s \<in> set WINDOWS" using reach_view_wf [OF assms(2)] by (simp add: view_wf_def)
  obtain k where k: "covers decode st (settle decode st (load s)) k"
    "ew_limit (settle decode st (load s)) = ew_limit s" "ew_filters (settle decode st (load s)) = ew_filters s"
    by (rule settle_load [OF assms(1) w assms(3)])
  have "length st < k + length st" if "older_button (settle decode st (load s))"
    using that k(1) by (auto simp: covers_def older_button_def split: jval.splits)
  from look_back_covers [OF assms(1) _ k(1) this] w k(2,3) obtain k' where
    "covers decode st t k'" "\<not> older_button t" "ew_limit t = ew_limit s" "ew_filters t = ew_filters s"
    unfolding t_def by auto
  then show ?thesis by (intro exI [of _ k']) (auto simp: covers_def older_button_def asked_ip_def split: jval.splits)
qed

definition demo_view :: events_view where
  "demo_view = end_fetch 0 (Inl (ServiceError ''offline'')) (events_opened [(''ip'', ''203.0.113.9'')] True)"

lemma demo_view_reached: "events_reach demo_view"
  unfolding demo_view_def by (rule next_step [OF opens ends]) (simp add: events_opened_def)

theorem looking_back_reaches_everything_witness:
  "\<exists>k. ew_rows (look_back demo_decode demo_log (length demo_log) (settle demo_decode demo_log (load demo_view))) =
     rows_of_log demo_decode ''203.0.113.9'' (take k demo_log) \<and> k \<le> length demo_log \<and> 0 < length (rows_of_log demo_decode ''203.0.113.9'' demo_log)"
proof -
  have s: "stream_ok demo_log" by (simp add: stream_ok_def demo_log_def)
  have f: "ew_fetches demo_view = []" by (simp add: demo_view_def events_opened_def end_fetch_def)
  have "url_param [(''ip'', ''203.0.113.9'')] ''ip'' = ''203.0.113.9''" by code_simp
  then have "fi_ip (ew_filters demo_view) = ''203.0.113.9''" by (simp add: demo_view_def events_opened_def end_fetch_def filters_of_def Let_def)
  then have i: "asked_ip demo_view = ''203.0.113.9''" by (simp add: asked_ip_def demo_filter)
  have "0 < length (rows_of_log demo_decode ''203.0.113.9'' demo_log)" by code_simp
  with looking_back_reaches_everything [OF s demo_view_reached f, of demo_decode] show ?thesis unfolding i by blast
qed

text \<open>A refresh while older entries are under way: the button is used on a live view, the timer fires before
  the answer, the newer window \<open>p\<close> arrives and then the older entries \<open>q\<close>. What lies between the new
  window and the old cursor is missing from the table, and the cursor is past it.\<close>

lemma refresh_during_older_leaves_a_gap:
  assumes "older_button s" "is_live s" "ew_fetches s = []"
  shows "events_step s (loadOlder s)" "events_step (loadOlder s) (load (loadOlder s))"
    "ew_rows (end_fetch 0 (Inr q) (end_fetch 1 (Inr p) (load (loadOlder s)))) = ep_events p @ ep_events q"
    "ew_cursor (end_fetch 0 (Inr q) (end_fetch 1 (Inr p) (load (loadOlder s)))) = jor (ep_cursor q) JNull"
proof -
  have o: "loadOlder s = start_fetch (Older (ew_limit s) (ew_cursor s) (fi_ip (ew_filters s))) s"
    using assms(1) by (simp add: loadOlder_def older_button_def)
  show "events_step s (loadOlder s)" by (rule older [OF assms(1)])
  show "events_step (loadOlder s) (load (loadOlder s))"
    by (rule tick) (use assms(2) in \<open>simp add: o is_live_def start_fetch_def\<close>)
  show "ew_rows (end_fetch 0 (Inr q) (end_fetch 1 (Inr p) (load (loadOlder s)))) = ep_events p @ ep_events q"
    "ew_cursor (end_fetch 0 (Inr q) (end_fetch 1 (Inr p) (load (loadOlder s)))) = jor (ep_cursor q) JNull"
    by (simp_all add: o load_def start_fetch_def end_fetch_def fetched_def assms(3))
qed

section \<open>Blocking what is in view\<close>

lemma uniq_targets: "targets (ips_in_view now s) = ips_in_view now s"
  by (simp add: targets_def ips_in_view_def filter_id_conv)


end
