(* ===== verification/AdaptivePage.thy ===== *)
theory AdaptivePage
  imports ConsoleStore JsText
begin

text \<open>
  The page of adaptive enforcement, \<open>app/(console)/adaptive/page.jsx\<close>: the draft configuration and its
  form, the dialogs that confirm a change, and the requests to \<open>api/adaptive\<close>. Requests under way form a
  list; a step starts one or ends one with its answer, \<open>Inl\<close> when the request or the reading of its
  body failed. These functions have no handler of their own, so what follows a failure is skipped. A
  policy id, the primary key of its row, is taken to be non-empty.
\<close>

section \<open>Forms\<close>

text \<open>\<open>{ ...current, [section]: { ...current[section], [name]: value } }\<close>\<close>

definition edited :: "string \<Rightarrow> string \<Rightarrow> jval \<Rightarrow> jval \<Rightarrow> jval" where
  "edited sect name value current = JObj (dput sect (JObj (dput name value (spread (jget current sect)))) (spread current))"

text \<open>A number field hands on \<open>""\<close> when it is empty; the form converts again.\<close>

definition number_field :: "string \<Rightarrow> jval" where
  "number_field t = (if t = [] then JStr [] else JNum (str_to_num t))"

definition edit_number :: "string \<Rightarrow> string \<Rightarrow> string \<Rightarrow> jval \<Rightarrow> jval" where
  "edit_number sect name t current = edited sect name (JNum (to_num (number_field t))) current"

text \<open>\<open>value.split(/[\n,]/).map(trim).filter(Boolean)\<close>; the area shows \<open>join("\n")\<close>.\<close>

abbreviation newline :: char where
  "newline \<equiv> char_of (10::nat)"

definition splitRanges :: "string \<Rightarrow> string list" where
  "splitRanges t = filter (\<lambda>w. w \<noteq> []) (map trim (concat (map (split_on (CHR '','')) (split_on newline t))))"

definition area_text :: "string list \<Rightarrow> string" where
  "area_text ws = join [newline] ws"

text \<open>The settings form's list field, \<open>Field.List\<close>.\<close>

definition split_lines :: "string \<Rightarrow> string list" where
  "split_lines t = filter (\<lambda>w. w \<noteq> []) (map trim (split_on newline t))"

definition GUARDRAIL_LIMITS :: "(string \<times> string \<times> string option) list" where
  "GUARDRAIL_LIMITS = [
     (''maximum_policy_duration_seconds'', ''Maximum policy duration (seconds)'', None),
     (''monitor_duration_seconds'', ''Monitor duration (seconds)'', None),
     (''throttle_duration_seconds'', ''Throttle duration (seconds)'', None),
     (''temporary_block_duration_seconds'', ''Temporary-block duration (seconds)'', None),
     (''minimum_confidence_throttle'', ''Throttle confidence'', Some ''0.01''),
     (''minimum_confidence_temporary_block'', ''Temporary-block confidence'', Some ''0.01''),
     (''minimum_throttle_rpm'', ''Minimum throttle RPM'', None),
     (''default_throttle_rpm'', ''Default throttle RPM'', None),
     (''maximum_throttle_rpm'', ''Maximum throttle RPM'', None),
     (''throttle_baseline_fraction'', ''Throttle baseline fraction'', Some ''0.01'')]"

definition GUARDRAIL_EVIDENCE :: "(string \<times> string \<times> string option) list" where
  "GUARDRAIL_EVIDENCE = [
     (''policy_cooldown_seconds'', ''Policy cooldown (seconds)'', None),
     (''minimum_deterministic_evidence_throttle'', ''Evidence required: throttle'', None),
     (''minimum_deterministic_evidence_temporary_block'', ''Evidence required: temporary block'', None)]"

definition BASELINE_NUMBERS :: "(string \<times> string \<times> string option) list" where
  "BASELINE_NUMBERS = [
     (''warmup_windows'', ''Warm-up windows'', None), (''rolling_windows'', ''Rolling windows'', None),
     (''mad_multiplier'', ''MAD multiplier'', Some ''0.1''), (''minimum_mad'', ''Minimum MAD'', Some ''0.1''),
     (''minimum_threshold_rpm'', ''Minimum learned RPM'', None), (''maximum_threshold_rpm'', ''Maximum learned RPM'', None),
     (''hysteresis_ratio'', ''Baseline hysteresis'', Some ''0.01''), (''cooldown_seconds'', ''Threshold cooldown (seconds)'', None)]"

definition RISK_NUMBERS :: "(string \<times> string \<times> string option) list" where
  "RISK_NUMBERS = [
     (''deterministic_weight'', ''Deterministic risk weight'', Some ''0.01''),
     (''behavioural_weight'', ''Behavioural risk weight'', Some ''0.01''),
     (''campaign_weight'', ''Campaign risk weight'', Some ''0.01''),
     (''throttle_score'', ''Throttle risk score'', Some ''0.1''),
     (''temporary_block_score'', ''Temporary-block risk score'', Some ''0.1'')]"

section \<open>State\<close>

datatype panel_op =
    Reading
  | Applying jval
  | Reverting
  | Deciding string jval

record panel =
  pa_data :: jval
  pa_draft :: jval
  pa_error :: jval
  pa_busy :: string
  pa_section :: string
  pa_confirming :: string
  pa_text :: string
  pa_saved :: jval
  pa_ops :: "panel_op list"
  pa_crashed :: bool

definition begin_op :: "panel_op \<Rightarrow> panel \<Rightarrow> panel" where
  "begin_op p s = s\<lparr>pa_ops := pa_ops s @ [p]\<rparr>"

definition panel0 :: panel where
  "panel0 = begin_op Reading \<lparr>pa_data = JObj [(''baselines'', JArr []), (''recommendations'', JArr []), (''audit'', JArr []),
       (''activePolicies'', JArr []), (''source'', JStr ''file'')],
     pa_draft = JNull, pa_error = JStr [], pa_busy = [], pa_section = ''guardrails'', pa_confirming = [], pa_text = [], pa_saved = JNull,
     pa_ops = [], pa_crashed = False\<rparr>"

definition pending_rows :: "panel \<Rightarrow> jval list" where
  "pending_rows s = (case jget (pa_data s) ''recommendations'' of
     JArr rs \<Rightarrow> filter (\<lambda>r. jget r ''status'' = JStr ''pending_approval'') rs | _ \<Rightarrow> [])"

definition effectiveMode :: "panel \<Rightarrow> jval" where
  "effectiveMode s = jor (jget (jget (pa_data s) ''config'') ''mode'') (jor (jget (pa_draft s) ''mode'') (JStr ''monitor''))"

definition selectedMode :: "panel \<Rightarrow> jval" where
  "selectedMode s = jor (jget (pa_draft s) ''mode'') (effectiveMode s)"

definition dirty :: "panel \<Rightarrow> bool" where
  "dirty s \<longleftrightarrow> truthy (pa_draft s) \<and> truthy (jget (pa_data s) ''config'') \<and> json_tree (pa_draft s) \<noteq> json_tree (jget (pa_data s) ''config'')"

definition from_console :: "panel \<Rightarrow> bool" where
  "from_console s \<longleftrightarrow> jget (pa_data s) ''source'' = JStr ''console''"

section \<open>Operations\<close>

definition close_dialog :: "panel \<Rightarrow> panel" where
  "close_dialog s = s\<lparr>pa_confirming := [], pa_text := []\<rparr>"

text \<open>What the page read; a body of \<open>null\<close> takes the page down at its next render.\<close>

definition took_data :: "jval \<Rightarrow> panel \<Rightarrow> panel" where
  "took_data v s = (if nullish v then s\<lparr>pa_data := v, pa_crashed := True\<rparr>
     else s\<lparr>pa_data := v, pa_draft := (if truthy (jget v ''config'') then jor (pa_draft s) (jget v ''config'') else pa_draft s),
            pa_error := (if truthy (jget v ''available'') then JStr [] else jor (jget v ''error'') (JStr ''adaptive store unavailable''))\<rparr>)"

definition applyChanges :: "panel \<Rightarrow> panel" where
  "applyChanges s = (if \<not> truthy (pa_draft s) then s
     else begin_op (Applying (save_request (json_tree (pa_draft s)))) (s\<lparr>pa_busy := ''apply''\<rparr>))"

definition revertChanges :: "panel \<Rightarrow> panel" where
  "revertChanges s = begin_op Reverting (s\<lparr>pa_busy := ''revert''\<rparr>)"

text \<open>\<open>response.ok\<close>\<close>

definition response_ok :: "http \<Rightarrow> bool" where
  "response_ok r \<longleftrightarrow> 200 \<le> fst r \<and> fst r < 300"

definition refused :: "string \<Rightarrow> jval \<Rightarrow> panel \<Rightarrow> panel" where
  "refused msg v s = (case dot v ''error'' of Inl e \<Rightarrow> s | Inr x \<Rightarrow> s\<lparr>pa_error := jor x (JStr msg)\<rparr>)"

definition now_saved :: "string \<Rightarrow> jval \<Rightarrow> panel \<Rightarrow> panel" where
  "now_saved source v s = (close_dialog s)\<lparr>pa_data := JObj (dput ''source'' (JStr source) (dput ''config'' (jget v ''config'') (spread (pa_data s)))),
     pa_draft := jget v ''config''\<rparr>"

definition applied :: "http \<Rightarrow> panel \<Rightarrow> panel" where
  "applied r s = (let t = s\<lparr>pa_busy := []\<rparr> in
     if \<not> response_ok r then refused ''settings rejected'' (snd r) t
     else if nullish (snd r) then (close_dialog t)\<lparr>pa_crashed := True\<rparr>
     else begin_op Reading ((now_saved ''console'' (snd r) t)\<lparr>pa_saved := jget (snd r) ''config''\<rparr>))"

definition reverted :: "http \<Rightarrow> panel \<Rightarrow> panel" where
  "reverted r s = (let t = s\<lparr>pa_busy := []\<rparr> in
     if \<not> response_ok r then refused ''could not revert adaptive settings'' (snd r) t
     else if nullish (snd r) then (close_dialog t)\<lparr>pa_crashed := True\<rparr>
     else begin_op Reading (now_saved ''file'' (snd r) t))"

text \<open>The inputs of a row: their texts, empty when there is none.\<close>

record row_inputs =
  ri_action :: string
  ri_rpm :: string
  ri_duration :: string

definition decision_body :: "jval \<Rightarrow> bool \<Rightarrow> row_inputs \<Rightarrow> jval" where
  "decision_body row approve f =
     (let action = jor (JStr (ri_action f)) (jget row ''action'');
          rpm = to_num (jor (JStr (ri_rpm f)) (jor (jget row ''requestsPerMinute'') (jint 0)));
          duration = to_num (jor (JStr (ri_duration f)) (jint 900)) in
      JObj [(''decision'', JStr (if approve then ''approve'' else ''reject'')),
        (''edits'', if approve then JObj [(''action'', action),
             (''requests_per_minute'', if action = JStr ''throttle'' then JNum rpm else jint 0), (''duration_seconds'', JNum duration)]
           else JObj [])])"

definition policy_id :: "jval \<Rightarrow> string" where
  "policy_id row = to_str (jget row ''policyId'')"

definition decide_row :: "jval \<Rightarrow> bool \<Rightarrow> row_inputs \<Rightarrow> panel \<Rightarrow> panel" where
  "decide_row row approve f s = begin_op (Deciding (policy_id row) (json_tree (decision_body row approve f))) (s\<lparr>pa_busy := policy_id row\<rparr>)"

definition decided :: "http \<Rightarrow> panel \<Rightarrow> panel" where
  "decided r s = (let t = s\<lparr>pa_busy := []\<rparr> in
     if \<not> response_ok r then refused ''decision rejected'' (snd r) t else begin_op Reading t)"

fun end_panel_op :: "panel_op \<Rightarrow> http \<Rightarrow> panel \<Rightarrow> panel" where
  "end_panel_op Reading r s = took_data (snd r) s"
| "end_panel_op (Applying b) r s = applied r s"
| "end_panel_op Reverting r s = reverted r s"
| "end_panel_op (Deciding i b) r s = decided r s"

definition end_panel :: "nat \<Rightarrow> jserr + http \<Rightarrow> panel \<Rightarrow> panel" where
  "end_panel i r s = (let t = s\<lparr>pa_ops := take i (pa_ops s) @ drop (Suc i) (pa_ops s)\<rparr> in
     case r of Inl e \<Rightarrow> t | Inr x \<Rightarrow> end_panel_op (pa_ops s ! i) x t)"

inductive panel_step :: "panel \<Rightarrow> panel \<Rightarrow> bool" where
  tick: "panel_step s (begin_op Reading s)"
| ends: "i < length (pa_ops s) \<Longrightarrow> panel_step s (end_panel i r s)"
| edits: "truthy (pa_draft s) \<Longrightarrow> panel_step s (s\<lparr>pa_draft := edited sect name v (pa_draft s)\<rparr>)"
| modes: "truthy (pa_draft s) \<Longrightarrow> m \<in> set MODES \<Longrightarrow> panel_step s (s\<lparr>pa_draft := JObj (dput ''mode'' (JStr m) (spread (pa_draft s)))\<rparr>)"
| tab: "panel_step s (s\<lparr>pa_section := w\<rparr>)"
| ask_apply: "truthy (pa_draft s) \<Longrightarrow> pa_busy s = [] \<Longrightarrow> dirty s \<Longrightarrow> panel_step s (s\<lparr>pa_confirming := ''apply''\<rparr>)"
| ask_revert: "truthy (pa_draft s) \<Longrightarrow> pa_busy s = [] \<Longrightarrow> from_console s \<Longrightarrow> panel_step s (s\<lparr>pa_confirming := ''revert''\<rparr>)"
| cancel: "pa_busy s = [] \<Longrightarrow> panel_step s (close_dialog s)"
| typing: "pa_busy s = [] \<Longrightarrow> pa_confirming s \<noteq> [] \<Longrightarrow> panel_step s (s\<lparr>pa_text := w\<rparr>)"
| confirm: "pa_busy s = [] \<Longrightarrow> pa_confirming s \<noteq> [] \<Longrightarrow> pa_text s = pa_confirming s \<Longrightarrow>
    panel_step s (if pa_confirming s = ''apply'' then applyChanges s else revertChanges s)"
| decides: "pa_busy s = [] \<Longrightarrow> row \<in> set (pending_rows s) \<Longrightarrow> policy_id row \<noteq> [] \<Longrightarrow> panel_step s (decide_row row approve f s)"
| saved_closed: "panel_step s (s\<lparr>pa_saved := JNull\<rparr>)"

inductive panel_reach :: "panel \<Rightarrow> bool" where
  starts: "panel_reach panel0"
| next_step: "panel_reach s \<Longrightarrow> panel_step s t \<Longrightarrow> panel_reach t"

section \<open>What the forms keep\<close>

definition clean_entry :: "string \<Rightarrow> bool" where
  "clean_entry w \<longleftrightarrow> w \<noteq> [] \<and> trim w = w \<and> newline \<notin> set w \<and> CHR '','' \<notin> set w"

lemma concat_single: "(\<And>w. w \<in> set ws \<Longrightarrow> f w = [w]) \<Longrightarrow> concat (map f ws) = ws"
  by (induction ws) auto

text \<open>The entries of an area read back as they were.\<close>

lemma splitRanges_join:
  assumes "list_all clean_entry ws"
  shows "splitRanges (area_text ws) = ws"
proof (cases "ws = []")
  case False
  have "split_on newline (area_text ws) = ws" unfolding area_text_def
    by (rule split_on_join [OF False]) (use assms in \<open>auto simp: clean_entry_def list_all_iff\<close>)
  moreover have "concat (map (split_on (CHR '','')) ws) = ws"
    by (rule concat_single) (use assms in \<open>auto simp: clean_entry_def list_all_iff split_on_single\<close>)
  moreover have "map trim ws = ws" "filter (\<lambda>w. w \<noteq> []) ws = ws"
    using assms by (auto simp: clean_entry_def list_all_iff intro: map_idI filter_True)
  ultimately show ?thesis by (simp add: splitRanges_def)
qed (simp add: splitRanges_def area_text_def trim_def)

lemma split_on_snoc: "split_on c (t @ [c]) = split_on c t @ [[]]"
  by (induction t) (auto split: list.splits)

text \<open>A new line typed at the end of an area is gone at once, in both forms: the next entry cannot be typed
  there.\<close>

lemma trim_Nil [simp]: "trim [] = []"
  by (simp add: trim_def)

lemma new_line_is_lost: "area_text (splitRanges (t @ [newline])) = area_text (splitRanges t)"
    "area_text (split_lines (t @ [newline])) = area_text (split_lines t)"
  by (simp_all add: splitRanges_def split_lines_def split_on_snoc)

section \<open>One confirmed change at a time\<close>

definition writes :: "panel_op \<Rightarrow> bool" where
  "writes p \<longleftrightarrow> p \<noteq> Reading"

text \<open>What holds while a change is under way: the page is busy with it, and the word was typed.\<close>

fun write_held :: "panel \<Rightarrow> panel_op \<Rightarrow> bool" where
  "write_held s Reading = True"
| "write_held s (Applying b) = (pa_busy s = ''apply'' \<and> pa_confirming s = ''apply'' \<and> pa_text s = ''apply'')"
| "write_held s Reverting = (pa_busy s = ''revert'' \<and> pa_confirming s = ''revert'' \<and> pa_text s = ''revert'')"
| "write_held s (Deciding i b) = (pa_busy s = i \<and> i \<noteq> [])"

definition panel_ok :: "panel \<Rightarrow> bool" where
  "panel_ok s \<longleftrightarrow> length (filter writes (pa_ops s)) \<le> 1 \<and> list_all (write_held s) (pa_ops s) \<and>
     pa_confirming s \<in> {[], ''apply'', ''revert''}"

lemma write_held_cong:
  "pa_busy t = pa_busy s \<Longrightarrow> pa_confirming t = pa_confirming s \<Longrightarrow> pa_text t = pa_text s \<Longrightarrow> write_held t = write_held s"
proof
  fix p
  assume "pa_busy t = pa_busy s" "pa_confirming t = pa_confirming s" "pa_text t = pa_text s"
  then show "write_held t p = write_held s p" by (cases p) simp_all
qed

lemma idle_no_writes: "panel_ok s \<Longrightarrow> pa_busy s = [] \<Longrightarrow> filter writes (pa_ops s) = []"
proof -
  assume a: "panel_ok s" "pa_busy s = []"
  have "\<not> writes p" if "p \<in> set (pa_ops s)" for p
    using a that by (cases p) (auto simp: panel_ok_def list_all_iff writes_def)
  then show ?thesis by simp
qed

lemma no_writes_held: "filter writes ps = [] \<Longrightarrow> list_all (write_held s) ps"
  by (auto simp: filter_empty_conv writes_def list_all_iff)

lemma end_op_ops [simp]:
  "filter writes (pa_ops (end_panel_op p r s)) = filter writes (pa_ops s)"
  by (cases p) (auto simp: took_data_def applied_def reverted_def decided_def refused_def now_saved_def close_dialog_def begin_op_def
      writes_def Let_def split: sum.split)

lemma took_data_kept [simp]: "pa_busy (took_data v s) = pa_busy s" "pa_confirming (took_data v s) = pa_confirming s" "pa_text (took_data v s) = pa_text s"
  by (simp_all add: took_data_def)

lemma end_confirming: "pa_confirming (end_panel_op p r s) \<in> {[], pa_confirming s}"
  by (cases p) (auto simp: applied_def reverted_def decided_def refused_def now_saved_def close_dialog_def begin_op_def Let_def split: sum.split)

lemma ends_ok:
  assumes "panel_ok s" "i < length (pa_ops s)"
  shows "panel_ok (end_panel i r s)"
proof -
  let ?rest = "take i (pa_ops s) @ drop (Suc i) (pa_ops s)" and ?p = "pa_ops s ! i"
  let ?t = "s\<lparr>pa_ops := ?rest\<rparr>"
  have ops: "pa_ops s = take i (pa_ops s) @ ?p # drop (Suc i) (pa_ops s)" by (rule id_take_nth_drop [OF assms(2)])
  have f: "filter writes (pa_ops s) = filter writes (take i (pa_ops s)) @ (if writes ?p then [?p] else []) @ filter writes (drop (Suc i) (pa_ops s))"
    by (subst ops) (simp del: append_take_drop_id)
  have held: "list_all (write_held s) ?rest" using assms(1)
    by (auto simp: panel_ok_def list_all_iff dest: in_set_takeD in_set_dropD)
  have t: "panel_ok ?t" using assms(1) f held write_held_cong [of ?t s] by (auto simp: panel_ok_def)
  show ?thesis
  proof (cases r)
    case (Inl e)
    then show ?thesis using t by (simp add: end_panel_def)
  next
    case (Inr x)
    let ?u = "end_panel_op ?p x ?t"
    have u: "end_panel i r s = ?u" by (simp add: end_panel_def Inr)
    have w: "length (filter writes (pa_ops ?u)) \<le> 1" using t by (simp add: panel_ok_def)
    have c: "pa_confirming ?u \<in> {[], ''apply'', ''revert''}" using end_confirming [of ?p x ?t] t by (auto simp: panel_ok_def)
    have "list_all (write_held ?u) (pa_ops ?u)"
    proof (cases "writes ?p")
      case True
      then have "filter writes ?rest = []" using f assms(1) by (auto simp: panel_ok_def)
      then show ?thesis by (intro no_writes_held) simp
    next
      case False
      then have "?u = took_data (snd x) ?t" by (simp add: writes_def)
      moreover have "pa_ops (took_data (snd x) ?t) = ?rest" by (simp add: took_data_def)
      moreover have "write_held (took_data (snd x) ?t) = write_held s" by (rule write_held_cong) simp_all
      ultimately show ?thesis using held by simp
    qed
    with w c show ?thesis by (simp add: u panel_ok_def)
  qed
qed

lemma panel_ok_keep:
  "panel_ok s \<Longrightarrow> pa_ops t = pa_ops s \<Longrightarrow> pa_busy t = pa_busy s \<Longrightarrow> pa_confirming t = pa_confirming s \<Longrightarrow> pa_text t = pa_text s \<Longrightarrow> panel_ok t"
  using write_held_cong [of t s] by (simp add: panel_ok_def)

lemma step_panel_ok: "panel_step s t \<Longrightarrow> panel_ok s \<Longrightarrow> panel_ok t"
proof (induction rule: panel_step.induct)
  case (ends i s r)
  then show ?case by (simp add: ends_ok)
next
  case (confirm s)
  have n: "filter writes (pa_ops s) = []" by (rule idle_no_writes) fact+
  then show ?case using confirm no_writes_held [OF n]
    by (auto simp: panel_ok_def applyChanges_def revertChanges_def begin_op_def writes_def)
next
  case (decides s row approve f)
  have n: "filter writes (pa_ops s) = []" by (rule idle_no_writes) fact+
  then show ?case using decides no_writes_held [OF n] by (auto simp: panel_ok_def decide_row_def begin_op_def writes_def)
next
  case (ask_apply s)
  have n: "filter writes (pa_ops s) = []" by (rule idle_no_writes) fact+
  then show ?case using no_writes_held [OF n] by (simp add: panel_ok_def)
next
  case (ask_revert s)
  have n: "filter writes (pa_ops s) = []" by (rule idle_no_writes) fact+
  then show ?case using no_writes_held [OF n] by (simp add: panel_ok_def)
next
  case (cancel s)
  have n: "filter writes (pa_ops s) = []" by (rule idle_no_writes) fact+
  then show ?case using no_writes_held [OF n] by (simp add: panel_ok_def close_dialog_def)
next
  case (typing s w)
  have n: "filter writes (pa_ops s) = []" by (rule idle_no_writes) fact+
  then show ?case using no_writes_held [OF n] typing by (simp add: panel_ok_def)
next
  case (tick s)
  then show ?case using write_held_cong [of "begin_op Reading s" s] by (auto simp: panel_ok_def begin_op_def writes_def)
qed (erule panel_ok_keep; simp)+

lemma reach_panel_ok: "panel_reach s \<Longrightarrow> panel_ok s"
proof (induction rule: panel_reach.induct)
  case starts
  show ?case by (simp add: panel0_def begin_op_def panel_ok_def writes_def)
qed (rule step_panel_ok)

text \<open>Property C31. One change at a time, and only a confirmed one: in every state of the page at most one request
  that changes something is under way; the page is then busy with it, and a save or a revert was
  confirmed by typing its word into the dialog that asks for it.\<close>

theorem one_confirmed_change:
  "panel_reach s \<Longrightarrow> length (filter writes (pa_ops s)) \<le> 1 \<and> list_all (write_held s) (pa_ops s)"
  using reach_panel_ok by (simp add: panel_ok_def)

text \<open>A page asking to revert what the console stored: it read the settings, opened the dialog, had the word typed.\<close>

definition console_settings :: jval where
  "console_settings = JObj [(''available'', JBool True), (''config'', sample_config), (''source'', JStr ''console'')]"

definition asking :: panel where
  "asking = (end_panel 0 (Inr (200, console_settings)) panel0)\<lparr>pa_confirming := ''revert''\<rparr>\<lparr>pa_text := ''revert''\<rparr>"

lemma loaded_fields:
  "pa_ops (end_panel 0 (Inr (200, console_settings)) panel0) = []" "pa_busy (end_panel 0 (Inr (200, console_settings)) panel0) = []"
  "from_console (end_panel 0 (Inr (200, console_settings)) panel0)" "truthy (pa_draft (end_panel 0 (Inr (200, console_settings)) panel0))"
  by (simp_all add: end_panel_def panel0_def begin_op_def took_data_def console_settings_def nullish_def jget_Cons jor_def from_console_def sample_config_def)

lemma asking_reached: "panel_reach asking"
proof -
  let ?s = "end_panel 0 (Inr (200, console_settings)) panel0"
  have "panel_reach ?s" by (rule next_step [OF starts ends]) (simp add: panel0_def begin_op_def)
  then have "panel_reach (?s\<lparr>pa_confirming := ''revert''\<rparr>)"
    by (rule next_step) (intro ask_revert loaded_fields)
  then show ?thesis unfolding asking_def
    by (rule next_step) (rule typing, simp_all add: loaded_fields)
qed

theorem one_confirmed_change_witness:
  "pa_ops (revertChanges asking) = [Reverting] \<and> write_held (revertChanges asking) Reverting"
proof -
  have "panel_step asking (if pa_confirming asking = ''apply'' then applyChanges asking else revertChanges asking)"
    by (rule confirm) (simp_all add: asking_def loaded_fields)
  then have "panel_step asking (revertChanges asking)" by (simp add: asking_def)
  from one_confirmed_change [OF next_step [OF asking_reached this]]
  show ?thesis by (simp add: revertChanges_def begin_op_def asking_def loaded_fields)
qed

text \<open>When the request of a change, or the reading of its answer, fails, the page stays busy: no button works
  again and the dialog cannot be closed, whatever happens afterwards.\<close>

lemma lost_answer_freezes:
  "panel_step s t \<Longrightarrow> pa_busy s \<noteq> [] \<Longrightarrow> filter writes (pa_ops s) = [] \<Longrightarrow> pa_busy t = pa_busy s \<and> filter writes (pa_ops t) = []"
proof (induction rule: panel_step.induct)
  case (ends i s r)
  then have "pa_ops s ! i = Reading" using nth_mem [of i "pa_ops s"] by (auto simp: filter_empty_conv writes_def)
  moreover have "filter writes (take i (pa_ops s) @ drop (Suc i) (pa_ops s)) = []" using ends
    by (auto simp: filter_empty_conv dest: in_set_takeD in_set_dropD)
  ultimately show ?case using ends by (cases r) (auto simp: end_panel_def Let_def took_data_def)
qed (simp_all add: begin_op_def writes_def)

section \<open>What a save leaves\<close>

text \<open>A refresh, a decision or a refusal keeps the draft that is being edited.\<close>

definition draft_kept :: "panel_op \<Rightarrow> jserr + http \<Rightarrow> bool" where
  "draft_kept p r = (case r of Inl e \<Rightarrow> True | Inr x \<Rightarrow> (case p of Reading \<Rightarrow> True | Deciding i b \<Rightarrow> True | _ \<Rightarrow> \<not> response_ok x))"

lemma end_keeps_draft:
  "truthy (pa_draft s) \<Longrightarrow> draft_kept (pa_ops s ! i) r \<Longrightarrow> pa_draft (end_panel i r s) = pa_draft s"
  by (cases "pa_ops s ! i") (auto simp: end_panel_def draft_kept_def took_data_def applied_def reverted_def decided_def refused_def begin_op_def
      jor_def Let_def split: sum.splits)

text \<open>The save of a page against the route on a database: the database, and the page once answered.\<close>

definition save_on :: "env \<Rightarrow> adb \<Rightarrow> panel \<Rightarrow> adb \<times> panel" where
  "save_on env ab s = (case exec adb_serve (settings_PUT env (Some (save_request (json_tree (pa_draft s))))) ab of
     (ab', x) \<Rightarrow> (ab', end_panel (length (pa_ops s)) x (applyChanges s)))"

lemma end_apply:
  "truthy (pa_draft s) \<Longrightarrow> end_panel (length (pa_ops s)) (Inr x) (applyChanges s) = applied x (s\<lparr>pa_busy := ''apply''\<rparr>)"
  by (simp add: end_panel_def applyChanges_def begin_op_def applied_def Let_def)

lemma seq_get_version: "seq_get xs ''version'' = JUndef"
proof -
  have "index_key ''version'' = None" by code_simp
  then show ?thesis by (simp add: seq_get_def)
qed

lemma valid_object: "validateAdaptive config = None \<Longrightarrow> \<exists>d. config = JObj d"
proof -
  assume a: "validateAdaptive config = None"
  have "integerBetween (jget config ''version'') (jint 1) (jint (2 ^ 53 - 1))"
    using a by (auto simp: validateAdaptive_def Let_def first_err_append top_checks_def first_err_Cons split: option.splits if_splits)
  then have "jget config ''version'' \<noteq> JUndef" unfolding integerBetween_int by (auto simp: whole_def is_integer_def)
  then show ?thesis by (cases config) (simp_all add: jget_def seq_get_version)
qed

text \<open>Property C11. A save either takes or changes nothing: when the draft still carries the stored version, the
  row afterwards holds exactly what the page then shows as its configuration and its draft, under the
  new version, so that a further save can take too; otherwise the row is untouched, the edits are kept
  and the page says that the settings have changed.\<close>

theorem save_agrees_with_the_database:
  assumes "has_pool env" "ab_undo ab = None" "ab_row ab = Some r" "truthy (pa_draft s)" "validateAdaptive (json_tree (pa_draft s)) = None"
  shows "case save_on env ab s of (ab', t) \<Rightarrow> pa_busy t = [] \<and>
    (if to_num (jget (json_tree (pa_draft s)) ''version'') = to_num (sr_version r)
     then (case ab_row ab' of None \<Rightarrow> False | Some r' \<Rightarrow> sr_config r' = pa_draft t \<and> sr_version r' = jget (pa_draft t) ''version'' \<and>
         sr_version r' = next_version (sr_version r) \<and> sr_source r' = ''console'') \<and>
       jget (pa_data t) ''config'' = pa_draft t \<and> from_console t \<and> \<not> dirty t \<and> pa_confirming t = []
     else ab' = ab \<and> pa_draft t = pa_draft s \<and> pa_error t = JStr ''settings changed since this page loaded; reload before saving'')"
proof -
  let ?c = "json_tree (pa_draft s)"
  obtain d where d: "?c = JObj d" using valid_object [OF assms(5)] by blast
  have e: "exec adb_serve (settings_PUT env (Some (save_request ?c))) ab = (case compare_and_set ?c ab of (t, x) \<Rightarrow> (t, Inr x))"
    by (rule put_exec [OF assms(1,5,2)])
  show ?thesis
  proof (cases "to_num (jget ?c ''version'') = to_num (sr_version r)")
    case True
    let ?v = "next_version (sr_version r)" let ?c' = "jset ?c ''version'' ?v"
    have "compare_and_set ?c ab = install ?c ''console'' ''settings_updated'' r ab"
      unfolding compare_and_set_def assms(3) option.case valid_number [OF assms(5)] using True by simp
    moreover have "jget ?c' ''version'' = ?v" by (simp add: d jget_jset)
    ultimately show ?thesis using True
      by (simp add: save_on_def e install_def Let_def end_apply [OF assms(4)] applied_def response_ok_def json_def nullish_def
          now_saved_def close_dialog_def begin_op_def jget_JObj dget_Cons from_console_def dirty_def put_row_def)
  next
    case False
    then have "compare_and_set ?c ab = (ab, refuse 409 ''settings changed since this page loaded; reload before saving'')"
      by (simp add: compare_and_set_def assms(3) valid_number [OF assms(5)])
    then show ?thesis using False
      by (simp add: save_on_def e end_apply [OF assms(4)] applied_def response_ok_def refuse_def json_status_def refused_def dot_JObj
          jget_JObj dget_Cons jor_def)
  qed
qed

lemma sample_tree: "json_tree sample_config = sample_config"
  by code_simp

text \<open>A page that has read the stored settings; then another console saved, and it did not.\<close>

definition loaded_page :: panel where
  "loaded_page = end_panel 0 (Inr (200, console_settings)) panel0"

lemma loaded_page_draft: "pa_draft loaded_page = sample_config"
proof -
  have "truthy sample_config" by (simp add: sample_config_def)
  then show ?thesis
    by (simp add: loaded_page_def end_panel_def panel0_def begin_op_def took_data_def console_settings_def nullish_def jget_Cons jor_def)
qed

lemma other_saved: "ab_undo (fst (install sample_config ''console'' ''settings_updated'' valid_row small_db)) = None"
    "ab_row (fst (install sample_config ''console'' ''settings_updated'' valid_row small_db)) =
       Some (put_row (jint 5) (JStr ''manual'') (jset sample_config ''version'' (jint 5)) ''console'' ''operator'' valid_row)"
proof -
  have v: "next_version (sr_version valid_row) = jint 5" using nadd_int [of 4 1] by (simp add: next_version_def valid_row_def)
  have m: "jget (jset sample_config ''version'' (jint 5)) ''mode'' = JStr ''manual''" by (simp add: sample_config_def jget_jset jget_Cons)
  show "ab_undo (fst (install sample_config ''console'' ''settings_updated'' valid_row small_db)) = None"
    by (simp add: install_fields(2) small_db_def)
  show "ab_row (fst (install sample_config ''console'' ''settings_updated'' valid_row small_db)) =
       Some (put_row (jint 5) (JStr ''manual'') (jset sample_config ''version'' (jint 5)) ''console'' ''operator'' valid_row)"
    by (simp only: install_fields(1) v m)
qed

theorem save_agrees_with_the_database_witness:
  "(case save_on demo_env small_db loaded_page of (ab', t) \<Rightarrow> from_console t \<and> \<not> dirty t \<and> pa_busy t = []) \<and>
   (let ab = fst (install sample_config ''console'' ''settings_updated'' valid_row small_db) in
    case save_on demo_env ab loaded_page of (ab', t) \<Rightarrow> ab' = ab \<and> pa_draft t = sample_config)"
proof -
  have d: "truthy (pa_draft loaded_page)" "validateAdaptive (json_tree (pa_draft loaded_page)) = None"
    unfolding loaded_page_draft sample_tree by (simp add: sample_config_def) (rule sample_valid)
  have r: "ab_row small_db = Some valid_row" by (simp add: small_db_def)
  have v: "to_num (jget (json_tree (pa_draft loaded_page)) ''version'') = nint 4" unfolding loaded_page_draft sample_tree sample_version by simp
  have s: "to_num (sr_version valid_row) = nint 4" by (simp add: valid_row_def)
  from save_agrees_with_the_database [OF demo_pool small_db_save(1) r d]
  have a: "case save_on demo_env small_db loaded_page of (ab', t) \<Rightarrow> from_console t \<and> \<not> dirty t \<and> pa_busy t = []"
    unfolding v s by (auto split: prod.splits)
  have w: "to_num (sr_version (put_row (jint 5) m c src act valid_row)) = nint 5" for m c src act by (simp add: put_row_def)
  from save_agrees_with_the_database [OF demo_pool other_saved d]
  have "case save_on demo_env (fst (install sample_config ''console'' ''settings_updated'' valid_row small_db)) loaded_page of
      (ab', t) \<Rightarrow> ab' = fst (install sample_config ''console'' ''settings_updated'' valid_row small_db) \<and> pa_draft t = sample_config"
    unfolding v w unfolding loaded_page_draft by (auto split: prod.splits)
  with a show ?thesis by (simp add: Let_def)
qed

text \<open>Every number the form edits is one the stored configuration has.\<close>

lemma form_fields_exist:
  "list_all (\<lambda>(k, l, st). jget (jget sample_config ''guardrails'') k \<noteq> JUndef) (GUARDRAIL_LIMITS @ GUARDRAIL_EVIDENCE) \<and>
   list_all (\<lambda>(k, l, st). jget (jget sample_config ''baseline'') k \<noteq> JUndef) BASELINE_NUMBERS \<and>
   list_all (\<lambda>(k, l, st). jget (jget sample_config ''risk'') k \<noteq> JUndef) RISK_NUMBERS"
  by code_simp

end
