(* ===== verification/ShopBackend.thy ===== *)
theory ShopBackend
  imports RoutesRead
begin

text \<open>
  The demo shop's backend, \<open>src/vulnerable-app/backend\<close>: login tokens, login, orders, products, the
  planted demo files, and the database it starts with. A query is its text and its parameters; runs of
  white space in the text of a query are written as one space. \<open>hmac\<close> (the base64url text of
  \<open>crypto.createHmac('sha256', key)\<close>), \<open>encode\<close> and \<open>decode\<close> (JSON as base64url text) and \<open>stringify\<close>
  are arguments; what Postgres, the disk and the clock answer is arbitrary. Some routes of this
  application are vulnerable on purpose, and are modelled as they are.
\<close>

section \<open>What the routes ask\<close>

datatype shop =
    SQuery string "jval list"
  | ReadDemo string
  | ShopNow

type_synonym 'a shop_io = "(shop, 'a) io"

text \<open>A request: its authorization header, the id in its path, its query parameters and its body.\<close>

record shop_request =
  sr_auth :: string
  sr_id :: string
  sr_query :: jval
  sr_body :: jval

definition failure :: "nat \<Rightarrow> string \<Rightarrow> http" where
  "failure st msg = json_status st [(''success'', JBool False), (''message'', JStr msg)]"

section \<open>Login tokens\<close>

definition DEMO_SECRET :: string where "DEMO_SECRET = ''iasg-demo-jwt-secret-change-me''"
definition TOKEN_LIFETIME_SECONDS :: int where "TOKEN_LIFETIME_SECONDS = 60 * 60"

definition secret :: "env \<Rightarrow> string" where
  "secret env = env_or env ''IASG_JWT_SECRET'' DEMO_SECRET"

definition token_header :: jval where
  "token_header = JObj [(''alg'', JStr ''HS256''), (''typ'', JStr ''JWT'')]"

definition token_claims :: "jval \<Rightarrow> jnum \<Rightarrow> jval" where
  "token_claims user now = (let issuedAt = nfloor (ndiv now (nint 1000)) in
     JObj [(''sub'', JStr (to_str (jget user ''id''))), (''role'', jget user ''role''), (''iat'', JNum issuedAt),
       (''exp'', JNum (nadd issuedAt (nint TOKEN_LIFETIME_SECONDS)))])"

definition issueToken :: "(string \<Rightarrow> string \<Rightarrow> string) \<Rightarrow> (jval \<Rightarrow> string) \<Rightarrow> jval \<Rightarrow> jnum \<Rightarrow> string \<Rightarrow> string" where
  "issueToken hmac encode user now key =
     (let unsigned = encode token_header @ ''.'' @ encode (token_claims user now) in unsigned @ ''.'' @ hmac key unsigned)"

text \<open>The claims, or \<open>None\<close> for \<open>null\<close>; a part that does not decode or has no such property ends in the \<open>catch\<close>.\<close>

definition checked_claims :: "(string \<Rightarrow> jval option) \<Rightarrow> string \<Rightarrow> string \<Rightarrow> jnum \<Rightarrow> jval option" where
  "checked_claims decode h c now = (case (decode h, decode c) of
       (Some header, Some claims) \<Rightarrow>
         if nullish header \<or> jget header ''alg'' \<noteq> JStr ''HS256'' then None
         else if nullish claims \<or> \<not> is_integer (jget claims ''exp'') \<or> nle (nmul (to_num (jget claims ''exp'')) (nint 1000)) now then None
         else Some claims
     | _ \<Rightarrow> None)"

definition verifyToken :: "(string \<Rightarrow> string \<Rightarrow> string) \<Rightarrow> (string \<Rightarrow> jval option) \<Rightarrow> string \<Rightarrow> jnum \<Rightarrow> string \<Rightarrow> jval option" where
  "verifyToken hmac decode token now key = (case split_on (CHR ''.'') token of
       [h, c, sig] \<Rightarrow> if hmac key (h @ ''.'' @ c) \<noteq> sig then None else checked_claims decode h c now
     | _ \<Rightarrow> None)"

text \<open>\<open>/^Bearer\s+(\S+)$/\<close>\<close>

definition bearer :: "string \<Rightarrow> string option" where
  "bearer h = (let r = drop 6 h; t = dropWhile is_space r in
     if take 6 h = ''Bearer'' \<and> r \<noteq> t \<and> t \<noteq> [] \<and> list_all (\<lambda>c. \<not> is_space c) t then Some t else None)"

text \<open>The caller: an id and a role.\<close>

definition claims_caller :: "jval \<Rightarrow> (jnum \<times> jval) option" where
  "claims_caller claims = (let id = to_num (jget claims ''sub'') in
     if nis_int id \<and> nlt (nint 0) id then Some (id, jget claims ''role'') else None)"

definition callerFrom :: "(string \<Rightarrow> string \<Rightarrow> string) \<Rightarrow> (string \<Rightarrow> jval option) \<Rightarrow> env \<Rightarrow> jnum \<Rightarrow> string \<Rightarrow> (jnum \<times> jval) option" where
  "callerFrom hmac decode env now auth = (case bearer auth of None \<Rightarrow> None
     | Some t \<Rightarrow> (case verifyToken hmac decode t now (secret env) of None \<Rightarrow> None | Some claims \<Rightarrow> claims_caller claims))"

section \<open>Login\<close>

definition rows_of :: "jval \<Rightarrow> jserr + jval list" where
  "rows_of result = sbind (dot result ''rows'') items"

definition row_0 :: "jval \<Rightarrow> jserr + jval" where
  "row_0 result = sbind (dot result ''rows'') (\<lambda>rows. dot rows ''0'')"

definition login_sql :: string where
  "login_sql = ''SELECT id, email, role, name FROM users WHERE email = $1 AND password = $2 LIMIT 1''"

text \<open>\<open>try { ... } catch { 500 }\<close>\<close>

definition or_500 :: "string \<Rightarrow> http shop_io \<Rightarrow> http shop_io" where
  "or_500 msg p = try_catch p (\<lambda>e. ok (failure 500 msg))"

definition login :: "(string \<Rightarrow> string \<Rightarrow> string) \<Rightarrow> (jval \<Rightarrow> string) \<Rightarrow> env \<Rightarrow> shop_request \<Rightarrow> http shop_io" where
  "login hmac encode env rq =
     (let body = jor (sr_body rq) (JObj []) in
      or_500 ''Login failed''
        (next_do (await (SQuery login_sql [jget body ''email'', jget body ''password''])) (\<lambda>result.
         next_do (of_sum (row_0 result)) (\<lambda>user.
         if \<not> truthy user then ok (failure 401 ''Invalid email or password'')
         else next_do (await ShopNow) (\<lambda>now.
           ok (json [(''success'', JBool True), (''message'', JStr ''Login successful!''), (''user'', user),
             (''token'', JStr (issueToken hmac encode user (to_num now) (secret env)))]))))))"

section \<open>Orders\<close>

definition orderId :: "string \<Rightarrow> nat option" where
  "orderId v = (if v \<noteq> [] \<and> length v \<le> 9 \<and> list_all is_digit v then Some (parse_nat v) else None)"

definition toOrder :: "jval \<Rightarrow> jserr + jval" where
  "toOrder row = sbind (dot row ''id'') (\<lambda>i. Inr (JObj [(''id'', i), (''userId'', jget row ''user_id''), (''orderNumber'', jget row ''order_number''),
     (''customerName'', jget row ''customer_name''), (''shippingAddress'', jget row ''shipping_address''), (''items'', jget row ''items''),
     (''total'', JNum (to_num (jget row ''total''))), (''status'', jget row ''status''), (''createdAt'', jget row ''created_at'')]))"

definition selectOrders :: string where
  "selectOrders = ''SELECT id, order_number, user_id, customer_name, shipping_address, items, total, status, created_at FROM orders''"

definition own_orders_sql :: string where
  "own_orders_sql = selectOrders @ '' WHERE user_id = $1 ORDER BY id''"

definition any_order_sql :: string where
  "any_order_sql = selectOrders @ '' WHERE id = $1 LIMIT 1''"

definition own_order_sql :: string where
  "own_order_sql = selectOrders @ '' WHERE id = $1 AND user_id = $2 LIMIT 1''"

text \<open>\<open>requireCaller\<close>: \<open>verifyToken\<close> reads the clock.\<close>

definition requireCaller :: "(jnum \<Rightarrow> string \<Rightarrow> (jnum \<times> jval) option) \<Rightarrow> shop_request \<Rightarrow> (jnum \<Rightarrow> http shop_io) \<Rightarrow> http shop_io" where
  "requireCaller who rq next' = next_do (await ShopNow) (\<lambda>now. case who (to_num now) (sr_auth rq) of
       None \<Rightarrow> ok (failure 401 ''Log in to view orders'')
     | Some (caller, r) \<Rightarrow> next' caller)"

definition list_orders :: "(jnum \<Rightarrow> string \<Rightarrow> (jnum \<times> jval) option) \<Rightarrow> shop_request \<Rightarrow> http shop_io" where
  "list_orders who rq = requireCaller who rq (\<lambda>caller. or_500 ''Failed to list orders''
     (next_do (await (SQuery own_orders_sql [JNum caller])) (\<lambda>result.
      next_do (of_sum (sbind (rows_of result) (sum_map toOrder))) (\<lambda>orders. ok (json [(''orders'', JArr orders)])))))"

text \<open>The two routes for one order differ in the query alone.\<close>

definition one_order :: "(nat \<Rightarrow> jnum \<Rightarrow> shop) \<Rightarrow> (jnum \<Rightarrow> string \<Rightarrow> (jnum \<times> jval) option) \<Rightarrow> shop_request \<Rightarrow> http shop_io" where
  "one_order ask who rq = requireCaller who rq (\<lambda>caller.
     case orderId (sr_id rq) of
       None \<Rightarrow> ok (failure 404 ''Order not found'')
     | Some i \<Rightarrow> if i = 0 then ok (failure 404 ''Order not found'')
         else or_500 ''Failed to fetch order'' (next_do (await (ask i caller)) (\<lambda>result.
           next_do (of_sum (row_0 result)) (\<lambda>row.
           if \<not> truthy row then ok (failure 404 ''Order not found'')
           else next_do (of_sum (toOrder row)) (\<lambda>order. ok (json [(''order'', order)]))))))"

definition get_order :: "(jnum \<Rightarrow> string \<Rightarrow> (jnum \<times> jval) option) \<Rightarrow> shop_request \<Rightarrow> http shop_io" where
  "get_order = one_order (\<lambda>i caller. SQuery any_order_sql [jint (int i)])"

definition get_order_secure :: "(jnum \<Rightarrow> string \<Rightarrow> (jnum \<times> jval) option) \<Rightarrow> shop_request \<Rightarrow> http shop_io" where
  "get_order_secure = one_order (\<lambda>i caller. SQuery own_order_sql [jint (int i), JNum caller])"

section \<open>Placing an order\<close>

record item =
  it_product :: "string option"
  it_name :: jval
  it_price :: jnum
  it_quantity :: jnum
  it_image :: "string option"

definition jand :: "jval \<Rightarrow> jval \<Rightarrow> jval" where
  "jand a b = (if truthy a then b else a)"

text \<open>A text of more than white space, trimmed.\<close>

definition trimmed_or :: "jval \<Rightarrow> string \<Rightarrow> string" where
  "trimmed_or v d = (case v of JStr t \<Rightarrow> if trim t \<noteq> [] then trim t else d | _ \<Rightarrow> d)"

definition normalize_item :: "jval \<Rightarrow> item option" where
  "normalize_item raw = (let q = to_num (jand raw (jget raw ''quantity'')) in
     if \<not> nis_int q \<or> nlt q (nint 1) \<or> nlt (nint 99) q then None
     else Some \<lparr>it_product = (if truthy raw \<and> \<not> nullish (jget raw ''productId'') then Some (to_str (jget raw ''productId'')) else None),
       it_name = JStr (trimmed_or (jand raw (jget raw ''name'')) ''Item''),
       it_price = nmax (nint 0) (let p = to_num (jand raw (jget raw ''price'')) in if p = NaN then Fin 0 else p),
       it_quantity = q,
       it_image = (case jand raw (jget raw ''image'') of JStr t \<Rightarrow> Some t | _ \<Rightarrow> None)\<rparr>)"

definition item_json :: "item \<Rightarrow> jval" where
  "item_json it = JObj [(''productId'', case it_product it of None \<Rightarrow> JNull | Some p \<Rightarrow> JStr p), (''name'', it_name it), (''price'', JNum (it_price it)),
     (''quantity'', JNum (it_quantity it)), (''image'', case it_image it of None \<Rightarrow> JNull | Some p \<Rightarrow> JStr p)]"

definition numeric_ids :: "item list \<Rightarrow> jnum list" where
  "numeric_ids its = map str_to_num (filter (\<lambda>p. p \<noteq> [] \<and> list_all is_digit p)
     (concat (map (\<lambda>it. case it_product it of None \<Rightarrow> [] | Some p \<Rightarrow> [p]) its)))"

definition prices_sql :: string where "prices_sql = ''SELECT id, name, price FROM products WHERE id = ANY($1)''"

text \<open>\<open>new Map(rows.map((row) => [String(row.id), row]))\<close>: a later row replaces an earlier one.\<close>

definition by_id :: "jval list \<Rightarrow> jserr + (string \<times> jval) list" where
  "by_id rows = sbind (sum_map (\<lambda>row. sbind (dot row ''id'') (\<lambda>i. Inr (to_str i, row))) rows) (\<lambda>kvs. Inr (dput_all kvs []))"

definition priced :: "(string \<times> jval) list \<Rightarrow> item \<Rightarrow> item" where
  "priced products it = (case it_product it of
       Some p \<Rightarrow> if p = [] then it else (case dget products p of
           Some product \<Rightarrow> if truthy product then it\<lparr>it_name := jget product ''name'', it_price := to_num (jget product ''price'')\<rparr> else it
         | None \<Rightarrow> it)
     | None \<Rightarrow> it)"

definition look_up_prices :: "item list \<Rightarrow> item list shop_io" where
  "look_up_prices its = (if numeric_ids its = [] then ok its
     else next_do (await (SQuery prices_sql [JArr (map JNum (numeric_ids its))])) (\<lambda>result.
          next_do (of_sum (sbind (rows_of result) by_id)) (\<lambda>products. ok (map (priced products) its))))"

definition customer_name :: "jval \<Rightarrow> string" where
  "customer_name address = trimmed_or (jget address ''fullName'') ''Customer''"

definition address_line :: "jval \<Rightarrow> string" where
  "address_line address = (let parts = concat (map (\<lambda>k. case jget address k of JStr t \<Rightarrow> if trim t \<noteq> [] then [t] else [] | _ \<Rightarrow> [])
       [''street'', ''city'', ''state'', ''zip'', ''country'']); l = join '', '' parts
     in if l \<noteq> [] then l else ''No address provided'')"

definition subtotal :: "item list \<Rightarrow> jnum" where
  "subtotal its = fold (\<lambda>it s. nadd s (nmul (it_price it) (it_quantity it))) its (nint 0)"

definition cents :: "jnum \<Rightarrow> jnum" where
  "cents v = ndiv (nround (nmul v (nint 100))) (nint 100)"

definition order_total :: "item list \<Rightarrow> jnum" where
  "order_total its = (let s = subtotal its; shipping = (if nle (nint 50) s then nint 0 else fl (599 / 100));
       tax = cents (nmul s (fl (8 / 100)))
     in cents (nadd (nadd s shipping) tax))"

definition sequence_sql :: string where "sequence_sql = ''SELECT nextval(pg_get_serial_sequence('orders', 'id')) AS id''"

definition insert_order_sql :: string where
  "insert_order_sql = ''INSERT INTO orders (id, order_number, user_id, customer_name, shipping_address, items, total, status) '' @
     ''VALUES ($1, $2, $3, $4, $5, $6, $7, 'pending') '' @
     ''RETURNING id, order_number, user_id, customer_name, shipping_address, items, total, status, created_at''"

definition save_order :: "(jval \<Rightarrow> string) \<Rightarrow> jnum \<Rightarrow> jval \<Rightarrow> item list \<Rightarrow> http shop_io" where
  "save_order stringify caller shippingAddress its =
     (let address = (if truthy shippingAddress \<and> is_objectlike shippingAddress then shippingAddress else JObj []) in
      next_do (await (SQuery sequence_sql [])) (\<lambda>sequence.
      next_do (of_sum (sbind (row_0 sequence) (\<lambda>row. dot row ''id''))) (\<lambda>v.
      let i = to_num v in
      next_do (await (SQuery insert_order_sql [JNum i, JStr (''SF-'' @ show_num i), JNum caller, JStr (customer_name address), JStr (address_line address),
          JStr (stringify (JArr (map item_json its))), JNum (order_total its)])) (\<lambda>inserted.
      next_do (of_sum (sbind (row_0 inserted) toOrder)) (\<lambda>order. ok (json_status 201 [(''order'', order)]))))))"

definition post_order :: "(jval \<Rightarrow> string) \<Rightarrow> (jnum \<Rightarrow> string \<Rightarrow> (jnum \<times> jval) option) \<Rightarrow> shop_request \<Rightarrow> http shop_io" where
  "post_order stringify who rq = requireCaller who rq (\<lambda>caller.
     let body = jor (sr_body rq) (JObj []) in
     case jget body ''items'' of
       JArr raws \<Rightarrow>
         if raws = [] \<or> 50 < length raws then ok (failure 400 ''An order needs 1 to 50 items'')
         else if list_ex (\<lambda>r. normalize_item r = None) raws then ok (failure 400 ''Each item needs a quantity between 1 and 99'')
         else or_500 ''Failed to place order''
           (next_do (look_up_prices (map (\<lambda>r. the (normalize_item r)) raws)) (save_order stringify caller (jget body ''shippingAddress'')))
     | _ \<Rightarrow> ok (failure 400 ''An order needs 1 to 50 items''))"

section \<open>Products\<close>

definition toCard :: "jval \<Rightarrow> jserr + jval" where
  "toCard row = sbind (dot row ''id'') (\<lambda>i. Inr (JObj [(''_id'', JStr (to_str i)), (''name'', jget row ''name''), (''description'', jget row ''description''),
     (''price'', JNum (to_num (jget row ''price''))),
     (''originalPrice'', if nullish (jget row ''original_price'') then JNull else JNum (to_num (jget row ''original_price''))),
     (''category'', jget row ''category''), (''images'', if truthy (jget row ''image'') then JArr [jget row ''image''] else JArr []),
     (''stock'', jget row ''stock''), (''rating'', JNum (to_num (jget row ''rating''))), (''numReviews'', jget row ''num_reviews''),
     (''isNewArrival'', jget row ''is_new_arrival'')]))"

definition selectProducts :: string where
  "selectProducts = ''SELECT id, name, description, price, original_price, category, image, stock, rating, num_reviews, is_new_arrival FROM products''"

definition list_products :: "string \<Rightarrow> string \<Rightarrow> jval list \<Rightarrow> http shop_io" where
  "list_products msg sql values' = or_500 msg
     (next_do (await (SQuery sql values')) (\<lambda>result.
      next_do (of_sum (sbind (rows_of result) (sum_map toCard))) (\<lambda>products.
      ok (json [(''products'', JArr products), (''total'', jint (int (length products)))]))))"

definition text_query :: "shop_request \<Rightarrow> string" where
  "text_query rq = (case jget (sr_query rq) ''q'' of JStr t \<Rightarrow> t | _ \<Rightarrow> [])"

text \<open>The one query of the application that is put together from the request.\<close>

definition search_products :: "shop_request \<Rightarrow> http shop_io" where
  "search_products rq = list_products ''Product search failed''
     (selectProducts @ '' WHERE name ILIKE '%'' @ text_query rq @ ''%' ORDER BY id'') []"

definition search_products_secure :: "shop_request \<Rightarrow> http shop_io" where
  "search_products_secure rq = list_products ''Product search failed''
     (selectProducts @ '' WHERE name ILIKE $1 ORDER BY id'') [JStr (''%'' @ text_query rq @ ''%'')]"

text \<open>The clauses number their parameters in the order they are pushed.\<close>

definition product_clauses :: "jval \<Rightarrow> jval \<Rightarrow> string list \<times> jval list" where
  "product_clauses category search =
     (let (cs, vs) = (if truthy category then ([''category = $1''], [category]) else ([], [])); d = ''$'' @ show_nat (Suc (length vs)) in
      if truthy search then (cs @ [''(name ILIKE '' @ d @ '' OR description ILIKE '' @ d @ '')''], vs @ [JStr (''%'' @ to_str search @ ''%'')]) else (cs, vs))"

definition get_products :: "shop_request \<Rightarrow> http shop_io" where
  "get_products rq = (case product_clauses (jget (sr_query rq) ''category'') (jget (sr_query rq) ''search'') of (cs, vs) \<Rightarrow>
     list_products ''Failed to list products''
       (selectProducts @ '' '' @ (if cs \<noteq> [] then ''WHERE '' @ join '' AND '' cs else []) @ '' ORDER BY id'') vs)"

definition get_product :: "shop_request \<Rightarrow> http shop_io" where
  "get_product rq = or_500 ''Failed to fetch product''
     (next_do (await (SQuery (selectProducts @ '' WHERE id = $1 LIMIT 1'') [JStr (sr_id rq)])) (\<lambda>result.
      next_do (of_sum (row_0 result)) (\<lambda>row.
      if \<not> truthy row then ok (failure 404 ''Product not found'')
      else next_do (of_sum (toCard row)) (\<lambda>card. ok (json [(''product'', card)])))))"

section \<open>Planted resources\<close>

definition planted :: "(string \<times> string) list" where
  "planted = [(''backup-demo'', ''Harmless planted backup marker for the enumeration demonstration.''),
     (''config-demo'', ''Harmless planted configuration marker; this is not application configuration.''),
     (''.env-demo'', ''Harmless planted environment-file marker; no environment values are exposed.'')]"

definition planted_resource :: "string \<Rightarrow> http option" where
  "planted_resource path = (case path of c # name \<Rightarrow>
       if c = CHR ''/'' then map_option (\<lambda>msg. json [(''demo'', JBool True), (''resource'', JStr name), (''message'', JStr msg)]) (dget planted name) else None
     | [] \<Rightarrow> None)"

text \<open>\<open>path.resolve(base, file)\<close> for an absolute \<open>base\<close>: empty segments and dots are dropped, two dots drop the
  segment before them.\<close>

fun resolve_segments :: "string list \<Rightarrow> string list \<Rightarrow> string list" where
  "resolve_segments done' [] = done'"
| "resolve_segments done' (w # ws) =
     (if w = [] \<or> w = ''.'' then resolve_segments done' ws
      else if w = ''..'' then resolve_segments (butlast done') ws
      else resolve_segments (done' @ [w]) ws)"

definition path_of :: "string list \<Rightarrow> string" where
  "path_of ws = ''/'' @ join ''/'' ws"

definition resolve_path :: "string \<Rightarrow> string \<Rightarrow> string" where
  "resolve_path base file = path_of (resolve_segments [] (split_on (CHR ''/'') (if starts_with ''/'' file then file else base @ ''/'' @ file)))"

definition demo_file :: "string \<Rightarrow> shop_request \<Rightarrow> http shop_io" where
  "demo_file base rq =
     (let file = (case jget (sr_query rq) ''file'' of JStr t \<Rightarrow> t | _ \<Rightarrow> ''public/public.txt''); resolved = resolve_path base file in
      if \<not> starts_with (base @ ''/'') resolved
      then ok (json_status 404 [(''demo'', JBool True), (''message'', JStr ''Requested demo file is outside the isolated demo directory.'')])
      else try_catch (next_do (await (ReadDemo resolved)) (\<lambda>content.
             ok (json [(''demo'', JBool True), (''file'', JStr file), (''content'', content)])))
           (\<lambda>e. ok (json_status 404 [(''demo'', JBool True), (''message'', JStr ''Demo file not found.'')])))"

section \<open>Tokens hold for an hour\<close>

lemma seconds_of: "0 \<le> t \<Longrightarrow> t \<le> 8640000000000000 \<Longrightarrow> nfloor (ndiv (nint t) (nint 1000)) = nint (t div 1000)"
proof -
  assume t: "0 \<le> t" "t \<le> 8640000000000000"
  let ?k = "t div 1000"
  have k: "0 \<le> ?k" "?k \<le> 8640000000000" using t by auto
  have lo: "nle (nint ?k) (fl (of_int t / 1000))"
  proof -
    have "?k * 1000 \<le> t" using t by simp
    then have "(of_int (?k * 1000) :: rat) \<le> of_int t" by (simp only: of_int_le_iff)
    then have "of_int ?k \<le> (of_int t / 1000 :: rat)" by (simp add: field_simps)
    from fl_mono [OF this] show ?thesis using fl_int [of ?k] k by simp
  qed
  let ?h = "of_int (1024 * ?k + 1023) / 2 ^ 10 :: rat"
  have hi: "nle (fl (of_int t / 1000)) (Fin ?h)"
  proof -
    have "t = 1000 * ?k + t mod 1000" "t mod 1000 \<le> 999" by simp_all
    moreover have "u = 1000 * k + m \<Longrightarrow> m \<le> 999 \<Longrightarrow> u * 1024 \<le> (1024 * k + 1023) * 1000" for u k m :: int by (simp add: algebra_simps)
    ultimately have "t * 1024 \<le> (1024 * ?k + 1023) * 1000" by blast
    then have "(of_int (t * 1024) :: rat) \<le> of_int ((1024 * ?k + 1023) * 1000)" by (simp only: of_int_le_iff)
    then have "of_int t / 1000 \<le> ?h" by (simp add: field_simps)
    from fl_mono [OF this] show ?thesis using fl_dyadic [of "1024 * ?k + 1023" 10] k by simp
  qed
  obtain x where x: "fl (of_int t / 1000) = Fin x" using lo hi by (cases "fl (of_int t / 1000 :: rat)") auto
  have "of_int ?k \<le> x" "x \<le> ?h" using lo hi x by simp_all
  moreover have "?h < of_int ?k + 1" by (simp add: field_simps)
  ultimately have "\<lfloor>x\<rfloor> = ?k" by linarith
  then show ?thesis using x by simp
qed

lemma issued_claims:
  assumes "0 \<le> t" "t \<le> 8640000000000000"
  shows "token_claims user (nint t) = JObj [(''sub'', JStr (to_str (jget user ''id''))), (''role'', jget user ''role''), (''iat'', jint (t div 1000)),
    (''exp'', jint (t div 1000 + 3600))]"
proof -
  have "\<bar>t div 1000 + 3600\<bar> < 2 ^ 53" using assms by auto
  then have "nadd (nint (t div 1000)) (nint 3600) = nint (t div 1000 + 3600)" by (rule nadd_int)
  then show ?thesis by (simp only: token_claims_def Let_def seconds_of [OF assms] TOKEN_LIFETIME_SECONDS_def) simp
qed

lemma verify_issued:
  assumes "list_all (\<lambda>v. decode (encode v) = Some v \<and> CHR ''.'' \<notin> set (encode v)) [token_header, token_claims user (nint t)]"
    and "CHR ''.'' \<notin> set (hmac key (encode token_header @ ''.'' @ encode (token_claims user (nint t))))"
    and "0 \<le> t" "t \<le> 8640000000000000"
  shows "verifyToken hmac decode (issueToken hmac encode user (nint t) key) (nint now) key' =
    (if hmac key' (encode token_header @ ''.'' @ encode (token_claims user (nint t))) = hmac key (encode token_header @ ''.'' @ encode (token_claims user (nint t)))
        \<and> now < (t div 1000 + 3600) * 1000
     then Some (token_claims user (nint t)) else None)"
proof -
  let ?h = "encode token_header" and ?c = "encode (token_claims user (nint t))"
  have split: "split_on (CHR ''.'') (?h @ ''.'' @ ?c @ ''.'' @ hmac key (?h @ ''.'' @ ?c)) = [?h, ?c, hmac key (?h @ ''.'' @ ?c)]"
    using assms(1,2) by (simp add: split_on_append split_on_single)
  have e: "jget (token_claims user (nint t)) ''exp'' = jint (t div 1000 + 3600)"
    unfolding issued_claims [OF assms(3,4)] by (simp add: jget_Cons)
  have x: "\<bar>(t div 1000 + 3600) * 1000\<bar> < 2 ^ 53" using assms(3,4) by auto
  have m: "nmul (nint (t div 1000 + 3600)) (nint 1000) = nint ((t div 1000 + 3600) * 1000)"
    using fl_int [OF x] by simp
  have "checked_claims decode ?h ?c (nint now) = (if now < (t div 1000 + 3600) * 1000 then Some (token_claims user (nint t)) else None)"
  proof -
    have alg: "\<not> nullish token_header" "jget token_header ''alg'' = JStr ''HS256''" by (simp_all add: token_header_def nullish_def jget_Cons)
    have ob: "\<not> nullish (token_claims user (nint t))" unfolding issued_claims [OF assms(3,4)] by (simp add: nullish_def)
    have i: "is_integer (jget (token_claims user (nint t)) ''exp'')" "to_num (jget (token_claims user (nint t)) ''exp'') = nint (t div 1000 + 3600)"
      unfolding e by (simp_all only: is_integer_def to_num_def jval.case nis_int_Fin)
    have c: "nle (nint ((t div 1000 + 3600) * 1000)) (nint now) \<longleftrightarrow> \<not> now < (t div 1000 + 3600) * 1000"
      by (simp only: nle.simps of_int_le_iff not_less)
    show ?thesis using assms(1) unfolding checked_claims_def by (simp only: list.pred_inject option.case prod.case alg ob i m c) simp
  qed
  then show ?thesis unfolding issueToken_def verifyToken_def Let_def append_assoc split list.case by simp
qed

text \<open>Property C38. A token is good for its hour and for its secret: verifying one that was issued at \<open>t\<close>
  gives exactly the claims it was issued with, as long as both sides agree on the signature and the
  second of issue lies less than 3600 seconds back, and nothing otherwise.\<close>

theorem token_roundtrip:
  assumes "list_all (\<lambda>v. decode (encode v) = Some v \<and> CHR ''.'' \<notin> set (encode v)) [token_header, token_claims user (nint t)]"
    and "CHR ''.'' \<notin> set (hmac key (encode token_header @ ''.'' @ encode (token_claims user (nint t))))"
    and "0 \<le> t" "t \<le> 8640000000000000"
  shows "verifyToken hmac decode (issueToken hmac encode user (nint t) key) (nint now) key' =
    (if hmac key' (encode token_header @ ''.'' @ encode (token_claims user (nint t))) = hmac key (encode token_header @ ''.'' @ encode (token_claims user (nint t)))
        \<and> now < (t div 1000 + 3600) * 1000
     then Some (token_claims user (nint t)) else None)"
  using assms by (rule verify_issued)

definition demo_user :: jval where
  "demo_user = JObj [(''id'', JStr ''7''), (''role'', JStr ''user'')]"

definition demo_encode :: "jval \<Rightarrow> string" where
  "demo_encode v = (if v = token_header then ''header'' else ''claims'')"

definition demo_decode_token :: "string \<Rightarrow> jval option" where
  "demo_decode_token t = Some (if t = ''header'' then token_header else token_claims demo_user (nint 1700000000123))"

text \<open>A minute later the token names its caller; an hour later, or under another secret, it is nothing.\<close>

theorem token_roundtrip_witness:
  "let token = issueToken (\<lambda>k m. k) demo_encode demo_user (nint 1700000000123) ''s''; verify = verifyToken (\<lambda>k m. k) demo_decode_token token in
     map_option (\<lambda>c. jget c ''sub'') (verify (nint 1700000060000) ''s'') = Some (JStr ''7'') \<and>
     verify (nint 1700003600000) ''s'' = None \<and> verify (nint 1700000060000) ''other'' = None"
proof -
  have c: "token_claims demo_user (nint 1700000000123) = JObj [(''sub'', JStr ''7''), (''role'', JStr ''user''), (''iat'', jint 1700000000), (''exp'', jint 1700003600)]"
    by (subst issued_claims) (simp_all add: demo_user_def jget_Cons)
  have h: "list_all (\<lambda>v. demo_decode_token (demo_encode v) = Some v \<and> CHR ''.'' \<notin> set (demo_encode v)) [token_header, token_claims demo_user (nint 1700000000123)]"
    unfolding demo_decode_token_def demo_encode_def c by (simp add: token_header_def)
  have "CHR ''.'' \<notin> set ''s''" by simp
  note r = token_roundtrip [of demo_decode_token demo_encode demo_user 1700000000123 "\<lambda>k m. k" "''s''", OF h this]
  have v: "verifyToken (\<lambda>k m. k) demo_decode_token (issueToken (\<lambda>k m. k) demo_encode demo_user (nint 1700000000123) ''s'') (nint n) k =
      (if k = ''s'' \<and> n < 1700003600000 then Some (token_claims demo_user (nint 1700000000123)) else None)" for n k
    by (subst r) simp_all
  show ?thesis unfolding Let_def v c by (simp add: jget_Cons)
qed

section \<open>Orders belong to their caller\<close>

text \<open>
  The caller a request has been verified for; what the database may be asked about orders then. Prices and
  the order number sequence are not about orders of anyone.
\<close>

definition order_allow :: "jnum option \<Rightarrow> shop \<Rightarrow> bool" where
  "order_allow caller c = (case c of ShopNow \<Rightarrow> True | ReadDemo p \<Rightarrow> False
     | SQuery sql vs \<Rightarrow> (case caller of None \<Rightarrow> False | Some u \<Rightarrow>
         sql = own_orders_sql \<and> vs = [JNum u] \<or> sql = own_order_sql \<and> length vs = 2 \<and> vs ! 1 = JNum u \<or>
         sql = insert_order_sql \<and> length vs = 7 \<and> vs ! 2 = JNum u \<or> sql = prices_sql \<or> sql = sequence_sql))"

fun order_step :: "(jnum \<Rightarrow> string \<Rightarrow> (jnum \<times> jval) option) \<Rightarrow> string \<Rightarrow> jnum option \<Rightarrow> shop \<Rightarrow> reply \<Rightarrow> jnum option" where
  "order_step who auth caller ShopNow (Inr now) = map_option fst (who (to_num now) auth)"
| "order_step who auth caller c r = caller"

abbreviation of_caller :: "(jnum \<Rightarrow> string \<Rightarrow> (jnum \<times> jval) option) \<Rightarrow> string \<Rightarrow> 'a shop_io \<Rightarrow> jnum option \<Rightarrow> bool" where
  "of_caller who auth p u \<equiv> follows order_allow (\<lambda>s c r. True) (order_step who auth) p (\<lambda>u' x. True) u"

definition about_caller :: "jnum \<Rightarrow> shop \<Rightarrow> bool" where
  "about_caller u c \<longleftrightarrow> order_allow (Some u) c \<and> c \<noteq> ShopNow"

lemma asks_of_caller: "asks (about_caller u) p \<Longrightarrow> of_caller who auth p (Some u)"
proof (rule follows_unaffected [OF _ rets_True])
  have "about_caller u c \<Longrightarrow> order_allow (Some u) c \<and> (\<forall>r. order_step who auth (Some u) c r = Some u)" for c
    by (cases c) (auto simp: about_caller_def)
  then show "asks (about_caller u) p \<Longrightarrow> asks (\<lambda>c. order_allow (Some u) c \<and> (\<forall>r. order_step who auth (Some u) c r = Some u)) p"
    by (elim asks_mono)
qed simp

lemma requireCaller_follows: "(\<And>u. asks (about_caller u) (f u)) \<Longrightarrow> of_caller who (sr_auth rq) (requireCaller who rq f) None"
  by (auto simp: requireCaller_def follows_simps order_allow_def asks_of_caller split: option.split sum.split)

lemma asks_or_500: "asks P p \<Longrightarrow> asks P (or_500 m p)"
  unfolding or_500_def by (rule asks_try_catch) simp_all

lemma asks_list: "asks (about_caller u) (next_do (await (SQuery own_orders_sql [JNum u])) (\<lambda>result.
      next_do (of_sum (f result)) (\<lambda>orders. ok (g orders))))"
  by (intro asks_next_do) (simp_all add: about_caller_def order_allow_def)

lemma asks_save: "asks (about_caller u) (save_order stringify u address its)"
  unfolding save_order_def Let_def by (intro asks_next_do) (simp_all add: about_caller_def order_allow_def)

lemma asks_prices: "asks (about_caller u) (look_up_prices its)"
  unfolding look_up_prices_def by (auto intro!: asks_next_do simp: about_caller_def order_allow_def)

text \<open>Property C36. No order is read or written for a request whose token does not verify; listing, the
  secure route and checkout then ask for orders of the verified caller only, and store new ones under
  that caller's id, whatever the request says.\<close>

theorem orders_are_the_callers:
  "list_all (\<lambda>route. obeys order_allow (order_step who (sr_auth rq)) None (fst (run route rs)))
     [list_orders who rq, get_order_secure who rq, post_order stringify who rq]"
proof -
  have l: "of_caller who (sr_auth rq) (list_orders who rq) None"
    unfolding list_orders_def by (intro requireCaller_follows asks_or_500 asks_list)
  have "asks (about_caller u) (case orderId (sr_id rq) of None \<Rightarrow> ok x | Some i \<Rightarrow> if i = 0 then ok x
      else or_500 m (next_do (await (SQuery own_order_sql [jint (int i), JNum u])) (\<lambda>result. next_do (of_sum (row_0 result)) (\<lambda>row.
        if \<not> truthy row then ok x else next_do (of_sum (toOrder row)) (\<lambda>order. ok (json [(''order'', order)]))))))" for u x m
    by (auto intro!: asks_or_500 asks_next_do simp: about_caller_def order_allow_def split: option.split)
  then have g: "of_caller who (sr_auth rq) (get_order_secure who rq) None"
    unfolding get_order_secure_def one_order_def by (intro requireCaller_follows)
  have "of_caller who (sr_auth rq) (post_order stringify who rq) None"
    unfolding post_order_def Let_def
    by (rule requireCaller_follows) (auto intro!: asks_or_500 asks_next_do asks_prices asks_save split: jval.split)
  then show ?thesis using l g follows_obeys by fastforce
qed

text \<open>The vulnerable route asks for an order by its number alone.\<close>

lemma any_order_by_number:
  "who (to_num now) (sr_auth rq) = Some (u, r) \<Longrightarrow> orderId (sr_id rq) = Some (Suc i) \<Longrightarrow>
     calls (get_order who rq) [Inr now] = [ShopNow, SQuery any_order_sql [jint (int (Suc i))]]"
  by (simp add: get_order_def one_order_def requireCaller_def or_500_def io_unfold)

text \<open>A product id with leading zeros finds the row of the product, but not in the map by id: the item keeps
  the price the client sent.\<close>

definition padded_item :: item where
  "padded_item = \<lparr>it_product = Some ''07'', it_name = JStr ''Item'', it_price = Fin 1, it_quantity = Fin 1, it_image = None\<rparr>"

lemma padded_id_keeps_price:
  "normalize_item (JObj [(''productId'', JStr ''07''), (''price'', JNum (Fin 1)), (''quantity'', JNum (Fin 1))]) = Some padded_item"
  "numeric_ids [padded_item] = [str_to_num ''07'']"
  "priced [(''7'', JObj [(''name'', JStr ''Desk''), (''price'', JStr ''899'')])] padded_item = padded_item"
  by (code_simp, simp add: numeric_ids_def padded_item_def is_digit_def digits_cs_def, code_simp)

section \<open>Demo files stay where they are\<close>

definition clean :: "string list \<Rightarrow> bool" where
  "clean = list_all (\<lambda>w. w \<noteq> [] \<and> w \<noteq> ''.'' \<and> w \<noteq> ''..'' \<and> CHR ''/'' \<notin> set w)"

lemma resolve_clean: "clean ds \<Longrightarrow> \<forall>w \<in> set ws. CHR ''/'' \<notin> set w \<Longrightarrow> clean (resolve_segments ds ws)"
proof (induction ds ws rule: resolve_segments.induct)
  case (2 ds w ws)
  have b: "clean (butlast ds)" using 2(4) by (auto simp: clean_def list_all_iff dest: in_set_butlastD)
  have a: "clean (ds @ [w])" if "w \<noteq> []" "w \<noteq> ''.''" "w \<noteq> ''..''" using that 2(4,5) by (simp add: clean_def)
  show ?case
  proof (cases "w = [] \<or> w = ''.''")
    case True
    then show ?thesis using 2(1) 2(4,5) by (simp only: resolve_segments.simps if_True) simp
  next
    case False
    then show ?thesis using 2(2) [OF False _ b] 2(3) [OF False _ a] 2(5) by (simp only: resolve_segments.simps if_False) (cases "w = ''..''", simp_all)
  qed
qed simp

lemma split_path: "clean ws \<Longrightarrow> ws \<noteq> [] \<Longrightarrow> split_on (CHR ''/'') (path_of ws) = [] # ws"
  by (simp add: path_of_def split_on_join clean_def list_all_iff)

lemma split_after_join: "bs \<noteq> [] \<Longrightarrow> \<forall>w \<in> set bs. c \<notin> set w \<Longrightarrow> split_on c (join [c] bs @ c # r) = bs @ split_on c r"
proof (induction bs)
  case (Cons b bs)
  then show ?case by (cases bs) (simp_all add: split_on_append)
qed simp

lemma below_base:
  assumes "clean bs" "bs \<noteq> []" "clean ws" "starts_with (path_of bs @ ''/'') (path_of ws)"
  shows "\<exists>us. ws = bs @ us \<and> us \<noteq> [] \<and> clean us"
proof -
  obtain r where r: "path_of ws = path_of bs @ ''/'' @ r" using assms(4) by (auto simp: starts_with_def prefix_def)
  have "ws \<noteq> []" using r assms(2) by (auto simp: path_of_def)
  then have "[] # ws = split_on (CHR ''/'') (path_of bs @ CHR ''/'' # r)" using split_path [OF assms(3)] r by simp
  also have "\<dots> = [] # bs @ split_on (CHR ''/'') r"
    using split_after_join [of bs "CHR ''/''" r] assms(1,2) by (simp add: path_of_def clean_def list_all_iff)
  finally show ?thesis using assms(3) by (auto simp: clean_def)
qed

definition demo_read :: "string list \<Rightarrow> shop \<Rightarrow> bool" where
  "demo_read bs c \<longleftrightarrow> (case c of ReadDemo p \<Rightarrow> (case split_on (CHR ''/'') p of w # ws \<Rightarrow> w = [] \<and> take (length bs) ws = bs \<and> length bs < length ws \<and> clean ws | [] \<Rightarrow> False)
     | _ \<Rightarrow> False)"

text \<open>Property C37. Whatever the query names - dots, absolute paths, repeated slashes - the demo route reads at most
  one file, and its path consists of the demo directory and then of plain names: the traversal that is
  allowed on purpose never leaves the directory.\<close>

theorem demo_files_confined:
  assumes "clean bs" "bs \<noteq> []"
  shows "list_all (demo_read bs) (calls (demo_file (path_of bs) rq) rs) \<and> length (calls (demo_file (path_of bs) rq) rs) \<le> 1"
proof -
  have read: "demo_read bs (ReadDemo (resolve_path (path_of bs) f))" if st: "starts_with (path_of bs @ ''/'') (resolve_path (path_of bs) f)" for f
  proof -
    have "clean (resolve_segments [] (split_on (CHR ''/'') t))" for t
      by (rule resolve_clean) (auto simp: clean_def dest: split_on_no_sep)
    then obtain ws where ws: "clean ws" "resolve_path (path_of bs) f = path_of ws" unfolding resolve_path_def by blast
    obtain us where us: "ws = bs @ us" "us \<noteq> []" using below_base [OF assms ws(1)] st ws(2) by auto
    have "split_on (CHR ''/'') (path_of ws) = [] # ws" using ws(1) us by (intro split_path) auto
    then show ?thesis using ws us by (simp add: demo_read_def)
  qed
  show ?thesis
    unfolding demo_file_def Let_def
    by (cases rs) (auto simp: io_unfold read split: sum.split)
qed

definition file_request :: "string \<Rightarrow> shop_request" where
  "file_request f = \<lparr>sr_auth = [], sr_id = [], sr_query = JObj [(''file'', JStr f)], sr_body = JUndef\<rparr>"

theorem demo_files_confined_witness:
  "list_all (demo_read [''app'', ''demo-files'']) (calls (demo_file ''/app/demo-files'' (file_request ''public/../fake-secret.txt'')) []) \<and>
   calls (demo_file ''/app/demo-files'' (file_request ''public/../fake-secret.txt'')) [] = [ReadDemo ''/app/demo-files/fake-secret.txt''] \<and>
   calls (demo_file ''/app/demo-files'' (file_request ''../../etc/passwd'')) [] = []"
proof -
  have "clean [''app'', ''demo-files'']" "path_of [''app'', ''demo-files''] = ''/app/demo-files''" by (code_simp, code_simp)
  then have "list_all (demo_read [''app'', ''demo-files'']) (calls (demo_file ''/app/demo-files'' (file_request ''public/../fake-secret.txt'')) [])"
    using demo_files_confined [of "[''app'', ''demo-files'']" "file_request ''public/../fake-secret.txt''" "[]"] by simp
  moreover have "calls (demo_file ''/app/demo-files'' (file_request ''public/../fake-secret.txt'')) [] = [ReadDemo ''/app/demo-files/fake-secret.txt'']"
    by code_simp
  moreover have "calls (demo_file ''/app/demo-files'' (file_request ''../../etc/passwd'')) [] = []" by code_simp
  ultimately show ?thesis by blast
qed

end
