(* ===== verification/ShopData.thy ===== *)
theory ShopData
  imports ShopBackend
begin

text \<open>
  What the demo shop starts with: the settings file, the pool, the seeded tables (\<open>backend/db.js\<close>,
  \<open>backend/data\<close>), the request log and the table of routes (\<open>backend/server.js\<close>). Paths are given as
  their segments, after Express has decoded them; an unknown path is left to Express. A decimal literal
  \<open>dec n k\<close> is the double nearest to \<open>n / 10 ^ k\<close>.
\<close>

section \<open>Settings\<close>

text \<open>\<open>replace(/^['"]|['"]$/g, '')\<close>: one quote at either end goes.\<close>

definition unquote :: "string \<Rightarrow> string" where
  "unquote t = (let q = (\<lambda>c. c = CHR 0x22 \<or> c = CHR 0x27); u = (case t of c # r \<Rightarrow> if q c then r else t | [] \<Rightarrow> [])
     in if u \<noteq> [] \<and> q (last u) then butlast u else u)"

definition env_line :: "string \<Rightarrow> (string \<times> string) option" where
  "env_line l = (let t = trim l in
     if t = [] \<or> starts_with ''#'' t \<or> CHR ''='' \<notin> set t then None
     else Some (trim (takeWhile (\<lambda>c. c \<noteq> CHR ''='') t), unquote (trim (drop 1 (dropWhile (\<lambda>c. c \<noteq> CHR ''='') t)))))"

definition set_unless :: "env \<Rightarrow> string \<times> string \<Rightarrow> env" where
  "set_unless env kv = (if env_or env (fst kv) [] = [] then env(fst kv \<mapsto> snd kv) else env)"

text \<open>\<open>env_file\<close> is the text of \<open>.env\<close> when there is one. A carriage return at the end of a line is trimmed away.\<close>

definition loadLocalEnvFile :: "string option \<Rightarrow> env \<Rightarrow> env" where
  "loadLocalEnvFile env_file env = (if env_or env ''PGHOST'' [] \<noteq> [] \<or> env_or env ''DB_HOST'' [] \<noteq> [] then env
     else case env_file of None \<Rightarrow> env
       | Some t \<Rightarrow> fold (\<lambda>l e. case env_line l of None \<Rightarrow> e | Some kv \<Rightarrow> set_unless e kv) (split_on (char_of (10::nat)) t) env)"

record pool_config =
  pc_host :: string
  pc_port :: jnum
  pc_user :: string
  pc_password :: string
  pc_database :: string

definition pool_config :: "env \<Rightarrow> pool_config" where
  "pool_config env = (let v = (\<lambda>a b d. env_or env a (env_or env b d)) in
     \<lparr>pc_host = v ''PGHOST'' ''DB_HOST'' ''localhost'', pc_port = str_to_num (v ''PGPORT'' ''DB_PORT'' ''5432''),
      pc_user = v ''PGUSER'' ''DB_USER'' ''postgres'', pc_password = v ''PGPASSWORD'' ''DB_PASSWORD'' [],
      pc_database = v ''PGDATABASE'' ''DB_NAME'' ''postgres''\<rparr>)"

section \<open>Seeds\<close>

definition dec :: "int \<Rightarrow> nat \<Rightarrow> jnum" where
  "dec n k = fl (of_int n / 10 ^ k)"

record product =
  pr_name :: string
  pr_description :: string
  pr_price :: jnum
  pr_original :: jnum
  pr_category :: string
  pr_image :: string
  pr_stock :: int
  pr_rating :: jnum
  pr_reviews :: int
  pr_new :: bool

definition product :: "string \<Rightarrow> string \<Rightarrow> jnum \<Rightarrow> jnum \<Rightarrow> string \<Rightarrow> string \<Rightarrow> int \<Rightarrow> jnum \<Rightarrow> int \<Rightarrow> bool \<Rightarrow> product" where
  "product n d p o' c i s r v b = \<lparr>pr_name = n, pr_description = d, pr_price = p, pr_original = o', pr_category = c, pr_image = i,
     pr_stock = s, pr_rating = r, pr_reviews = v, pr_new = b\<rparr>"

definition PRODUCTS :: "product list" where
  "PRODUCTS = [
     product ''Wireless Noise-Cancelling Headphones'' ''Premium over-ear headphones with active noise cancellation and 30-hour battery life.''
       (dec 8999 2) (dec 12999 2) ''Electronics'' ''https://images.unsplash.com/photo-1505740420928-5e560c06d30e?w=700'' 45 (dec 43 1) 128 False,
     product ''Classic Cotton Crew Neck Tee'' ''Soft, breathable 100% cotton t-shirt with a relaxed fit. A wardrobe staple.''
       (dec 2499 2) (dec 3499 2) ''Clothing'' ''https://images.unsplash.com/photo-1521572163474-6864f9cf17ab?w=700'' 210 (dec 46 1) 342 True,
     product ''Stainless Steel Water Bottle'' ''Double-walled vacuum insulation keeps drinks cold for 24 hours or hot for 12.''
       (dec 1999 2) (dec 2999 2) ''Home'' ''https://images.unsplash.com/photo-1602143407151-7111542de6e8?w=700'' 178 (dec 47 1) 256 False,
     product ''Mechanical Keyboard - RGB Backlit'' ''Tactile mechanical switches, per-key RGB, and a detachable USB-C cable.''
       (dec 7499 2) (dec 9999 2) ''Electronics'' ''https://images.unsplash.com/photo-1587829741301-dc798b83add3?w=700'' 62 (dec 45 1) 189 True,
     product ''Leather Weekender Bag'' ''Full-grain leather travel bag with a spacious main compartment and shoulder strap.''
       (dec 14999 2) (dec 19999 2) ''Accessories'' ''https://images.unsplash.com/photo-1553062407-98eeb64c6a62?w=700'' 34 (dec 48 1) 97 False,
     product ''Ceramic Pour-Over Coffee Set'' ''Hand-glazed ceramic dripper and carafe for a clean, bright cup of coffee.''
       (dec 3999 2) (dec 5499 2) ''Home'' ''https://images.unsplash.com/photo-1495474472287-4d71bcdd2085?w=700'' 88 (dec 44 1) 143 True,
     product ''Running Shoes - Lightweight'' ''Breathable mesh upper with responsive foam cushioning for everyday runs.''
       (dec 6499 2) (dec 8999 2) ''Footwear'' ''https://images.unsplash.com/photo-1542291026-7eec264c27ff?w=700'' 120 (dec 42 1) 311 False,
     product ''Smart Fitness Watch'' ''Heart-rate tracking, GPS, and a 7-day battery in a slim aluminium case.''
       (dec 12999 2) (dec 17999 2) ''Electronics'' ''https://images.unsplash.com/photo-1523275335684-37898b6baf30?w=700'' 54 (dec 45 1) 402 True,
     product ''Organic Scented Candle'' ''Soy wax candle with essential-oil fragrance and a 50-hour burn time.''
       (dec 1699 2) (dec 2299 2) ''Home'' ''https://images.unsplash.com/photo-1602874801007-bd458bb1b8b6?w=700'' 240 (dec 46 1) 178 False,
     product ''Denim Trucker Jacket'' ''Classic mid-wash denim jacket with a tailored fit and durable stitching.''
       (dec 7999 2) (dec 10999 2) ''Clothing'' ''https://images.unsplash.com/photo-1543076447-215ad9ba6923?w=700'' 76 (dec 44 1) 134 True,
     product ''Wireless Charging Pad'' ''Fast 15W Qi charging with a non-slip surface and status LED.''
       (dec 2999 2) (dec 4499 2) ''Electronics'' ''https://images.unsplash.com/photo-1591290619762-b0c9c1f6f5f4?w=700'' 143 (dec 41 1) 88 False,
     product ''Polarized Aviator Sunglasses'' ''UV400 polarized lenses in a lightweight metal frame with spring hinges.''
       (dec 3499 2) (dec 4999 2) ''Accessories'' ''https://images.unsplash.com/photo-1511499767150-a48a237f0083?w=700'' 165 (dec 43 1) 220 True]"

definition seedUsers :: "(string \<times> string \<times> string \<times> string) list" where
  "seedUsers = [(''admin@shopforge.com'', ''admin123'', ''administrator'', ''ShopForge Returns Desk''),
     (''jane@example.com'', ''user123'', ''user'', ''Jane Cooper''), (''admin'', ''adminPassword123'', ''administrator'', ''Priya Nair''),
     (''user1'', ''password1'', ''user'', ''Arjun Mehta''), (''john_doe'', ''doePassword'', ''user'', ''John Doe'')]"

text \<open>E-mail, name and address.\<close>

definition CUSTOMERS :: "(string \<times> string \<times> string) list" where
  "CUSTOMERS = [(''jane@example.com'', ''Jane Cooper'', ''12 Harbour Lane, Portsmouth PO1 3AB''),
     (''user1'', ''Arjun Mehta'', ''48 MG Road, Bengaluru 560001''), (''john_doe'', ''John Doe'', ''221 Elm Street, Springfield IL 62701''),
     (''admin@shopforge.com'', ''ShopForge Returns Desk'', ''1 Commerce Way, Leeds LS1 4AP''),
     (''admin'', ''Priya Nair'', ''9 Lake View Apartments, Kochi 682011'')]"

definition ITEMS :: "(string \<times> jnum) list" where
  "ITEMS = [(''Mechanical Keyboard - RGB Backlit'', dec 8999 2), (''Wireless Charging Pad'', dec 245 1), (''Ceramic Pour-Over Coffee Set'', nint 42),
     (''Noise-Cancelling Headphones'', nint 149), (''Standing Desk Mat'', dec 3525 2)]"

definition STATUSES :: "string list" where
  "STATUSES = [''delivered'', ''shipped'', ''processing'', ''delivered'', ''cancelled'']"

record seed_order =
  so_number :: string
  so_email :: string
  so_name :: string
  so_address :: string
  so_items :: "(string \<times> int \<times> jnum) list"
  so_total :: jnum
  so_status :: string

definition seed_order :: "nat \<Rightarrow> seed_order" where
  "seed_order i = (let (email, name, address) = CUSTOMERS ! (i mod length CUSTOMERS); item1 = ITEMS ! (i mod length ITEMS);
       item2 = ITEMS ! ((i * 3 + 1) mod length ITEMS);
       its = (fst item1, 1, snd item1) # (if i mod 2 = 0 then [(fst item2, 2, snd item2)] else []);
       total = fold (\<lambda>(n, q, p) s. nadd s (nmul (nint q) p)) its (nint 0)
     in \<lparr>so_number = ''SF-'' @ show_nat (1001 + i), so_email = email, so_name = name, so_address = address, so_items = its,
         so_total = cents total, so_status = STATUSES ! (i mod length STATUSES)\<rparr>)"

definition ORDERS :: "seed_order list" where
  "ORDERS = map seed_order [0..<40]"

section \<open>Preparing the database\<close>

definition users_table :: string where
  "users_table = ''CREATE TABLE IF NOT EXISTS users ( id SERIAL PRIMARY KEY, email TEXT UNIQUE NOT NULL, password TEXT NOT NULL, '' @
     ''role TEXT NOT NULL, name TEXT )''"

definition add_name :: string where "add_name = ''ALTER TABLE users ADD COLUMN IF NOT EXISTS name TEXT''"

definition insert_user :: string where
  "insert_user = ''INSERT INTO users (email, password, role, name) VALUES ($1, $2, $3, $4) '' @
     ''ON CONFLICT (email) DO UPDATE SET name = $4 WHERE users.name IS NULL''"

definition empty_text :: string where "empty_text = [CHR 0x27, CHR 0x27]"

definition products_table :: string where
  "products_table = ''CREATE TABLE IF NOT EXISTS products ( id SERIAL PRIMARY KEY, name TEXT UNIQUE NOT NULL, '' @
     ''description TEXT NOT NULL DEFAULT '' @ empty_text @ '', price NUMERIC(10,2) NOT NULL, original_price NUMERIC(10,2), category TEXT NOT NULL DEFAULT '' @
     empty_text @ '', image TEXT NOT NULL DEFAULT '' @ empty_text @ '', stock INTEGER NOT NULL DEFAULT 0, rating NUMERIC(2,1) NOT NULL DEFAULT 0, '' @
     ''num_reviews INTEGER NOT NULL DEFAULT 0, is_new_arrival BOOLEAN NOT NULL DEFAULT FALSE )''"

definition insert_product :: string where
  "insert_product = ''INSERT INTO products (name, description, price, original_price, category, image, stock, rating, num_reviews, is_new_arrival) '' @
     ''VALUES ($1, $2, $3, $4, $5, $6, $7, $8, $9, $10) ON CONFLICT (name) DO NOTHING''"

definition orders_table :: string where
  "orders_table = ''CREATE TABLE IF NOT EXISTS orders ( id SERIAL PRIMARY KEY, order_number TEXT UNIQUE NOT NULL, '' @
     ''user_id INTEGER NOT NULL REFERENCES users(id), customer_name TEXT NOT NULL, shipping_address TEXT NOT NULL, items JSONB NOT NULL, '' @
     ''total NUMERIC(10,2) NOT NULL, status TEXT NOT NULL, created_at TIMESTAMPTZ NOT NULL DEFAULT NOW() )''"

definition insert_seed_order :: string where
  "insert_seed_order = ''INSERT INTO orders (order_number, user_id, customer_name, shipping_address, items, total, status) '' @
     ''SELECT $1, id, $2, $3, $4, $5, $6 FROM users WHERE email = $7 ON CONFLICT (order_number) DO NOTHING''"

definition seed_item :: "string \<times> int \<times> jnum \<Rightarrow> jval" where
  "seed_item it = (case it of (n, q, p) \<Rightarrow> JObj [(''name'', JStr n), (''quantity'', jint q), (''price'', JNum p)])"

definition user_row :: "string \<times> string \<times> string \<times> string \<Rightarrow> jval list" where
  "user_row u = (case u of (e, p, r, n) \<Rightarrow> [JStr e, JStr p, JStr r, JStr n])"

definition product_row :: "product \<Rightarrow> jval list" where
  "product_row p = [JStr (pr_name p), JStr (pr_description p), JNum (pr_price p), JNum (pr_original p), JStr (pr_category p), JStr (pr_image p),
     jint (pr_stock p), JNum (pr_rating p), jint (pr_reviews p), JBool (pr_new p)]"

definition order_row :: "(jval \<Rightarrow> string) \<Rightarrow> seed_order \<Rightarrow> jval list" where
  "order_row stringify o' = [JStr (so_number o'), JStr (so_name o'), JStr (so_address o'), JStr (stringify (JArr (map seed_item (so_items o')))),
     JNum (so_total o'), JStr (so_status o'), JStr (so_email o')]"

definition init_queries :: "(jval \<Rightarrow> string) \<Rightarrow> (string \<times> jval list) list" where
  "init_queries stringify = [(users_table, []), (add_name, [])] @ map (\<lambda>u. (insert_user, user_row u)) seedUsers @
     [(products_table, [])] @ map (\<lambda>p. (insert_product, product_row p)) PRODUCTS @
     [(orders_table, [])] @ map (\<lambda>o'. (insert_seed_order, order_row stringify o')) ORDERS"

definition initDb :: "(jval \<Rightarrow> string) \<Rightarrow> unit shop_io" where
  "initDb stringify = discard (each (\<lambda>(sql, vs). await (SQuery sql vs)) (init_queries stringify))"

text \<open>Whether the server listens; otherwise the process has exited with status 1.\<close>

definition start_server :: "(jval \<Rightarrow> string) \<Rightarrow> bool shop_io" where
  "start_server stringify = try_catch (next_do (initDb stringify) (\<lambda>_. ok True)) (\<lambda>e. ok False)"

section \<open>Requests\<close>

text \<open>The lines \<open>logger\<close> prints; \<open>pretty\<close> is \<open>JSON.stringify(v, null, 2)\<close>.\<close>

definition logger :: "(jval \<Rightarrow> string) \<Rightarrow> string \<Rightarrow> string \<Rightarrow> string \<Rightarrow> string \<Rightarrow> jval \<Rightarrow> jval \<Rightarrow> string list" where
  "logger pretty timestamp method url ip headers body =
     [''['' @ timestamp @ ''] '' @ method @ '' '' @ url @ '' from '' @ ip, ''Headers: '' @ pretty headers,
      (if truthy body \<and> obj_keys body \<noteq> [] then ''Body: '' @ pretty body else ''Body: <empty>''), ''-------------------------------------------'']"

record app =
  ap_hmac :: "string \<Rightarrow> string \<Rightarrow> string"
  ap_encode :: "jval \<Rightarrow> string"
  ap_decode :: "string \<Rightarrow> jval option"
  ap_stringify :: "jval \<Rightarrow> string"
  ap_env :: env
  ap_files :: string

definition caller_of :: "app \<Rightarrow> jnum \<Rightarrow> string \<Rightarrow> (jnum \<times> jval) option" where
  "caller_of ap = callerFrom (ap_hmac ap) (ap_decode ap) (ap_env ap)"

text \<open>The routes in the order they are registered: \<open>/products/search\<close> comes before \<open>/products/:id\<close>.\<close>

definition dispatch :: "app \<Rightarrow> string \<Rightarrow> string list \<Rightarrow> shop_request \<Rightarrow> http shop_io option" where
  "dispatch ap method path rq = (let with_id = rq\<lparr>sr_id := last path\<rparr>; who = caller_of ap in
     if method = ''POST'' then
       (if path = [''api'', ''login''] then Some (login (ap_hmac ap) (ap_encode ap) (ap_env ap) rq)
        else if path = [''api'', ''orders''] then Some (post_order (ap_stringify ap) who rq)
        else None)
     else if method = ''GET'' then
       (if path = [''api'', ''health''] then Some (ok (json [(''status'', JStr ''up''), (''message'', JStr ''Vulnerable backend is running'')]))
        else if path = [''api'', ''products'', ''search''] then Some (search_products rq)
        else if path = [''api'', ''products'', ''search-secure''] then Some (search_products_secure rq)
        else if path = [''api'', ''products''] then Some (get_products rq)
        else if length path = 3 \<and> take 2 path = [''api'', ''products''] then Some (get_product with_id)
        else if path = [''api'', ''orders''] then Some (list_orders who rq)
        else if length path = 3 \<and> take 2 path = [''api'', ''orders''] then Some (get_order who with_id)
        else if length path = 3 \<and> take 2 path = [''api'', ''orders-secure''] then Some (get_order_secure who with_id)
        else if path = [''api'', ''demo-files''] then Some (demo_file (ap_files ap) rq)
        else map_option ok (planted_resource (''/'' @ join ''/'' path)))
     else None)"

section \<open>Facts about the seeds and the routes\<close>

text \<open>Every customer of the seeded orders is a seeded user, the owners alternate, and no order number is used twice.\<close>

lemma seeded_owners: "list_all (\<lambda>c. fst c \<in> set (map fst seedUsers)) CUSTOMERS"
  by code_simp

lemma seed_order_owner: "so_email (seed_order i) = fst (CUSTOMERS ! (i mod 5))"
  by (simp add: seed_order_def Let_def case_prod_unfold CUSTOMERS_def)

lemma order_numbers_distinct: "distinct (map so_number ORDERS)"
proof -
  have "so_number (seed_order i) = ''SF-'' @ show_nat (1001 + i)" for i by (simp add: seed_order_def Let_def case_prod_unfold)
  moreover have "show_nat (1001 + x) = show_nat (1001 + y) \<Longrightarrow> x = y" for x y by (metis parse_show_nat add_left_cancel)
  ultimately show ?thesis unfolding ORDERS_def map_map distinct_map by (auto intro!: inj_onI)
qed

text \<open>Preparing the database sends exactly its queries, in order, and the server listens when all succeed.\<close>

lemma leftover_bnd:
  "leftover (bnd p f) rs = (case answer p rs of None \<Rightarrow> [] | Some a \<Rightarrow> leftover (f a) (leftover p rs))"
  by (induction p rs rule: run.induct) (auto split: option.splits)

lemma each_runs: "length rs = length xs \<Longrightarrow> calls (each (\<lambda>(sql, vs). await (SQuery sql vs)) xs) (map Inr rs) = map (\<lambda>(sql, vs). SQuery sql vs) xs \<and>
    answer (each (\<lambda>(sql, vs). await (SQuery sql vs)) xs) (map Inr rs) = Some (Inr rs) \<and> leftover (each (\<lambda>(sql, vs). await (SQuery sql vs)) xs) (map Inr rs) = []"
proof (induction xs arbitrary: rs)
  case (Cons x xs)
  then obtain r rs' where rs: "rs = r # rs'" by (cases rs) auto
  then show ?case using Cons by (cases x) (simp add: next_do_def await_def ok_def calls_bnd answer_bnd leftover_bnd)
qed (simp add: ok_def)

lemma start_listens:
  assumes "length rs = length (init_queries stringify)"
  shows "calls (start_server stringify) (map Inr rs) = map (\<lambda>(sql, vs). SQuery sql vs) (init_queries stringify) \<and>
    answer (start_server stringify) (map Inr rs) = Some (Inr True)"
  using each_runs [OF assms]
  by (simp add: start_server_def initDb_def discard_def try_catch_def next_do_def ok_def calls_bnd answer_bnd)

text \<open>The texts of the queries that do not depend on the request.\<close>

definition fixed_texts :: "string list" where
  "fixed_texts = [login_sql, own_orders_sql, any_order_sql, own_order_sql, prices_sql, sequence_sql, insert_order_sql,
     selectProducts @ '' WHERE name ILIKE $1 ORDER BY id'', selectProducts @ '' WHERE id = $1 LIMIT 1''] @
     map (\<lambda>cs. selectProducts @ '' '' @ cs @ '' ORDER BY id'')
       [[], ''WHERE category = $1'', ''WHERE (name ILIKE $1 OR description ILIKE $1)'', ''WHERE category = $1 AND (name ILIKE $2 OR description ILIKE $2)'']"

definition fixed_text :: "shop \<Rightarrow> bool" where
  "fixed_text c \<longleftrightarrow> (case c of SQuery sql vs \<Rightarrow> sql \<in> set fixed_texts | _ \<Rightarrow> True)"

lemma fixed_simps [simp]: "fixed_text ShopNow" "fixed_text (ReadDemo p)" "fixed_text (SQuery sql vs) = (sql \<in> set fixed_texts)"
  by (simp_all add: fixed_text_def)

lemma asks_require: "(\<And>u. asks fixed_text (f u)) \<Longrightarrow> asks fixed_text (requireCaller who rq f)"
  unfolding requireCaller_def by (intro asks_next_do) (auto split: option.split)

lemma asks_products: "sql \<in> set fixed_texts \<Longrightarrow> asks fixed_text (list_products msg sql vs)"
  unfolding list_products_def by (intro asks_or_500 asks_next_do) simp_all

lemma order_texts: "{login_sql, own_orders_sql, any_order_sql, own_order_sql, prices_sql, sequence_sql, insert_order_sql} \<subseteq> set fixed_texts"
  by (simp only: fixed_texts_def set_append list.set) blast

lemma asks_one_order: "(\<And>i u. fixed_text (ask i u)) \<Longrightarrow> asks fixed_text (one_order ask who rq)"
  unfolding one_order_def by (intro asks_require) (auto intro!: asks_or_500 asks_next_do split: option.split)

lemma clause_texts: "(case product_clauses category search of (cs, vs) \<Rightarrow>
    selectProducts @ '' '' @ (if cs \<noteq> [] then ''WHERE '' @ join '' AND '' cs else []) @ '' ORDER BY id'') \<in> set fixed_texts"
proof -
  have n: "show_nat (Suc 0) = ''1''" "show_nat 2 = ''2''" by (code_simp, code_simp)
  show ?thesis by (simp add: product_clauses_def Let_def fixed_texts_def n numeral_2_eq_2 [symmetric])
qed

text \<open>Apart from the product search that is unsafe on purpose, no route puts the request into the
  text of a query: whatever was asked before, every text a route can send is one of thirteen fixed ones.\<close>

theorem only_search_is_built:
  "list_all (asks fixed_text) [login hmac encode env rq, list_orders who rq, get_order who rq, get_order_secure who rq, post_order stringify who rq,
     search_products_secure rq, get_products rq, get_product rq, demo_file base rq]"
proof -
  note t = order_texts [unfolded insert_subset]
  have "asks fixed_text (login hmac encode env rq)"
    unfolding login_def Let_def using t by (auto intro!: asks_or_500 asks_next_do)
  moreover have "asks fixed_text (list_orders who rq)"
    unfolding list_orders_def using t by (intro asks_require asks_or_500 asks_next_do) simp_all
  moreover have "asks fixed_text (get_order who rq)" "asks fixed_text (get_order_secure who rq)"
    unfolding get_order_def get_order_secure_def using t by (auto intro!: asks_one_order)
  moreover have "asks fixed_text (post_order stringify who rq)"
    unfolding post_order_def Let_def look_up_prices_def save_order_def using t
    by (intro asks_require) (auto intro!: asks_or_500 asks_next_do split: jval.split)
  moreover have "asks fixed_text (search_products_secure rq)" "asks fixed_text (get_products rq)"
    unfolding search_products_secure_def get_products_def using clause_texts [of "jget (sr_query rq) ''category''" "jget (sr_query rq) ''search''"]
    by (auto intro!: asks_products simp: fixed_texts_def split: prod.split)
  moreover have "asks fixed_text (get_product rq)"
    unfolding get_product_def by (auto intro!: asks_or_500 asks_next_do simp: fixed_texts_def)
  moreover have "asks fixed_text (demo_file base rq)"
    unfolding demo_file_def Let_def by (auto intro!: asks_next_do asks_try_catch)
  ultimately show ?thesis by simp
qed

end
