(* ===== verification/ShopApi.thy ===== *)
theory ShopApi
  imports ShopBackend JsText
begin

text \<open>
  The storefront's client side: \<open>services/api.js\<close> with its in-memory catalogue, accounts, reviews and
  wishlists, and its requests to the backend. \<open>parse\<close> is \<open>JSON.parse\<close>. The browser's storage is a
  dictionary of texts. The mock calls wait for a timer first, which is left out. An error is thrown as
  its status and message; a pictogram at the start of a message is left out. Page numbers and limits
  are taken as whole numbers, which \<open>parseInt\<close> makes them.
\<close>

type_synonym storage = "(string \<times> string) list"

section \<open>Requests to the backend\<close>

definition getItem :: "storage \<Rightarrow> string \<Rightarrow> string" where
  "getItem st k = (case dget st k of None \<Rightarrow> [] | Some v \<Rightarrow> v)"

definition ENV_API_MODE :: "env \<Rightarrow> string" where
  "ENV_API_MODE env = to_lower (env_or env ''VITE_API_MODE'' ''backend'')"

definition getApiMode :: "env \<Rightarrow> storage \<Rightarrow> string" where
  "getApiMode env st = (if (if getItem st ''api_mode'' \<noteq> [] then getItem st ''api_mode'' else ENV_API_MODE env) = ''gateway''
     then ''gateway'' else ''backend'')"

definition setApiMode :: "string \<Rightarrow> storage \<Rightarrow> storage" where
  "setApiMode mode st = dput ''api_mode'' (if mode = ''gateway'' then ''gateway'' else ''backend'') st"

definition getApiBaseUrl :: "env \<Rightarrow> storage \<Rightarrow> string" where
  "getApiBaseUrl env st = (if getApiMode env st = ''gateway'' then env_or env ''VITE_GATEWAY_API_URL'' ''http://localhost:8082''
     else env_or env ''VITE_BACKEND_API_URL'' ''http://localhost:5002'')"

record http_request =
  rq_url :: string
  rq_method :: string
  rq_auth :: "string option"
  rq_body :: "jval option"

definition api_request :: "env \<Rightarrow> storage \<Rightarrow> string \<Rightarrow> string \<Rightarrow> jval option \<Rightarrow> http_request" where
  "api_request env st path mth body = \<lparr>rq_url = getApiBaseUrl env st @ path, rq_method = mth,
     rq_auth = (if getItem st ''sf_token'' = [] then None else Some (''Bearer '' @ getItem st ''sf_token'')), rq_body = body\<rparr>"

text \<open>What came back: nothing, or a status and the text of the body.\<close>

datatype net =
    Unreachable
  | Answered nat string

definition net_ok :: "net \<Rightarrow> bool" where
  "net_ok r = (case r of Unreachable \<Rightarrow> False | Answered st t \<Rightarrow> 200 \<le> st \<and> st < 300)"

definition message_or :: "jval \<Rightarrow> string \<Rightarrow> string" where
  "message_or data d = to_str (jor (jget data ''message'') (JStr d))"

definition sign_out :: "storage \<Rightarrow> storage" where
  "sign_out st = ddel ''sf_user'' (ddel ''sf_token'' st)"

text \<open>The answer of \<open>apiFetch\<close>: the storage, whether the session ended, and the data.\<close>

definition api_answer :: "(string \<Rightarrow> jval option) \<Rightarrow> net \<Rightarrow> storage \<Rightarrow> storage \<times> bool \<times> (jserr + jval)" where
  "api_answer parse r st = (case r of
       Unreachable \<Rightarrow> (st, False, Inl (ApiError 0 ''Could not reach the API. Is the stack running?''))
     | Answered code t \<Rightarrow>
         if code = 401 then (sign_out st, True, Inl (ApiError 401 ''Your session has expired. Sign in again.''))
         else (st, False,
           if code = 429 then Inl (ApiError 429 ''Blocked by the gateway: too many requests. Wait a moment and try again.'')
           else if code = 403 then Inl (ApiError 403 ''Blocked by the gateway.'')
           else case (if t = [] then Some JNull else parse t) of
               None \<Rightarrow> Inl (ApiError code ''The API returned something that was not JSON'')
             | Some data \<Rightarrow> if \<not> net_ok r then Inl (ApiError code (message_or data (''Request failed: '' @ show_nat code))) else Inr data))"

text \<open>A signed-in user of the backend in the shape the pages read.\<close>

definition normalizeBackendUser :: "jval \<Rightarrow> jval" where
  "normalizeBackendUser u = JObj
     [(''_id'', JStr (to_str (jcoalesce (jget u ''id'') (jget u ''_id'')))), (''id'', jget u ''id''),
      (''name'', jor (jget u ''name'') (jget u ''email'')), (''email'', jget u ''email''), (''role'', jget u ''role''),
      (''isAdmin'', JBool (jget u ''role'' = JStr ''administrator'')), (''wishlist'', JArr [])]"

text \<open>\<open>userApi.login\<close>: \<open>health\<close> answers the second request, made when the first got no answer.\<close>

definition login_answer :: "(string \<Rightarrow> jval option) \<Rightarrow> net \<Rightarrow> net \<Rightarrow> string + jval \<times> jval" where
  "login_answer parse r health = (case r of
       Unreachable \<Rightarrow> Inl (if net_ok health then ''The login request was blocked in a way the browser could not read the reason for.''
         else ''Could not reach the login API. Is the stack running?'')
     | Answered code t \<Rightarrow>
         if code = 403 then Inl ''SQL Injection Attack Blocked''
         else if code = 429 then Inl ''Too many attempts. Wait a moment and try again.''
         else case (if t = [] then Some JNull else parse t) of
             None \<Rightarrow> Inl ''Login endpoint returned invalid JSON''
           | Some v \<Rightarrow> if \<not> net_ok r then Inl (message_or v ''Invalid email or password'')
               else if \<not> truthy (jget v ''user'') \<or> \<not> truthy (jget v ''token'') then Inl ''Login endpoint returned an unsupported response shape''
               else Inr (normalizeBackendUser (jget v ''user''), jget v ''token''))"

section \<open>Orders\<close>

definition toUiItem :: "jval \<Rightarrow> jval" where
  "toUiItem i = JObj [(''product'', jget i ''productId''), (''name'', jget i ''name''), (''image'', jget i ''image''),
     (''price'', JNum (to_num (jget i ''price''))), (''quantity'', jget i ''quantity'')]"

definition toUiOrder :: "jval \<Rightarrow> jserr + jval" where
  "toUiOrder v = sbind (dot v ''items'') (\<lambda>its. sbind (items (jor its (JArr []))) (\<lambda>raws.
     let xs = map toUiItem raws in Inr (JObj
       [(''_id'', JStr (to_str (jget v ''id''))), (''orderNumber'', jget v ''orderNumber''), (''customerName'', jget v ''customerName''),
        (''items'', JArr xs), (''shippingAddress'', jget v ''shippingAddress''),
        (''subtotal'', JNum (foldl (\<lambda>sum i. nadd sum (nmul (to_num (jget i ''price'')) (to_num (jget i ''quantity'')))) (Fin 0) xs)),
        (''totalPrice'', JNum (to_num (jget v ''total''))), (''status'', jget v ''status''), (''createdAt'', jget v ''createdAt'')])))"

text \<open>The body of \<open>orderApi.create\<close>, from items in the shape of the checkout page.\<close>

definition order_line :: "jval \<Rightarrow> jval" where
  "order_line i = JObj [(''productId'', jget i ''product''), (''name'', jget i ''name''), (''price'', jget i ''price''),
     (''quantity'', jget i ''quantity''), (''image'', jget i ''image'')]"

definition order_body :: "jval list \<Rightarrow> jval \<Rightarrow> string \<Rightarrow> jval" where
  "order_body its address method' = JObj [(''items'', JArr (map order_line its)), (''shippingAddress'', address), (''paymentMethod'', JStr method')]"

definition created_order :: "jval \<Rightarrow> jserr + jval" where
  "created_order data = sbind (dot data ''order'') toUiOrder"

definition my_orders :: "jval \<Rightarrow> jserr + jval list" where
  "my_orders data = sbind (dot data ''orders'') (\<lambda>v. sbind (items (jor v (JArr []))) (sum_map toUiOrder))"

section \<open>The catalogue\<close>

record review =
  rv_id :: string
  rv_name :: jval
  rv_rating :: jnum
  rv_comment :: string
  rv_created :: string

record card =
  cd_id :: string
  cd_name :: string
  cd_description :: string
  cd_price :: jnum
  cd_category :: string
  cd_stock :: int
  cd_rating :: jnum
  cd_numReviews :: nat
  cd_featured :: bool
  cd_new :: bool
  cd_tags :: "string list"
  cd_reviews :: "review list"
  cd_created :: jnum

record catalogue_query =
  cq_category :: string
  cq_featured :: bool
  cq_new :: bool
  cq_search :: string
  cq_min :: string
  cq_max :: string
  cq_rating :: string
  cq_sort :: string
  cq_page :: int
  cq_limit :: int

definition found_by :: "string \<Rightarrow> card \<Rightarrow> bool" where
  "found_by search p = (let q = to_lower search in
     contains q (to_lower (cd_name p)) \<or> contains q (to_lower (cd_description p)) \<or> list_ex (\<lambda>t. contains q (to_lower t)) (cd_tags p))"

definition selected :: "catalogue_query \<Rightarrow> card \<Rightarrow> bool" where
  "selected q p \<longleftrightarrow> (cq_category q = [] \<or> cd_category p = cq_category q) \<and> (\<not> cq_featured q \<or> cd_featured p) \<and> (\<not> cq_new q \<or> cd_new p) \<and>
     (cq_search q = [] \<or> found_by (cq_search q) p) \<and>
     (cq_min q = [] \<or> nle (parse_float (cq_min q)) (cd_price p)) \<and> (cq_max q = [] \<or> nle (cd_price p) (parse_float (cq_max q))) \<and>
     (cq_rating q = [] \<or> nle (parse_float (cq_rating q)) (cd_rating p))"

text \<open>The comparisons by subtraction; a difference that is not a number counts as equal.\<close>

definition comes_before :: "string \<Rightarrow> card \<Rightarrow> card \<Rightarrow> bool" where
  "comes_before key a b = (if key = ''price_asc'' then \<not> nlt (cd_price b) (cd_price a)
     else if key = ''price_desc'' then \<not> nlt (cd_price a) (cd_price b)
     else if key = ''rating'' then \<not> nlt (cd_rating a) (cd_rating b)
     else \<not> nlt (cd_created a) (cd_created b))"

definition matching :: "card list \<Rightarrow> catalogue_query \<Rightarrow> card list" where
  "matching products q = js_sort (comes_before (cq_sort q)) (filter (selected q) products)"

definition ceil_div :: "int \<Rightarrow> int \<Rightarrow> int" where
  "ceil_div a b = - ((- a) div b)"

record catalogue_page =
  cp_products :: "card list"
  cp_page :: int
  cp_pages :: int
  cp_total :: nat

definition page_of :: "'a list \<Rightarrow> int \<Rightarrow> int \<Rightarrow> 'a list" where
  "page_of xs limit page = js_slice xs ((page - 1) * limit) (page * limit)"

definition or_int :: "int \<Rightarrow> int \<Rightarrow> int" where
  "or_int a b = (if a = 0 then b else a)"

definition getAll :: "card list \<Rightarrow> catalogue_query \<Rightarrow> catalogue_page" where
  "getAll products q = (let result = matching products q; page = or_int (cq_page q) 1; limit = or_int (cq_limit q) 12 in
     \<lparr>cp_products = page_of result limit page, cp_page = page, cp_pages = ceil_div (int (length result)) limit, cp_total = length result\<rparr>)"

definition getById :: "card list \<Rightarrow> string \<Rightarrow> jserr + card" where
  "getById products i = (case find (\<lambda>p. cd_id p = i) products of None \<Rightarrow> Inl (ApiError 404 ''Product not found'') | Some p \<Rightarrow> Inr p)"

definition getCategories :: "card list \<Rightarrow> string list" where
  "getCategories products = uniq (map cd_category products)"

text \<open>The fallback of \<open>getAllProducts\<close> when the backend does not answer.\<close>

definition offline_products :: "card list \<Rightarrow> string \<Rightarrow> string \<Rightarrow> card list" where
  "offline_products products category search = filter (\<lambda>p. search = [] \<or> contains (to_lower search) (to_lower (cd_name p)))
     (filter (\<lambda>p. category = [] \<or> cd_category p = category) products)"

section \<open>Accounts\<close>

definition same_email :: "jval \<Rightarrow> jval \<Rightarrow> bool" where
  "same_email a b \<longleftrightarrow> jget a ''email'' = jget b ''email''"

fun first_index :: "('a \<Rightarrow> bool) \<Rightarrow> 'a list \<Rightarrow> nat option" where
  "first_index P [] = None"
| "first_index P (x # xs) = (if P x then Some 0 else map_option Suc (first_index P xs))"

text \<open>The signed-in account: the accounts, which may gain one, and its position.\<close>

definition getCurrentUser :: "(string \<Rightarrow> jval option) \<Rightarrow> storage \<Rightarrow> jval list \<Rightarrow> jval list \<times> nat option" where
  "getCurrentUser parse st users = (if getItem st ''sf_user'' = [] then (users, None)
     else case parse (getItem st ''sf_user'') of None \<Rightarrow> (users, None)
     | Some v \<Rightarrow> if \<not> truthy (jget v ''email'') then (users, None)
         else case first_index (same_email v) users of
             Some i \<Rightarrow> (users, Some i)
           | None \<Rightarrow> (users @ [JObj (dput ''wishlist'' (jor (jget v ''wishlist'') (JArr [])) (spread v))], Some (length users)))"

definition not_authenticated :: jserr where
  "not_authenticated = ApiError 401 ''Not authenticated''"

text \<open>\<open>p.reviews?.some((r) => r._id.includes(user._id))\<close>\<close>

definition has_reviewed :: "string \<Rightarrow> card \<Rightarrow> bool" where
  "has_reviewed uid p = list_ex (\<lambda>r. contains uid (rv_id r)) (cd_reviews p)"

definition with_reviews :: "review list \<Rightarrow> card \<Rightarrow> card" where
  "with_reviews rs p = p\<lparr>cd_reviews := rs, cd_numReviews := length rs,
     cd_rating := ndiv (foldl (\<lambda>s r. nadd s (rv_rating r)) (Fin 0) rs) (nint (int (length rs)))\<rparr>"

definition new_review :: "jval \<Rightarrow> jnum \<Rightarrow> string \<Rightarrow> nat \<Rightarrow> string \<Rightarrow> review" where
  "new_review user rating comment now ts = \<lparr>rv_id = ''r_'' @ to_str (jget user ''_id'') @ ''_'' @ show_nat now, rv_name = jget user ''name'',
     rv_rating = rating, rv_comment = comment, rv_created = ts\<rparr>"

text \<open>\<open>now\<close> is \<open>Date.now()\<close> and \<open>ts\<close> the current time as text; the account is an entry of \<open>users\<close>.\<close>

definition addReview :: "jval list \<times> nat option \<Rightarrow> string \<Rightarrow> jnum \<Rightarrow> string \<Rightarrow> nat \<Rightarrow> string \<Rightarrow> card list \<Rightarrow> jserr + card list" where
  "addReview current pid rating comment now ts products = (case current of (users, None) \<Rightarrow> Inl not_authenticated
     | (users, Some u) \<Rightarrow> (case first_index (\<lambda>p. cd_id p = pid) products of
         None \<Rightarrow> Inl (ApiError 404 ''Product not found'')
       | Some i \<Rightarrow> let p = products ! i in
           if has_reviewed (to_str (jget (users ! u) ''_id'')) p then Inl (ApiError 400 ''Already reviewed'')
           else Inr (products[i := with_reviews (cd_reviews p @ [new_review (users ! u) rating comment now ts]) p])))"

definition makeToken :: "string \<Rightarrow> string" where
  "makeToken uid = btoa uid"

definition registered :: "string \<Rightarrow> string \<Rightarrow> nat \<Rightarrow> jval" where
  "registered name email now = JObj [(''_id'', JStr (''u'' @ show_nat now)), (''name'', JStr name), (''email'', JStr email),
     (''isAdmin'', JBool False), (''wishlist'', JArr [])]"

definition register :: "string \<Rightarrow> string \<Rightarrow> nat \<Rightarrow> jval list \<Rightarrow> jserr + (jval \<times> string) \<times> jval list" where
  "register name email now users =
     (if list_ex (\<lambda>u. jget u ''email'' = JStr email) users then Inl (ApiError 400 ''Email already in use'')
      else let user = registered name email now in Inr ((user, makeToken (to_str (jget user ''_id''))), users @ [user]))"

definition getProfile :: "jval list \<times> nat option \<Rightarrow> jserr + jval" where
  "getProfile current = (case current of (users, None) \<Rightarrow> Inl not_authenticated | (users, Some i) \<Rightarrow> Inr (users ! i))"

definition set_if :: "string \<Rightarrow> string \<Rightarrow> jval \<Rightarrow> jval" where
  "set_if k t v = (if t = [] then v else jset v k (JStr t))"

definition updateProfile :: "jval list \<times> nat option \<Rightarrow> string \<Rightarrow> string \<Rightarrow> jserr + (jval \<times> string) \<times> jval list" where
  "updateProfile current name email = (case current of (users, None) \<Rightarrow> Inl not_authenticated
     | (users, Some i) \<Rightarrow> let u = set_if ''email'' email (set_if ''name'' name (users ! i)) in
         Inr ((u, makeToken (to_str (jget u ''_id''))), users[i := u]))"

definition wishlist_of :: "jval \<Rightarrow> jval list" where
  "wishlist_of u = (case jor (jget u ''wishlist'') (JArr []) of JArr xs \<Rightarrow> xs | _ \<Rightarrow> [])"

definition getWishlist :: "jval list \<times> nat option \<Rightarrow> card list \<Rightarrow> jserr + card list" where
  "getWishlist current products = (case current of (users, None) \<Rightarrow> Inl not_authenticated
     | (users, Some i) \<Rightarrow> Inr (filter (\<lambda>p. JStr (cd_id p) \<in> set (wishlist_of (users ! i))) products))"

definition toggled :: "string \<Rightarrow> jval list \<Rightarrow> jval list" where
  "toggled pid xs = (if JStr pid \<in> set xs then remove1 (JStr pid) xs else xs @ [JStr pid])"

definition toggleWishlist :: "jval list \<times> nat option \<Rightarrow> string \<Rightarrow> jserr + jval list \<times> jval list" where
  "toggleWishlist current pid = (case current of (users, None) \<Rightarrow> Inl not_authenticated
     | (users, Some i) \<Rightarrow> let xs = toggled pid (wishlist_of (users ! i)) in Inr (xs, users[i := jset (users ! i) ''wishlist'' (JArr xs)]))"

section \<open>Administration\<close>

record mock_order =
  mo_id :: string
  mo_total :: jnum
  mo_status :: string
  mo_delivered :: bool
  mo_delivered_at :: string

record admin_stats =
  sa_products :: nat
  sa_orders :: nat
  sa_users :: nat
  sa_revenue :: jnum

definition getStats :: "card list \<Rightarrow> mock_order list \<Rightarrow> jval list \<Rightarrow> admin_stats" where
  "getStats products orders users = \<lparr>sa_products = length products, sa_orders = length orders, sa_users = length users,
     sa_revenue = foldl (\<lambda>s o'. nadd s (mo_total o')) (Fin 0) orders\<rparr>"

definition createProduct :: "card \<Rightarrow> nat \<Rightarrow> jnum \<Rightarrow> card list \<Rightarrow> card \<times> card list" where
  "createProduct data now created products = (let p = data\<lparr>cd_id := ''p'' @ show_nat now, cd_rating := Fin 0, cd_numReviews := 0, cd_reviews := [],
     cd_created := created\<rparr> in (p, p # products))"

text \<open>The changes are \<open>{ ...products[idx], ...data }\<close> as a function.\<close>

definition updateProduct :: "string \<Rightarrow> (card \<Rightarrow> card) \<Rightarrow> card list \<Rightarrow> jserr + card list" where
  "updateProduct i change products = (case first_index (\<lambda>p. cd_id p = i) products of
       None \<Rightarrow> Inl (ApiError 404 ''Product not found'') | Some k \<Rightarrow> Inr (products[k := change (products ! k)]))"

definition deleteProduct :: "string \<Rightarrow> card list \<Rightarrow> jserr + card list" where
  "deleteProduct i products = (case first_index (\<lambda>p. cd_id p = i) products of
       None \<Rightarrow> Inl (ApiError 404 ''Product not found'') | Some k \<Rightarrow> Inr (take k products @ drop (Suc k) products))"

definition getOrders :: "int \<Rightarrow> mock_order list \<Rightarrow> mock_order list \<times> int \<times> int \<times> nat" where
  "getOrders page_param orders = (let page = or_int page_param 1 in (page_of orders 20 page, page, ceil_div (int (length orders)) 20, length orders))"

definition updateOrderStatus :: "string \<Rightarrow> string \<Rightarrow> string \<Rightarrow> mock_order list \<Rightarrow> jserr + mock_order list" where
  "updateOrderStatus i status ts orders = (case first_index (\<lambda>o'. mo_id o' = i) orders of
       None \<Rightarrow> Inl (ApiError 404 ''Order not found'')
     | Some k \<Rightarrow> let o' = (orders ! k)\<lparr>mo_status := status\<rparr> in
         Inr (orders[k := if status = ''delivered'' then o'\<lparr>mo_delivered := True, mo_delivered_at := ts\<rparr> else o']))"

section \<open>Pages of a list\<close>

lemma js_slice_page:
  assumes "0 < n" "1 \<le> p"
  shows "js_slice xs ((int p - 1) * int n) (int p * int n) = take n (drop ((p - 1) * n) xs)"
proof -
  have a: "(int p - 1) * int n = int ((p - 1) * n)" "int p * int n = int (p * n)" using assms(2) by (simp_all add: of_nat_diff)
  have b: "p * n = (p - 1) * n + n" using assms(2) by (cases p) auto
  show ?thesis unfolding js_slice_def a slice_bound_def
    by (simp only: of_nat_less_0_iff if_False nat_int b drop_take) simp
qed

lemma pages_concat:
  "0 < n \<Longrightarrow> concat (map (\<lambda>p. take n (drop (p * n) xs)) [0..<k]) = take (k * n) xs"
proof (induction k)
  case (Suc k)
  have "take (k * n + n) xs = take (k * n) xs @ take n (drop (k * n) xs)" by (rule take_add)
  with Suc show ?case by (simp add: add.commute)
qed simp

lemma ceil_div_bounds: "0 < n \<Longrightarrow> a \<le> ceil_div a n * n \<and> ceil_div a n * n < a + n"
proof -
  assume n: "0 < n"
  have "- a = (- a) div n * n + (- a) mod n" "0 \<le> (- a) mod n" "(- a) mod n < n" using n by simp_all
  then show ?thesis unfolding ceil_div_def by linarith
qed

lemma or_int_limit: "or_int (int n) 12 = int (if n = 0 then 12 else n)"
  by (simp add: or_int_def)

text \<open>Property C39. The pages of the catalogue, from the first to the one the answer counts as the last, hold
  together exactly the products that match, each as often as the catalogue has it and in the order
  asked for, and none holds more than a page.\<close>

theorem catalogue_pages:
  "let pg = (\<lambda>p. getAll products (q\<lparr>cq_limit := int n, cq_page := int p\<rparr>)); k = nat (cp_pages (pg 1)); whole = map (\<lambda>p. cp_products (pg p)) [1..<Suc k] in
     concat whole = matching products q \<and> mset (concat whole) = mset (filter (selected q) products) \<and>
     list_all (\<lambda>xs. length xs \<le> (if n = 0 then 12 else n)) whole \<and> cp_total (pg 1) = length (concat whole)"
proof -
  define m where "m = (if n = 0 then 12 else n)"
  have m: "0 < m" by (simp add: m_def)
  let ?xs = "matching products q"
  have ms: "matching products (q\<lparr>cq_limit := l, cq_page := p\<rparr>) = ?xs" for l p by (simp add: matching_def selected_def [abs_def])
  have page: "cp_products (getAll products (q\<lparr>cq_limit := int n, cq_page := int p\<rparr>)) = take m (drop ((p - 1) * m) ?xs)" if "1 \<le> p" for p
  proof -
    have l: "or_int (int n) 12 = int m" "or_int (int p) 1 = int p" using that by (simp_all add: or_int_def m_def)
    have c: "cq_page (q\<lparr>cq_limit := int n, cq_page := int p\<rparr>) = int p" "cq_limit (q\<lparr>cq_limit := int n, cq_page := int p\<rparr>) = int n" by simp_all
    show ?thesis using js_slice_page [OF m that, of ?xs] by (simp only: getAll_def ms Let_def page_of_def c l catalogue_page.simps)
  qed
  define k where "k = nat (ceil_div (int (length ?xs)) (int m))"
  have pages: "nat (cp_pages (getAll products (q\<lparr>cq_limit := int n, cq_page := int 1\<rparr>))) = k"
    by (simp add: getAll_def ms Let_def or_int_limit m_def [symmetric] k_def)
  have cb: "int (length ?xs) \<le> ceil_div (int (length ?xs)) (int m) * int m" using ceil_div_bounds [of "int m" "int (length ?xs)"] m by simp
  then have "0 \<le> ceil_div (int (length ?xs)) (int m)" using m by (meson of_nat_0_le_iff of_nat_0_less_iff order_trans zero_le_mult_iff not_le)
  then have "int (length ?xs) \<le> int (k * m)" using cb by (simp add: k_def)
  then have all: "take (k * m) ?xs = ?xs" by (simp only: of_nat_le_iff take_all)
  have "map (\<lambda>p. cp_products (getAll products (q\<lparr>cq_limit := int n, cq_page := int p\<rparr>))) [1..<Suc k] = map (\<lambda>p. take m (drop (p * m) ?xs)) [0..<k]"
  proof (rule nth_equalityI)
    fix i
    assume "i < length (map (\<lambda>p. cp_products (getAll products (q\<lparr>cq_limit := int n, cq_page := int p\<rparr>))) [1..<Suc k])"
    then show "map (\<lambda>p. cp_products (getAll products (q\<lparr>cq_limit := int n, cq_page := int p\<rparr>))) [1..<Suc k] ! i =
        map (\<lambda>p. take m (drop (p * m) ?xs)) [0..<k] ! i"
      using page [of "Suc i"] by (simp del: upt_Suc)
  qed simp
  then have "concat (map (\<lambda>p. cp_products (getAll products (q\<lparr>cq_limit := int n, cq_page := int p\<rparr>))) [1..<Suc k]) = ?xs"
    using pages_concat [OF m, of ?xs k] all by simp
  moreover have "mset ?xs = mset (filter (selected q) products)" by (simp add: matching_def)
  moreover have "list_all (\<lambda>xs. length xs \<le> m) (map (\<lambda>p. cp_products (getAll products (q\<lparr>cq_limit := int n, cq_page := int p\<rparr>))) [1..<Suc k])"
    by (auto simp: list_all_iff page)
  moreover have "cp_total (getAll products (q\<lparr>cq_limit := int n, cq_page := int 1\<rparr>)) = length ?xs" by (simp add: getAll_def ms Let_def)
  ultimately show ?thesis unfolding Let_def pages m_def by simp
qed

section \<open>Wishlists and reviews\<close>

text \<open>Toggling adds or removes that product alone, keeps a wishlist free of repetitions, and toggling twice
  restores what it held.\<close>

lemma toggled_set: "distinct xs \<Longrightarrow> set (toggled pid xs) = (if JStr pid \<in> set xs then set xs - {JStr pid} else insert (JStr pid) (set xs))"
    "distinct xs \<Longrightarrow> distinct (toggled pid xs)"
  by (auto simp: toggled_def)

lemma toggled_twice: "distinct xs \<Longrightarrow> set (toggled pid (toggled pid xs)) = set xs"
  by (auto simp: toggled_set)

text \<open>A review by another account blocks every account whose id is part of that account's id, and every
  account whose id is part of the time it was written.\<close>

lemma foreign_review_blocks:
  assumes "sublist uid other \<or> sublist uid (show_nat now)"
  shows "has_reviewed uid (with_reviews [new_review (JObj [(''_id'', JStr other)]) n comment now ts] p)"
proof -
  have "sublist other (''r_'' @ other @ ''_'' @ show_nat now)" "sublist (show_nat now) (''r_'' @ other @ ''_'' @ show_nat now)"
    using sublist_appendI [of other "''r_''" "''_'' @ show_nat now"] sublist_appendI [of "show_nat now" "''r_'' @ other @ ''_''" "[]"] by simp_all
  then have "sublist uid (''r_'' @ other @ ''_'' @ show_nat now)" using assms sublist_order.order_trans by blast
  then show ?thesis by (simp add: has_reviewed_def with_reviews_def new_review_def contains_def jget_Cons)
qed

lemma u1_in_u12: "sublist ''u1'' ''u12''"
  using sublist_appendI [of "''u1''" "[]" "''2''"] by simp

end
