(* ===== verification/Storefront.thy ===== *)
theory Storefront
  imports ShopApi
begin

text \<open>
  The storefront's session, cart and checkout: \<open>context/AuthContext.jsx\<close>, \<open>context/CartContext.jsx\<close>,
  \<open>pages/Checkout.jsx\<close>, the cart buttons of the pages, and \<open>utils\<close>. The session lives in the browser's
  storage and in the page; a reload reads it again. Login tokens are texts, as the backend issues them.
  Stocks and quantities are whole numbers. \<open>stringify\<close> is \<open>JSON.stringify\<close>.
\<close>

section \<open>The session\<close>

definition looksLikeAJwt :: "string \<Rightarrow> bool" where
  "looksLikeAJwt token \<longleftrightarrow> length (split_on (CHR ''.'') token) = 3"

record front =
  fr_store :: storage
  fr_user :: jval

text \<open>The first render: a token that is no signed one ends the session; a user that does not parse does not.\<close>

definition first_render :: "(string \<Rightarrow> jval option) \<Rightarrow> storage \<Rightarrow> front" where
  "first_render parse st = (if getItem st ''sf_token'' = [] \<or> getItem st ''sf_user'' = [] then \<lparr>fr_store = st, fr_user = JNull\<rparr>
     else if \<not> looksLikeAJwt (getItem st ''sf_token'') then \<lparr>fr_store = sign_out st, fr_user = JNull\<rparr>
     else \<lparr>fr_store = st, fr_user = (case parse (getItem st ''sf_user'') of None \<Rightarrow> JNull | Some v \<Rightarrow> v)\<rparr>)"

text \<open>What follows a login or a registration that succeeded.\<close>

definition signed_in :: "(jval \<Rightarrow> string) \<Rightarrow> jval \<Rightarrow> string \<Rightarrow> front \<Rightarrow> front" where
  "signed_in stringify user token s = \<lparr>fr_store = dput ''sf_user'' (stringify user) (dput ''sf_token'' token (fr_store s)), fr_user = user\<rparr>"

definition logout :: "front \<Rightarrow> front" where
  "logout s = \<lparr>fr_store = sign_out (fr_store s), fr_user = JNull\<rparr>"

definition updateUser :: "(jval \<Rightarrow> string) \<Rightarrow> jval \<Rightarrow> front \<Rightarrow> front" where
  "updateUser stringify u s = s\<lparr>fr_store := dput ''sf_user'' (stringify u) (fr_store s), fr_user := u\<rparr>"

text \<open>A call of the API was answered; the listener signs the page out when the session has ended.\<close>

definition called :: "(string \<Rightarrow> jval option) \<Rightarrow> net \<Rightarrow> front \<Rightarrow> front" where
  "called parse r s = (case api_answer parse r (fr_store s) of (st, expired, x) \<Rightarrow>
     \<lparr>fr_store = st, fr_user = (if expired then JNull else fr_user s)\<rparr>)"

inductive front_step :: "(string \<Rightarrow> jval option) \<Rightarrow> (jval \<Rightarrow> string) \<Rightarrow> front \<Rightarrow> front \<Rightarrow> bool" for parse stringify where
  logs_in: "login_answer parse r health = Inr (user, JStr token) \<Longrightarrow> front_step parse stringify s (signed_in stringify user token s)"
| registers: "register name email now users = Inr ((user, token), users') \<Longrightarrow> front_step parse stringify s (signed_in stringify user token s)"
| logs_out: "front_step parse stringify s (logout s)"
| calls_api: "front_step parse stringify s (called parse r s)"
| switches: "front_step parse stringify s (s\<lparr>fr_store := setApiMode mode (fr_store s)\<rparr>)"
| reloads: "front_step parse stringify s (first_render parse (fr_store s))"

inductive front_reach :: "(string \<Rightarrow> jval option) \<Rightarrow> (jval \<Rightarrow> string) \<Rightarrow> front \<Rightarrow> bool" for parse stringify where
  opens: "front_reach parse stringify (first_render parse st)"
| next_step: "front_reach parse stringify s \<Longrightarrow> front_step parse stringify s t \<Longrightarrow> front_reach parse stringify t"

section \<open>The cart\<close>

text \<open>A line: what the pages use of the product, and the quantity.\<close>

record line =
  cl_id :: string
  cl_name :: string
  cl_price :: jnum
  cl_image :: string
  cl_stock :: int
  cl_quantity :: int

definition addToCart :: "line \<Rightarrow> int \<Rightarrow> line list \<Rightarrow> line list" where
  "addToCart product n cart = (if list_ex (\<lambda>i. cl_id i = cl_id product) cart
     then map (\<lambda>i. if cl_id i = cl_id product then i\<lparr>cl_quantity := min (cl_quantity i + n) (cl_stock product)\<rparr> else i) cart
     else cart @ [product\<lparr>cl_quantity := n\<rparr>])"

definition removeFromCart :: "string \<Rightarrow> line list \<Rightarrow> line list" where
  "removeFromCart i cart = filter (\<lambda>l. cl_id l \<noteq> i) cart"

definition updateQuantity :: "string \<Rightarrow> int \<Rightarrow> line list \<Rightarrow> line list" where
  "updateQuantity i n cart = (if n < 1 then removeFromCart i cart else map (\<lambda>l. if cl_id l = i then l\<lparr>cl_quantity := n\<rparr> else l) cart)"

definition totalItems :: "line list \<Rightarrow> int" where
  "totalItems cart = (\<Sum>l\<leftarrow>cart. cl_quantity l)"

definition cart_subtotal :: "line list \<Rightarrow> jnum" where
  "cart_subtotal cart = foldl (\<lambda>sum l. nadd sum (nmul (cl_price l) (nint (cl_quantity l)))) (Fin 0) cart"

text \<open>The buttons: a card adds one of a product in stock, the product page a quantity it keeps between one
  and the stock, the cart page changes by one. \<open>stock\<close> is what the catalogue says of a product.\<close>

inductive cart_step :: "(string \<Rightarrow> int) \<Rightarrow> line list \<Rightarrow> line list \<Rightarrow> bool" for stock :: "string \<Rightarrow> int" where
  card_adds: "cl_stock p = stock (cl_id p) \<Longrightarrow> 0 < cl_stock p \<Longrightarrow> cart_step stock c (addToCart p 1 c)"
| page_adds: "cl_stock p = stock (cl_id p) \<Longrightarrow> 1 \<le> n \<Longrightarrow> n \<le> cl_stock p \<Longrightarrow> cart_step stock c (addToCart p n c)"
| minus: "l \<in> set c \<Longrightarrow> cart_step stock c (updateQuantity (cl_id l) (cl_quantity l - 1) c)"
| plus: "l \<in> set c \<Longrightarrow> cart_step stock c (updateQuantity (cl_id l) (min (cl_stock l) (cl_quantity l + 1)) c)"
| remove: "cart_step stock c (removeFromCart i c)"
| empties: "cart_step stock c []"

inductive cart_reach :: "(string \<Rightarrow> int) \<Rightarrow> line list \<Rightarrow> bool" for stock :: "string \<Rightarrow> int" where
  empty: "cart_reach stock []"
| next_cart: "cart_reach stock c \<Longrightarrow> cart_step stock c d \<Longrightarrow> cart_reach stock d"

section \<open>Checkout\<close>

text \<open>\<open>+v.toFixed(2)\<close>: the nearest number of cents, the larger of two, read back as a number (below \<open>10 ^ 21\<close>).\<close>

definition to_cents :: "jnum \<Rightarrow> jnum" where
  "to_cents v = (case v of Fin x \<Rightarrow> fl (of_int (if 0 \<le> x then \<lfloor>x * 100 + 1 / 2\<rfloor> else - \<lfloor>- x * 100 + 1 / 2\<rfloor>) / 100) | _ \<Rightarrow> v)"

definition shown_shipping :: "jnum \<Rightarrow> jnum" where
  "shown_shipping s = (if nle (nint 50) s then Fin 0 else fl (599 / 100))"

definition shown_tax :: "jnum \<Rightarrow> jnum" where
  "shown_tax s = to_cents (nmul s (fl (8 / 100)))"

definition shown_total :: "jnum \<Rightarrow> jnum" where
  "shown_total s = to_cents (nadd (nadd s (shown_shipping s)) (shown_tax s))"

record checkout_form =
  ck_name :: string
  ck_street :: string
  ck_city :: string
  ck_state :: string
  ck_zip :: string
  ck_method :: string
  ck_number :: string
  ck_expiry :: string
  ck_cvv :: string

definition expiry_re :: re where
  "expiry_re = Cat (Times 2 digit) (Cat (Word ''/'') (Times 2 digit))"

text \<open>The fields found wrong, with their messages.\<close>

definition form_errors :: "checkout_form \<Rightarrow> (string \<times> string) list" where
  "form_errors f = (let need = (\<lambda>k v. if trim v = [] then [(k, ''Required'')] else []) in
     need ''fullName'' (ck_name f) @ need ''street'' (ck_street f) @ need ''city'' (ck_city f) @ need ''state'' (ck_state f) @ need ''zip'' (ck_zip f) @
     (if ck_method f = ''card''
      then (if length (filter (\<lambda>c. \<not> is_space c) (ck_number f)) < 16 then [(''cardNumber'', ''Enter 16-digit card number'')] else []) @
           (if \<not> rmatch expiry_re (ck_expiry f) then [(''expiry'', ''MM/YY format'')] else []) @
           (if length (ck_cvv f) < 3 then [(''cvv'', ''Enter CVV'')] else [])
      else []))"

definition only_digits :: "string \<Rightarrow> string" where
  "only_digits v = filter is_digit v"

text \<open>\<open>.replace(/(.{4})/g, '$1 ').trim()\<close>\<close>

fun in_fours :: "string \<Rightarrow> string" where
  "in_fours (a # b # c # d # r) = [a, b, c, d] @ '' '' @ in_fours r"
| "in_fours r = r"

definition formatCard :: "string \<Rightarrow> string" where
  "formatCard v = trim (in_fours (take 16 (only_digits v)))"

definition formatExpiry :: "string \<Rightarrow> string" where
  "formatExpiry v = (let ds = take 4 (only_digits v) in if 2 < length ds then take 2 ds @ ''/'' @ drop 2 ds else ds)"

definition order_item :: "line \<Rightarrow> jval" where
  "order_item l = JObj [(''product'', JStr (cl_id l)), (''name'', JStr (cl_name l)), (''price'', JNum (cl_price l)), (''image'', JStr (cl_image l)),
     (''quantity'', jint (cl_quantity l))]"

text \<open>What \<open>handlePlace\<close> sends: nothing when the form has errors.\<close>

definition place_order :: "checkout_form \<Rightarrow> jval \<Rightarrow> line list \<Rightarrow> jval option" where
  "place_order f address cart = (if form_errors f \<noteq> [] then None
     else Some (json_tree (order_body (map order_item cart) address (ck_method f))))"

section \<open>Small helpers\<close>

definition truncate :: "string \<Rightarrow> nat \<Rightarrow> string" where
  "truncate t n = (if n < length t then take n t @ ''...'' else t)"

definition discount :: "jnum \<Rightarrow> jnum \<Rightarrow> jnum" where
  "discount original current = (if \<not> truthy (JNum original) then Fin 0
     else nround (nmul (ndiv (nsub original current) original) (nint 100)))"

definition clamp :: "jnum \<Rightarrow> jnum \<Rightarrow> jnum \<Rightarrow> jnum" where
  "clamp v lo hi = nmin (nmax v lo) hi"

definition page_numbers :: "int \<Rightarrow> int list" where
  "page_numbers pages = (if pages \<le> 1 then [] else [1..pages])"

text \<open>\<open>ProtectedRoute\<close>: the address to go to instead, and the one to come back to.\<close>

definition protected_route :: "front \<Rightarrow> string \<Rightarrow> (string \<times> string) option" where
  "protected_route s path = (if truthy (fr_user s) then None else Some (''/login'', path))"

section \<open>The cart keeps its shape\<close>

definition line_ok :: "(string \<Rightarrow> int) \<Rightarrow> line \<Rightarrow> bool" where
  "line_ok stock l \<longleftrightarrow> cl_stock l = stock (cl_id l) \<and> 1 \<le> cl_quantity l \<and> cl_quantity l \<le> stock (cl_id l)"

definition cart_ok :: "(string \<Rightarrow> int) \<Rightarrow> line list \<Rightarrow> bool" where
  "cart_ok stock c \<longleftrightarrow> distinct (map cl_id c) \<and> list_all (line_ok stock) c"

lemma cart_ok_map:
  "cart_ok stock c \<Longrightarrow> (\<And>l. l \<in> set c \<Longrightarrow> cl_id (f l) = cl_id l \<and> line_ok stock (f l)) \<Longrightarrow> cart_ok stock (map f c)"
proof -
  assume a: "cart_ok stock c" "\<And>l. l \<in> set c \<Longrightarrow> cl_id (f l) = cl_id l \<and> line_ok stock (f l)"
  then have "map cl_id (map f c) = map cl_id c" by simp
  then show ?thesis using a unfolding cart_ok_def by (simp only: list_all_iff set_map ball_simps) blast
qed

lemma add_ok:
  assumes "cart_ok stock c" "cl_stock p = stock (cl_id p)" "1 \<le> n" "n \<le> cl_stock p"
  shows "cart_ok stock (addToCart p n c)"
proof (cases "list_ex (\<lambda>i. cl_id i = cl_id p) c")
  case True
  have "cart_ok stock (map (\<lambda>i. if cl_id i = cl_id p then i\<lparr>cl_quantity := min (cl_quantity i + n) (cl_stock p)\<rparr> else i) c)"
    by (rule cart_ok_map [OF assms(1)]) (use assms in \<open>auto simp: cart_ok_def list_all_iff line_ok_def\<close>)
  with True show ?thesis by (simp add: addToCart_def)
next
  case False
  then show ?thesis using assms by (auto simp: addToCart_def cart_ok_def line_ok_def list_ex_iff)
qed

lemma remove_ok: "cart_ok stock c \<Longrightarrow> cart_ok stock (removeFromCart i c)"
  by (auto simp: cart_ok_def removeFromCart_def list_all_iff intro: distinct_map_filter)

lemma update_ok: "cart_ok stock c \<Longrightarrow> n \<le> stock i \<Longrightarrow> cart_ok stock (updateQuantity i n c)"
  unfolding updateQuantity_def
  by (auto simp: remove_ok intro!: cart_ok_map) (auto simp: cart_ok_def list_all_iff line_ok_def)

lemma step_cart_ok: "cart_step stock c d \<Longrightarrow> cart_ok stock c \<Longrightarrow> cart_ok stock d"
proof (induction rule: cart_step.induct)
  case (minus l c)
  then show ?case by (intro update_ok) (auto simp: cart_ok_def list_all_iff line_ok_def)
next
  case (plus l c)
  then show ?case by (intro update_ok) (auto simp: cart_ok_def list_all_iff line_ok_def)
qed (auto simp: add_ok remove_ok, simp add: cart_ok_def)

lemma reach_cart_ok: "cart_reach stock c \<Longrightarrow> cart_ok stock c"
  by (induction rule: cart_reach.induct) (auto simp: step_cart_ok, simp add: cart_ok_def)


definition keyboard_line :: line where
  "keyboard_line = \<lparr>cl_id = ''4'', cl_name = ''Keyboard'', cl_price = fl (7499 / 100), cl_image = ''k.png'', cl_stock = 3, cl_quantity = 0\<rparr>"


section \<open>An order the backend takes\<close>

text \<open>What the backend makes of a line.\<close>

definition sent_line :: "line \<Rightarrow> item" where
  "sent_line l = \<lparr>it_product = Some (cl_id l), it_name = JStr (trimmed_or (JStr (cl_name l)) ''Item''), it_price = nmax (nint 0) (cl_price l),
     it_quantity = nint (cl_quantity l), it_image = Some (cl_image l)\<rparr>"

lemma no_index: "index_key ''productId'' = None" "index_key ''name'' = None" "index_key ''price'' = None" "index_key ''quantity'' = None"
    "index_key ''image'' = None" "index_key ''items'' = None" "index_key ''shippingAddress'' = None" "index_key ''paymentMethod'' = None"
  by code_simp+

lemma order_line_tree:
  "nis_finite (cl_price l) \<Longrightarrow> json_tree (order_line (order_item l)) = JObj [(''productId'', JStr (cl_id l)), (''name'', JStr (cl_name l)),
     (''price'', JNum (cl_price l)), (''quantity'', jint (cl_quantity l)), (''image'', JStr (cl_image l))]"
  by (simp add: order_line_def order_item_def jget_Cons index_sorted_def no_index nis_finite_def)

lemma line_accepted:
  assumes "nis_finite (cl_price l)" "1 \<le> cl_quantity l" "cl_quantity l \<le> 99"
  shows "normalize_item (json_tree (order_line (order_item l))) = Some (sent_line l)"
  using assms by (cases "cl_price l") (auto simp: order_line_tree normalize_item_def jand_def jget_Cons nullish_def sent_line_def Let_def nis_finite_def)

lemma line_refused: "99 < cl_quantity l \<Longrightarrow> nis_finite (cl_price l) \<Longrightarrow> normalize_item (json_tree (order_line (order_item l))) = None"
  by (simp add: order_line_tree normalize_item_def jand_def jget_Cons)

section \<open>The total shown is the total charged\<close>

text \<open>Rounding moves a number by no more than the grid it lies in.\<close>

lemma fl_near:
  assumes "0 \<le> y" "y * 2 ^ k + 1 < 2 ^ 53" "k \<le> 1000"
  obtains z where "fl y = Fin z" "\<bar>z - y\<bar> \<le> 1 / 2 ^ k" "0 \<le> z"
proof -
  define i where "i = \<lfloor>y * 2 ^ k\<rfloor>"
  have i: "0 \<le> i" "of_int i \<le> y * 2 ^ k" "y * 2 ^ k < of_int i + 1"
    unfolding i_def using assms(1) by (simp, linarith, linarith)
  have "(of_int (i + 1) :: rat) < of_int (2 ^ 53)" using i(2) assms(2) by simp
  then have b: "i + 1 < 2 ^ 53" by (simp only: of_int_less_iff)
  have lo: "fl (of_int i / 2 ^ k) = Fin (of_int i / 2 ^ k)"
  proof (cases "i = 0")
    case False
    then show ?thesis using i(1) b assms(3) by (intro fl_dyadic) auto
  qed simp
  have hi: "fl (of_int (i + 1) / 2 ^ k) = Fin (of_int (i + 1) / 2 ^ k)" using i(1) b assms(3) by (intro fl_dyadic) auto
  have "of_int i / 2 ^ k \<le> y" "y \<le> of_int (i + 1) / 2 ^ k" using i(2,3) by (simp_all add: field_simps)
  from fl_mono [OF this(1)] fl_mono [OF this(2)] have m: "nle (Fin (of_int i / 2 ^ k)) (fl y)" "nle (fl y) (Fin (of_int (i + 1) / 2 ^ k))"
    by (simp_all only: lo hi)
  then obtain z where z: "fl y = Fin z" by (cases "fl y") auto
  then have zz: "of_int i / 2 ^ k \<le> z" "z \<le> of_int (i + 1) / 2 ^ k" using m by simp_all
  have d: "of_int (i + 1) / 2 ^ k = of_int i / 2 ^ k + 1 / (2 ^ k :: rat)" by (simp add: add_divide_distrib)
  have "\<bar>z - y\<bar> \<le> 1 / 2 ^ k" using zz \<open>of_int i / 2 ^ k \<le> y\<close> \<open>y \<le> of_int (i + 1) / 2 ^ k\<close> unfolding d by linarith
  moreover have "0 \<le> z" using zz(1) i(1) by (meson divide_nonneg_nonneg of_int_0_le_iff order_trans zero_le_numeral zero_le_power)
  ultimately show thesis using z by (rule that [rotated])
qed

text \<open>Both ways of rounding to cents agree away from the middle between two cents.\<close>

lemma cents_agree:
  assumes "0 \<le> t" "t \<le> 2 ^ 25" "\<bar>t * 100 - of_int k\<bar> \<le> 49 / 100"
  shows "to_cents (Fin t) = fl (of_int k / 100)" "cents (Fin t) = fl (of_int k / 100)"
proof -
  have "of_int k \<le> t * 100 + 1 / 2" "t * 100 + 1 / 2 < of_int k + 1" using assms(3) by linarith+
  then have "\<lfloor>t * 100 + 1 / 2\<rfloor> = k" by (simp only: floor_eq_iff)
  then show "to_cents (Fin t) = fl (of_int k / 100)" using assms(1) by (simp add: to_cents_def)
  have "t * 100 * 2 ^ 20 + 1 < (2 ^ 53 :: rat)" using assms(2) by simp
  then obtain z where z: "fl (t * 100) = Fin z" "\<bar>z - t * 100\<bar> \<le> 1 / 2 ^ 20"
    using fl_near [of "t * 100" 20] assms(1) by auto
  have "(1 / 2 ^ 20 :: rat) < 1 / 100" by simp
  then have "of_int k \<le> z + 1 / 2" "z + 1 / 2 < of_int k + 1" using z(2) assms(3) by linarith+
  then have "\<lfloor>z + 1 / 2\<rfloor> = k" by (simp only: floor_eq_iff)
  then show "cents (Fin t) = fl (of_int k / 100)" using z(1) by (simp add: cents_def)
qed

lemma eight_percent: obtains e where "fl (8 / 100) = Fin e" "\<bar>e - 8 / 100\<bar> \<le> 1 / 2 ^ 55" "0 \<le> e"
  by (rule fl_near [of "8 / 100" 55]) simp_all

lemma tax_middle: "\<exists>k::int. \<bar>8 * of_int c / 100 - of_int k\<bar> \<le> (48 / 100 :: rat) \<and> (0 \<le> c \<longrightarrow> 0 \<le> k) \<and> (0 \<le> c \<longrightarrow> k \<le> c)"
proof -
  define r where "r = 8 * c mod 100" define q where "q = 8 * c div 100"
  have e: "8 * c = 100 * q + r" "0 \<le> r" "r < 100"
    unfolding r_def q_def by (rule mult_div_mod_eq [symmetric], simp_all)
  have "4 dvd r" unfolding r_def by (simp add: dvd_mod)
  then have r: "r \<le> 48 \<or> 52 \<le> r" using e(2,3) by presburger
  define k where "k = (if r \<le> 48 then q else q + 1)"
  have "\<bar>8 * c - 100 * k\<bar> \<le> 48" using e r by (auto simp: k_def)
  then have "\<bar>of_int (8 * c - 100 * k) :: rat\<bar> \<le> 48" by linarith
  then have "\<bar>8 * of_int c / 100 - of_int k\<bar> \<le> (48 / 100 :: rat)" by (simp add: field_simps abs_le_iff)
  moreover have "0 \<le> c \<longrightarrow> 0 \<le> k" using e by (auto simp: k_def)
  moreover have "0 \<le> c \<longrightarrow> k \<le> c" using e r by (auto simp: k_def)
  ultimately show ?thesis by blast
qed

lemma cents_bound: "0 \<le> c \<Longrightarrow> c \<le> 1000000000 \<Longrightarrow> (0 :: rat) \<le> of_int c \<and> of_int c \<le> (1000000000 :: rat)"
proof -
  assume "0 \<le> c" "c \<le> 1000000000"
  then have "(of_int 0 :: rat) \<le> of_int c \<and> of_int c \<le> (of_int 1000000000 :: rat)" by (simp only: of_int_le_iff)
  then show ?thesis by simp
qed

lemma tax_agrees:
  assumes "0 \<le> x" "0 \<le> c" "c \<le> 1000000000" "\<bar>x - of_int c / 100\<bar> \<le> 1 / 1000"
  obtains k :: int where "shown_tax (Fin x) = fl (of_int k / 100)" "cents (nmul (Fin x) (fl (8 / 100))) = fl (of_int k / 100)" "0 \<le> k" "k \<le> c"
proof -
  obtain e where e: "fl (8 / 100) = Fin e" "\<bar>e - 8 / 100\<bar> \<le> 1 / 2 ^ 55" "0 \<le> e" by (rule eight_percent)
  obtain k where k: "\<bar>8 * of_int c / 100 - of_int k\<bar> \<le> (48 / 100 :: rat)" "0 \<le> k" "k \<le> c" using tax_middle [of c] assms(2) by auto
  note c = cents_bound [OF assms(2,3)]
  have x: "x \<le> 10000001" using c assms(4) by linarith
  have "\<bar>x * e - x * (8 / 100)\<bar> = x * \<bar>e - 8 / 100\<bar>" by (simp only: right_diff_distrib [symmetric] abs_mult abs_of_nonneg [OF assms(1)])
  also have "\<dots> \<le> 10000001 * (1 / 2 ^ 55)" using x e(2) by (rule mult_mono) simp_all
  also have "\<dots> \<le> 1 / 1000000" by simp
  finally have ex: "\<bar>x * e - x * (8 / 100)\<bar> \<le> 1 / 1000000" .
  have y: "0 \<le> x * e" "x * e \<le> 1000000" using assms(1) e(3) ex x by (simp, linarith)
  have "x * e * 2 ^ 20 + 1 < (2 ^ 53 :: rat)" using y(2) by simp
  then obtain t where t: "fl (x * e) = Fin t" "\<bar>t - x * e\<bar> \<le> 1 / 2 ^ 20" "0 \<le> t" using fl_near [of "x * e" 20] y(1) by auto
  have t2: "\<bar>t - x * e\<bar> \<le> 1 / 1000000" using t(2) by (rule order_trans) simp
  have "\<bar>t * 100 - of_int k\<bar> \<le> 49 / 100" using t2 ex assms(4) k(1) by linarith
  moreover have "t \<le> 33554432" using t2 y by linarith
  ultimately show thesis using t e k(2,3) cents_agree [of t k] by (intro that [of k]) (simp_all add: shown_tax_def)
qed

text \<open>Both totals, from a subtotal that is a number of cents up to a tenth of a cent.\<close>

lemma totals_agree:
  assumes "0 \<le> x" "0 \<le> c" "c \<le> 1000000000" "\<bar>x - of_int c / 100\<bar> \<le> 1 / 1000" "subtotal its = Fin x"
  shows "order_total its = shown_total (Fin x)"
proof -
  obtain k :: int where k: "shown_tax (Fin x) = fl (of_int k / 100)" "cents (nmul (Fin x) (fl (8 / 100))) = fl (of_int k / 100)" "0 \<le> k" "k \<le> c"
    by (rule tax_agrees [OF assms(1-4)])
  note c = cents_bound [OF assms(2,3)] and kb = cents_bound [of k]
  have x: "x \<le> 10000001" using c assms(4) by linarith
  define h :: int where "h = (if nle (nint 50) (Fin x) then 0 else 599)"
  have h: "shown_shipping (Fin x) = fl (of_int h / 100)" by (simp add: shown_shipping_def h_def)
  have h2: "(if nle (nint 50) (Fin x) then nint 0 else fl (599 / 100)) = fl (of_int h / 100)" by (simp add: h_def)
  have hb: "0 \<le> h" "h \<le> 599" by (simp_all add: h_def)
  obtain a where a: "fl (of_int h / 100) = Fin a" "\<bar>a - of_int h / 100\<bar> \<le> 1 / 2 ^ 20" "0 \<le> a"
    using fl_near [of "of_int h / 100" 20] hb by (auto simp: h_def)
  have kq: "(0 :: rat) \<le> of_int k" "of_int k \<le> (1000000000 :: rat)" using kb k(3,4) assms(3) by auto
  obtain b where b: "fl (of_int k / 100) = Fin b" "\<bar>b - of_int k / 100\<bar> \<le> 1 / 2 ^ 20" "0 \<le> b"
    using fl_near [of "of_int k / 100" 20] kq by auto
  have ab: "\<bar>a - of_int h / 100\<bar> \<le> 1 / 1000000" "\<bar>b - of_int k / 100\<bar> \<le> 1 / 1000000"
    by (rule order_trans [OF a(2)], simp, rule order_trans [OF b(2)], simp)
  have hq: "(0 :: rat) \<le> of_int h" "of_int h \<le> (599 :: rat)" by (simp_all add: h_def)
  have s: "x + a \<le> 10000010" using x ab(1) hq by linarith
  have "(x + a) * 2 ^ 20 + 1 < (2 ^ 53 :: rat)" using s by simp
  then obtain u where u: "fl (x + a) = Fin u" "\<bar>u - (x + a)\<bar> \<le> 1 / 2 ^ 20" "0 \<le> u"
    using fl_near [of "x + a" 20] assms(1) a(3) by auto
  have u2: "\<bar>u - (x + a)\<bar> \<le> 1 / 1000000" using u(2) by (rule order_trans) simp
  have v: "u + b \<le> 20000100" using u2 s ab(2) kq by linarith
  have "(u + b) * 2 ^ 20 + 1 < (2 ^ 53 :: rat)" using v by simp
  then obtain t where t: "fl (u + b) = Fin t" "\<bar>t - (u + b)\<bar> \<le> 1 / 2 ^ 20" "0 \<le> t"
    using fl_near [of "u + b" 20] u(3) b(3) by auto
  have t2: "\<bar>t - (u + b)\<bar> \<le> 1 / 1000000" using t(2) by (rule order_trans) simp
  have "\<bar>t * 100 - of_int (c + h + k)\<bar> \<le> 49 / 100" unfolding of_int_add using t2 u2 ab assms(4) by linarith
  moreover have "t \<le> 33554432" using t2 v by linarith
  ultimately have "to_cents (Fin t) = cents (Fin t)" using cents_agree [of t "c + h + k"] t(3) by simp
  moreover have "shown_total (Fin x) = to_cents (Fin t)" by (simp add: shown_total_def h k(1) a(1) b(1) u(1) t(1))
  moreover have "order_total its = cents (Fin t)"
    unfolding order_total_def Let_def assms(5) k(2) h2 by (simp add: a(1) b(1) u(1) t(1))
  ultimately show ?thesis by simp
qed

lemma sent_subtotal:
  assumes "list_all (\<lambda>l. nis_finite (cl_price l) \<and> nle (Fin 0) (cl_price l)) cart"
  shows "subtotal (map sent_line cart) = cart_subtotal cart"
proof -
  have p: "nmax (Fin 0) (cl_price l) = cl_price l" if "nis_finite (cl_price l)" "nle (Fin 0) (cl_price l)" for l
    using that by (cases "cl_price l") (auto simp: nis_finite_def max_def)
  have "fold (\<lambda>it s. nadd s (nmul (it_price it) (it_quantity it))) (map sent_line cart) s =
      foldl (\<lambda>sum l. nadd sum (nmul (cl_price l) (nint (cl_quantity l)))) s cart" for s
    using assms by (induction cart arbitrary: s) (simp_all add: sent_line_def p)
  then show ?thesis by (simp add: subtotal_def cart_subtotal_def)
qed

lemma sent_items:
  assumes "list_all (\<lambda>l. nis_finite (cl_price l) \<and> cl_quantity l \<le> 99) cart" "cart_ok stock cart" "place_order f address cart = Some body"
  shows "jget body ''items'' = JArr (map (\<lambda>l. json_tree (order_line (order_item l))) cart) \<and>
    map normalize_item (map (\<lambda>l. json_tree (order_line (order_item l))) cart) = map (\<lambda>l. Some (sent_line l)) cart"
proof -
  have "order_line i \<noteq> JUndef" for i by (simp add: order_line_def)
  then have "json_tree (JArr (map order_line (map order_item cart))) = JArr (map (\<lambda>l. json_tree (order_line (order_item l))) cart)" by simp
  then have "jget (json_tree (order_body (map order_item cart) address (ck_method f))) ''items'' = JArr (map (\<lambda>l. json_tree (order_line (order_item l))) cart)"
    by (simp add: order_body_def index_sorted_def no_index jget_Cons del: map_map)
  then have "jget body ''items'' = JArr (map (\<lambda>l. json_tree (order_line (order_item l))) cart)"
    using assms(3) by (auto simp: place_order_def split: if_splits)
  moreover have "normalize_item (json_tree (order_line (order_item l))) = Some (sent_line l)" if "l \<in> set cart" for l
    by (rule line_accepted) (use that assms(1,2) in \<open>auto simp: list_all_iff cart_ok_def line_ok_def\<close>)
  ultimately show ?thesis by simp
qed

text \<open>Property C16. What the checkout page shows is what the backend takes and charges: an order placed from a
  reachable cart of at most 99 of each product is sent line by line, the backend accepts every line with
  its product, quantity and price, and as long as its prices are those of the cart, the total it computes
  is to the cent the one shown, although the two round differently.\<close>

theorem checkout_is_charged_as_shown:
  assumes "cart_reach stock cart" "place_order f address cart = Some body"
    and "list_all (\<lambda>l. nis_finite (cl_price l) \<and> nle (Fin 0) (cl_price l) \<and> cl_quantity l \<le> 99) cart"
    and "cart_subtotal cart = Fin x" "0 \<le> x" "0 \<le> c" "c \<le> 1000000000" "\<bar>x - of_int c / 100\<bar> \<le> 1 / 1000"
  shows "(case jget body ''items'' of JArr raws \<Rightarrow> map normalize_item raws = map (\<lambda>l. Some (sent_line l)) cart | _ \<Rightarrow> False) \<and>
    order_total (map sent_line cart) = shown_total (cart_subtotal cart)"
proof -
  have a: "list_all (\<lambda>l. nis_finite (cl_price l) \<and> nle (Fin 0) (cl_price l)) cart" "list_all (\<lambda>l. nis_finite (cl_price l) \<and> cl_quantity l \<le> 99) cart"
    using assms(3) by (auto simp: list_all_iff)
  note i = sent_items [OF a(2) reach_cart_ok [OF assms(1)] assms(2)]
  have "subtotal (map sent_line cart) = Fin x" using sent_subtotal [OF a(1)] assms(4) by simp
  from totals_agree [OF assms(5-8) this] i assms(4) show ?thesis by simp
qed

definition headphones :: line where
  "headphones = \<lparr>cl_id = ''12'', cl_name = ''Headphones'', cl_price = nint 149, cl_image = ''h.png'', cl_stock = 8, cl_quantity = 0\<rparr>"

definition filled_form :: checkout_form where
  "filled_form = \<lparr>ck_name = ''Jane'', ck_street = ''1 Elm'', ck_city = ''Leeds'', ck_state = ''WY'', ck_zip = ''LS1'', ck_method = ''paypal'',
     ck_number = [], ck_expiry = [], ck_cvv = []\<rparr>"

theorem checkout_is_charged_as_shown_witness:
  "let cart = addToCart headphones 2 [] in
     order_total (map sent_line cart) = shown_total (nint 298) \<and> map (\<lambda>l. it_quantity (sent_line l)) cart = [Fin 2]"
proof -
  let ?cart = "addToCart headphones 2 []"
  have r: "cart_reach (\<lambda>i. 8) ?cart" by (rule next_cart [OF empty page_adds]) (simp_all add: headphones_def)
  have f: "place_order filled_form JNull ?cart = Some (json_tree (order_body (map order_item ?cart) JNull (ck_method filled_form)))"
  proof -
    have "form_errors filled_form = []" by code_simp
    then show ?thesis by (simp only: place_order_def simp_thms if_False)
  qed
  have l: "list_all (\<lambda>l. nis_finite (cl_price l) \<and> nle (Fin 0) (cl_price l) \<and> cl_quantity l \<le> 99) ?cart"
    by (simp add: addToCart_def headphones_def nis_finite_def)
  have "nmul (nint 149) (nint 2) = nint 298" using fl_int [of 298] by simp
  moreover have "nadd (Fin 0) (nint 298) = nint 298" using nadd_int [of 0 298] by simp
  ultimately have s: "cart_subtotal ?cart = Fin 298" by (simp add: cart_subtotal_def addToCart_def headphones_def)
  from checkout_is_charged_as_shown [OF r f l s, of 29800] show ?thesis
    unfolding s Let_def by (simp add: addToCart_def headphones_def sent_line_def)
qed

section \<open>The session and the storage\<close>

definition session_ok :: "front \<Rightarrow> bool" where
  "session_ok s \<longleftrightarrow> (truthy (fr_user s) \<longrightarrow> getItem (fr_store s) ''sf_token'' \<noteq> [] \<and> getItem (fr_store s) ''sf_user'' \<noteq> [])"

lemma getItem_sign_out [simp]: "getItem (sign_out st) k = (if k \<in> {''sf_token'', ''sf_user''} then [] else getItem st k)"
  by (simp add: sign_out_def getItem_def)

lemma getItem_dput [simp]: "getItem (dput k v st) x = (if x = k then v else getItem st x)"
  by (simp add: getItem_def)

lemma first_render_ok: "session_ok (first_render parse st)"
  by (auto simp: session_ok_def first_render_def)

lemma btoa_not_Nil: "t \<noteq> [] \<Longrightarrow> btoa t \<noteq> []"
  by (induction t rule: btoa.induct) (auto simp: Let_def)

lemma step_session_ok:
  assumes "\<And>d. stringify (JObj d) \<noteq> []"
  shows "front_step parse stringify s t \<Longrightarrow> session_ok s \<Longrightarrow> session_ok t"
proof (induction rule: front_step.induct)
  case (logs_in r health user token s)
  then have "token \<noteq> []" "\<exists>d. user = JObj d"
    by (auto simp: login_answer_def normalizeBackendUser_def Let_def split: net.splits option.splits if_splits)
  then show ?case using assms by (auto simp: session_ok_def signed_in_def)
next
  case (registers name email now users user token users' s)
  then have u: "user = registered name email now" "token = btoa (to_str (jget user ''_id''))"
    by (auto simp: register_def makeToken_def Let_def split: if_splits)
  have "to_str (jget user ''_id'') \<noteq> []" by (simp add: u(1) registered_def jget_Cons)
  then have "token \<noteq> []" by (simp add: u(2) btoa_not_Nil)
  then show ?case using assms by (simp add: session_ok_def signed_in_def u(1) registered_def)
next
  case (calls_api r s)
  then show ?case by (auto simp: session_ok_def called_def api_answer_def split: net.splits if_splits option.splits)
qed (simp_all add: first_render_ok, simp_all add: session_ok_def logout_def setApiMode_def)

text \<open>Property C21. The session follows the browser's storage: whenever the page has somebody signed in, the token
  and the user are stored; after an answer 401 to any call, as after signing out, nobody is, nothing is
  stored, the next request carries no token, and a protected page leads to the login.\<close>

theorem session_follows_storage:
  assumes "\<And>d. stringify (JObj d) \<noteq> []" "front_reach parse stringify s"
  shows "(\<not> truthy (fr_user s) \<or> getItem (fr_store s) ''sf_token'' \<noteq> [] \<and> getItem (fr_store s) ''sf_user'' \<noteq> []) \<and>
    list_all (\<lambda>t. protected_route t path = Some (''/login'', path) \<and> rq_auth (api_request env (fr_store t) p mth b) = None \<and>
      getItem (fr_store t) ''sf_user'' = []) [called parse (Answered 401 body) s, logout s]"
proof -
  have "session_ok s" using assms(2)
    by (induction rule: front_reach.induct) (simp_all add: first_render_ok step_session_ok [where stringify = stringify, OF assms(1)])
  then show ?thesis
    by (simp add: session_ok_def called_def api_answer_def logout_def protected_route_def api_request_def)
qed

definition demo_answer :: net where
  "demo_answer = Answered 200 ''login''"

definition demo_parse :: "string \<Rightarrow> jval option" where
  "demo_parse t = Some (if t = ''login'' then JObj [(''user'', JObj [(''id'', jint 7), (''email'', JStr ''jane@example.com''), (''role'', JStr ''user'')]),
     (''token'', JStr ''a.b.c'')] else JObj [(''email'', JStr ''jane@example.com'')])"

theorem session_follows_storage_witness:
  "let s = signed_in (\<lambda>v. ''user'') (normalizeBackendUser (JObj [(''id'', jint 7), (''email'', JStr ''jane@example.com''), (''role'', JStr ''user'')])) ''a.b.c'' (first_render demo_parse []) in
     getItem (fr_store s) ''sf_token'' = ''a.b.c'' \<and> rq_auth (api_request demo_env (fr_store s) ''/api/orders'' ''GET'' None) = Some ''Bearer a.b.c'' \<and>
     rq_auth (api_request demo_env (fr_store (called demo_parse (Answered 401 []) s)) ''/api/orders'' ''GET'' None) = None"
proof -
  let ?u = "normalizeBackendUser (JObj [(''id'', jint 7), (''email'', JStr ''jane@example.com''), (''role'', JStr ''user'')])"
  let ?s = "signed_in (\<lambda>v. ''user'') ?u ''a.b.c'' (first_render demo_parse [])"
  have "login_answer demo_parse demo_answer Unreachable = Inr (?u, JStr ''a.b.c'')"
    by (simp add: login_answer_def demo_answer_def demo_parse_def net_ok_def jget_Cons)
  then have r: "front_reach demo_parse (\<lambda>v. ''user'') ?s" by (rule next_step [OF opens logs_in])
  from session_follows_storage [OF _ r, of path demo_env "''/api/orders''" "''GET''" None "[]"]
  have "rq_auth (api_request demo_env (fr_store (called demo_parse (Answered 401 []) ?s)) ''/api/orders'' ''GET'' None) = None" by simp
  moreover have "getItem (fr_store ?s) ''sf_token'' = ''a.b.c''" by (simp add: signed_in_def)
  ultimately show ?thesis by (simp add: Let_def api_request_def)
qed

section \<open>From the login to an order\<close>

text \<open>A part of a token: no dot and no white space.\<close>

definition token_part :: "string \<Rightarrow> bool" where
  "token_part w \<longleftrightarrow> CHR ''.'' \<notin> set w \<and> list_all (\<lambda>c. \<not> is_space c) w"

lemma dot_no_space: "\<not> is_space (CHR ''.'')"
  by code_simp

lemma bearer_token: "t \<noteq> [] \<Longrightarrow> list_all (\<lambda>c. \<not> is_space c) t \<Longrightarrow> bearer (''Bearer '' @ t) = Some t"
proof -
  assume t: "t \<noteq> []" "list_all (\<lambda>c. \<not> is_space c) t"
  have sp: "is_space (CHR '' '')" by code_simp
  have "dropWhile is_space t = t" using t by (cases t) simp_all
  moreover have "\<exists>x\<in>set t. \<not> is_space x" using t by (cases t) simp_all
  ultimately show ?thesis using t sp by (simp add: bearer_def Let_def)
qed

lemma issued_token:
  assumes "token_part (encode token_header)" "token_part (encode (token_claims user n))" "token_part (hmac key (encode token_header @ ''.'' @ encode (token_claims user n)))"
  shows "looksLikeAJwt (issueToken hmac encode user n key)" "bearer (''Bearer '' @ issueToken hmac encode user n key) = Some (issueToken hmac encode user n key)"
proof -
  show "looksLikeAJwt (issueToken hmac encode user n key)"
    using assms by (simp add: looksLikeAJwt_def issueToken_def token_part_def split_on_append split_on_single)
  show "bearer (''Bearer '' @ issueToken hmac encode user n key) = Some (issueToken hmac encode user n key)"
    by (rule bearer_token) (use assms in \<open>simp_all add: issueToken_def token_part_def dot_no_space\<close>)
qed

definition login_body :: "jval \<Rightarrow> string \<Rightarrow> jval" where
  "login_body user token = JObj [(''success'', JBool True), (''message'', JStr ''Login successful!''), (''user'', user), (''token'', JStr token)]"

text \<open>Property C19. A login reaches through to the orders: the storefront takes the body of the backend's login
  route, the session it stores survives a reload of the page, and the header of the next request names
  to the backend exactly the user who logged in, for the hour the token is good for.\<close>

theorem login_reaches_the_backend:
  assumes "list_all (\<lambda>v. decode (encode v) = Some v \<and> token_part (encode v)) [token_header, token_claims user (nint t)]"
    and "token_part (hmac (secret env) (encode token_header @ ''.'' @ encode (token_claims user (nint t))))"
    and "0 \<le> t" "t \<le> 8640000000000000" "user = JObj d" "jget user ''id'' = jint (int i)" "0 < i" "i < 2 ^ 53"
    and "parse body = Some (login_body user (issueToken hmac encode user (nint t) (secret env)))"
    and "parse (stringify (normalizeBackendUser user)) = Some v" "stringify (normalizeBackendUser user) \<noteq> []" "body \<noteq> []"
  shows "login_answer parse (Answered 200 body) health = Inr (normalizeBackendUser user, JStr (issueToken hmac encode user (nint t) (secret env))) \<and>
    (let s' = first_render parse (fr_store (signed_in stringify (normalizeBackendUser user) (issueToken hmac encode user (nint t) (secret env)) s)) in
       fr_user s' = v \<and>
       (case rq_auth (api_request env' (fr_store s') path mth b) of None \<Rightarrow> False
        | Some auth \<Rightarrow> callerFrom hmac decode env (nint now) auth = (if now < (t div 1000 + 3600) * 1000 then Some (nint (int i), jget user ''role'') else None)))"
proof -
  let ?t = "issueToken hmac encode user (nint t) (secret env)"
  have tp: "token_part (encode token_header)" "token_part (encode (token_claims user (nint t)))" using assms(1) by simp_all
  note tok = issued_token [where encode = encode and hmac = hmac, OF tp assms(2)]
  have ne: "?t \<noteq> []" by (simp add: issueToken_def)
  have l: "login_answer parse (Answered 200 body) health = Inr (normalizeBackendUser user, JStr ?t)"
    using ne assms(5,9,12) by (simp add: login_answer_def net_ok_def login_body_def jget_Cons split: option.splits)
  have dec: "list_all (\<lambda>v. decode (encode v) = Some v \<and> CHR ''.'' \<notin> set (encode v)) [token_header, token_claims user (nint t)]"
    "CHR ''.'' \<notin> set (hmac (secret env) (encode token_header @ ''.'' @ encode (token_claims user (nint t))))"
    using assms(1,2) by (simp_all add: token_part_def)
  have v: "verifyToken hmac decode ?t (nint now) (secret env) = (if now < (t div 1000 + 3600) * 1000 then Some (token_claims user (nint t)) else None)"
    using verify_issued [where encode = encode and decode = decode and hmac = hmac, OF dec assms(3,4), of now "secret env"] by simp
  have c: "claims_caller (token_claims user (nint t)) = Some (nint (int i), jget user ''role'')"
    using number_of_text [OF assms(8)] assms(7) unfolding issued_claims [OF assms(3,4)]
    using nis_int_Fin [of "int i"] by (simp add: claims_caller_def Let_def jget_Cons to_num_def assms(6))
  have "callerFrom hmac decode env (nint now) (''Bearer '' @ ?t) =
      (if now < (t div 1000 + 3600) * 1000 then Some (nint (int i), jget user ''role'') else None)"
    by (simp only: callerFrom_def tok(2) option.case v) (simp add: c)
  with l show ?thesis using tok(1) ne assms(10,11)
    by (simp add: signed_in_def first_render_def api_request_def Let_def)
qed

definition shop_user :: jval where
  "shop_user = JObj [(''id'', jint 7), (''email'', JStr ''jane@example.com''), (''role'', JStr ''user'')]"

definition shop_encode :: "jval \<Rightarrow> string" where
  "shop_encode v = (if v = token_header then ''header'' else ''claims'')"

definition shop_decode :: "string \<Rightarrow> jval option" where
  "shop_decode t = Some (if t = ''header'' then token_header else token_claims shop_user (nint 1700000000123))"

definition shop_token :: string where
  "shop_token = issueToken (\<lambda>k m. ''sig'') shop_encode shop_user (nint 1700000000123) (secret demo_env)"

definition shop_parse :: "string \<Rightarrow> jval option" where
  "shop_parse t = Some (if t = ''body'' then login_body shop_user shop_token else normalizeBackendUser shop_user)"

theorem login_reaches_the_backend_witness:
  "login_answer shop_parse (Answered 200 ''body'') Unreachable = Inr (normalizeBackendUser shop_user, JStr shop_token) \<and>
   callerFrom (\<lambda>k m. ''sig'') shop_decode demo_env (nint 1700000060000) (''Bearer '' @ shop_token) = Some (nint 7, JStr ''user'')"
proof -
  have c: "token_claims shop_user (nint 1700000000123) \<noteq> token_header"
    by (subst issued_claims) (simp_all add: token_header_def)
  have h: "token_part ''header''" "token_part ''claims''" by code_simp+
  have p: "list_all (\<lambda>v. shop_decode (shop_encode v) = Some v \<and> token_part (shop_encode v)) [token_header, token_claims shop_user (nint 1700000000123)]"
    using c h by (simp add: shop_encode_def shop_decode_def)
  have q: "token_part ''sig''" by code_simp
  have u: "shop_user = JObj [(''id'', jint 7), (''email'', JStr ''jane@example.com''), (''role'', JStr ''user'')]" by (rule shop_user_def)
  have i: "jget shop_user ''id'' = jint (int 7)" "jget shop_user ''role'' = JStr ''user''" by (simp_all add: shop_user_def jget_Cons)
  have b: "shop_parse ''body'' = Some (login_body shop_user (issueToken (\<lambda>k m. ''sig'') shop_encode shop_user (nint 1700000000123) (secret demo_env)))"
    by (simp add: shop_parse_def shop_token_def)
  have n: "shop_parse ((\<lambda>v. ''user'') (normalizeBackendUser shop_user)) = Some (normalizeBackendUser shop_user)" by (simp add: shop_parse_def)
  note r = login_reaches_the_backend [where encode = shop_encode and decode = shop_decode and hmac = "\<lambda>k m. ''sig''" and env = demo_env and stringify = "\<lambda>v. ''user''"
      and parse = shop_parse and s = "\<lparr>fr_store = [], fr_user = JNull\<rparr>" and health = Unreachable and now = 1700000060000, OF p q _ _ u i(1) _ _ b n]
  have t: "shop_token \<noteq> []" by (simp add: shop_token_def issueToken_def)
  have j: "looksLikeAJwt shop_token" unfolding shop_token_def
    by (rule issued_token(1)) (use p q in simp_all)
  have a: "rq_auth (api_request env' (fr_store (first_render shop_parse (fr_store (signed_in (\<lambda>v. ''user'') u shop_token s)))) path mth b) = Some (''Bearer '' @ shop_token)"
    for u s env' path mth b using t j by (simp add: first_render_def signed_in_def api_request_def shop_parse_def Let_def)
  show ?thesis using r [folded shop_token_def] unfolding Let_def a option.case i(2)
    by (simp del: append.simps add: q)
qed

text \<open>An account registered on the page is signed out by the next reload: its token is no signed one.\<close>

lemma registration_lost_on_reload:
  assumes "register name email now users = Inr ((user, token), users')"
  shows "fr_user (first_render parse (fr_store (signed_in stringify user token s))) = JNull"
proof -
  have "token = btoa (to_str (jget user ''_id''))" using assms by (auto simp: register_def makeToken_def Let_def split: if_splits)
  then have "\<not> looksLikeAJwt token" using btoa_no_dot [of "to_str (jget user ''_id'')"] by (simp add: looksLikeAJwt_def split_on_single)
  then show ?thesis by (simp add: first_render_def signed_in_def)
qed

end
