(* ===== verification/ProtectionPage.thy ===== *)
theory ProtectionPage
  imports RoutesAdmin AdaptivePage
begin

text \<open>
  The protection page, \<open>app/(console)/settings/page.jsx\<close>: the draft of the live settings, the switches and
  boxes that change it, the dialogs, and the requests to \<open>api/settings\<close>, with the look six seconds later
  at what the gateway made of a change. Requests and timers under way form a list; a step starts one or
  ends one. The controls are data: a switch, a verdict, the arming of a detector, and the boxes for numbers, texts and lists.
\<close>

section \<open>Detectors\<close>

record detector =
  dt_section :: string
  dt_name :: string
  dt_signal :: string
  dt_block :: "string option"

definition DETECTORS :: "detector list" where
  "DETECTORS = map (\<lambda>(a, b, c, d). \<lparr>dt_section = a, dt_name = b, dt_signal = c, dt_block = d\<rparr>)
    [(''rate_limit'', ''API flooding'', ''api_flooding'', Some ''api_flooding''),
     (''attack_detection'', ''SQL injection'', ''sql_injection'', Some ''sql_injection''),
     (''brute_force'', ''Failed logins'', ''consecutive_failed_logins'', None),
     (''unknown_route_scanning'', ''Route scanning'', ''unknown_route_scanning'', None),
     (''object_enumeration'', ''Object ID enumeration (BOLA)'', ''object_enumeration'', None),
     (''object_ownership'', ''Ownership check (BOLA)'', ''ownership_violation'', None),
     (''enumeration_path_traversal'', ''Traversal & enumeration'', ''enumeration_path_traversal'', Some ''enumeration_path_traversal''),
     (''ip_reputation'', ''Known bad addresses'', ''ip_reputation'', Some ''ip_reputation'')]"

definition block_names :: "string list" where
  "block_names = [n. d \<leftarrow> DETECTORS, Some n \<leftarrow> [dt_block d]]"

text \<open>The line under a detector's name; the dot is U+00B7.\<close>

definition mid :: string where
  "mid = [CHR '' '', char_of (183::nat), CHR '' '']"

definition list_count :: "jval \<Rightarrow> string" where
  "list_count v = to_str (jget (jor v (JArr [])) ''length'')"

definition summary :: "string \<Rightarrow> jval \<Rightarrow> string" where
  "summary sect d = (let f = (\<lambda>k. to_str (jget (jget d sect) k)); n = (\<lambda>k. list_count (jget (jget d sect) k)) in
     if sect = ''rate_limit'' then f ''requests_per_minute'' @ '' req/min''
     else if sect = ''attack_detection'' then n ''sql_patterns'' @ '' signatures''
     else if sect = ''brute_force'' then f ''max_failures'' @ '' failures'' @ mid @ f ''window''
     else if sect = ''unknown_route_scanning'' then f ''distinct_paths'' @ '' paths'' @ mid @ f ''window''
     else if sect = ''object_enumeration'' then f ''distinct_ids'' @ '' ids'' @ mid @ f ''window''
     else if sect = ''object_ownership'' then ''unreadable responses: '' @ (if jget (jget d sect) ''on_unverifiable'' = JStr ''allow'' then ''passed'' else ''refused'')
     else if sect = ''enumeration_path_traversal'' then n ''traversal_patterns'' @ '' traversal'' @ mid @ n ''enumeration_patterns'' @ '' paths''
     else ''score '' @ f ''score'' @ mid @ f ''cooldown'')"

definition shown_detectors :: "jval \<Rightarrow> detector list" where
  "shown_detectors draft = filter (\<lambda>d. truthy (jget draft (dt_section d))) DETECTORS"

definition enabledCount :: "jval \<Rightarrow> nat" where
  "enabledCount draft = length (filter (\<lambda>d. truthy (jget (jget draft (dt_section d)) ''enabled'')) (shown_detectors draft))"

definition armed :: "jval \<Rightarrow> string \<Rightarrow> bool" where
  "armed draft name \<longleftrightarrow> (case jget (jget draft ''block'') ''signals'' of JArr xs \<Rightarrow> JStr name \<in> set xs | _ \<Rightarrow> False)"

definition autoBlockCount :: "jval \<Rightarrow> nat" where
  "autoBlockCount draft = length (filter (\<lambda>d. case dt_block d of None \<Rightarrow> False
     | Some n \<Rightarrow> truthy (jget (jget draft ''block'') ''enabled'') \<and> armed draft n) (shown_detectors draft))"

section \<open>Controls\<close>

definition toggleBlock :: "string \<Rightarrow> jval \<Rightarrow> jval" where
  "toggleBlock name current = (let signals = (case jor (jget (jget current ''block'') ''signals'') (JArr []) of JArr xs \<Rightarrow> xs | _ \<Rightarrow> []) in
     edited ''block'' ''signals'' (JArr (if JStr name \<in> set signals then filter (\<lambda>x. x \<noteq> JStr name) signals else signals @ [JStr name])) current)"

datatype control =
    Flip string string
  | Verdict
  | Arm string
  | NumberBox string string string
  | TextBox string string string
  | ListBox string string string

definition SWITCHES :: "(string \<times> string) list" where
  "SWITCHES = [(''block'', ''enabled''), (''policy'', ''enabled''), (''throttle'', ''enabled''), (''rate_limit'', ''enforce'')] @
     map (\<lambda>d. (dt_section d, ''enabled'')) DETECTORS"

text \<open>The number boxes with their \<open>min\<close> and \<open>max\<close>.\<close>

definition NUMBERS :: "((string \<times> string) \<times> int \<times> int option) list" where
  "NUMBERS = [((''rate_limit'', ''requests_per_minute''), 1, None), ((''brute_force'', ''max_failures''), 1, None),
     ((''unknown_route_scanning'', ''distinct_paths''), 2, None), ((''unknown_route_scanning'', ''max_clients''), 1, Some 100000),
     ((''unknown_route_scanning'', ''max_paths_per_client''), 2, Some 10000),
     ((''object_enumeration'', ''distinct_ids''), 2, None), ((''object_enumeration'', ''max_clients''), 1, Some 100000),
     ((''object_enumeration'', ''max_ids_per_client''), 2, Some 10000),
     ((''object_ownership'', ''max_body_bytes''), 1024, Some 16777216), ((''ip_reputation'', ''score''), 0, Some 100),
     ((''block'', ''min_score''), 0, Some 100)]"

definition TEXTS :: "(string \<times> string) list" where
  "TEXTS = [(''brute_force'', ''window''), (''unknown_route_scanning'', ''window''), (''object_enumeration'', ''window''),
     (''ip_reputation'', ''cooldown''), (''block'', ''duration'')]"

definition LISTS :: "(string \<times> string) list" where
  "LISTS = [(''attack_detection'', ''sql_patterns''), (''enumeration_path_traversal'', ''traversal_patterns''),
     (''enumeration_path_traversal'', ''enumeration_patterns''), (''block'', ''exempt_cidrs'')]"

fun control_section :: "control \<Rightarrow> string" where
  "control_section (Flip s k) = s"
| "control_section Verdict = ''object_ownership''"
| "control_section (Arm n) = ''block''"
| "control_section (NumberBox s k t) = s"
| "control_section (TextBox s k t) = s"
| "control_section (ListBox s k t) = s"

text \<open>A control is on the page when it is one of these and the draft has its section.\<close>

fun on_page :: "control \<Rightarrow> bool" where
  "on_page (Flip s k) \<longleftrightarrow> (s, k) \<in> set SWITCHES"
| "on_page Verdict \<longleftrightarrow> True"
| "on_page (Arm n) \<longleftrightarrow> n \<in> set block_names"
| "on_page (NumberBox s k t) \<longleftrightarrow> (s, k) \<in> set (map fst NUMBERS)"
| "on_page (TextBox s k t) \<longleftrightarrow> (s, k) \<in> set TEXTS"
| "on_page (ListBox s k t) \<longleftrightarrow> (s, k) \<in> set LISTS"

definition offered :: "jval \<Rightarrow> control \<Rightarrow> bool" where
  "offered draft c \<longleftrightarrow> on_page c \<and> truthy (jget draft (control_section c))"

text \<open>A switch shows whether its field holds and sends the opposite.\<close>

fun used :: "control \<Rightarrow> jval \<Rightarrow> jval" where
  "used (Flip s k) d = edited s k (JBool (\<not> truthy (jget (jget d s) k))) d"
| "used Verdict d = edited ''object_ownership'' ''on_unverifiable''
     (JStr (if jget (jget d ''object_ownership'') ''on_unverifiable'' = JStr ''allow'' then ''deny'' else ''allow'')) d"
| "used (Arm n) d = toggleBlock n d"
| "used (NumberBox s k t) d = edited s k (number_field t) d"
| "used (TextBox s k t) d = edited s k (JStr t) d"
| "used (ListBox s k t) d = edited s k (JArr (map JStr (split_lines t))) d"

section \<open>The page\<close>

datatype job =
    FirstLoad
  | Save jval jval
  | Remove
  | Wait "jval option"
  | Look "jval option"

text \<open>A save carries its body and the draft it was made from; a wait and a look carry the draft of the save, or
  nothing after a revert.\<close>

record protection =
  pr_saved :: jval
  pr_draft :: jval
  pr_source :: jval
  pr_read_only :: jval
  pr_error :: jval
  pr_busy :: bool
  pr_confirming :: string
  pr_text :: string
  pr_toast :: "string \<times> string"
  pr_jobs :: "job list"

definition protection0 :: protection where
  "protection0 = \<lparr>pr_saved = JNull, pr_draft = JNull, pr_source = JStr ''file'', pr_read_only = JNull, pr_error = JNull, pr_busy = False,
     pr_confirming = [], pr_text = [], pr_toast = ([], []), pr_jobs = [FirstLoad]\<rparr>"

definition toast :: "string \<Rightarrow> string \<Rightarrow> protection \<Rightarrow> protection" where
  "toast tone text' s = s\<lparr>pr_toast := (tone, text')\<rparr>"

definition start_job :: "job \<Rightarrow> protection \<Rightarrow> protection" where
  "start_job j s = s\<lparr>pr_jobs := pr_jobs s @ [j]\<rparr>"

definition closeConfirmation :: "protection \<Rightarrow> protection" where
  "closeConfirmation s = s\<lparr>pr_confirming := [], pr_text := []\<rparr>"

definition unreached :: "jserr \<Rightarrow> string" where
  "unreached e = ''could not reach the server: '' @ err_message e"

definition with_status :: "jval \<Rightarrow> string \<Rightarrow> nat \<Rightarrow> jval" where
  "with_status v what code = jor (jget v ''error'') (JStr (what @ '' ('' @ show_nat code @ '')''))"

text \<open>What \<open>load\<close> returns, and the page after it.\<close>

definition loaded :: "jserr + http \<Rightarrow> protection \<Rightarrow> jval \<times> protection" where
  "loaded r s = (case r of
       Inl e \<Rightarrow> (JNull, s\<lparr>pr_error := JStr (unreached e)\<rparr>)
     | Inr (code, v) \<Rightarrow> (case dot v ''ok'' of
           Inl e \<Rightarrow> (JNull, s\<lparr>pr_error := JStr (unreached e)\<rparr>)
         | Inr good \<Rightarrow> if \<not> response_ok (code, v) \<or> \<not> truthy good then (JNull, s\<lparr>pr_error := with_status v ''could not read settings'' code\<rparr>)
             else (jget v ''settings'', s\<lparr>pr_error := JNull, pr_saved := jget v ''settings'', pr_source := jget v ''source'',
                     pr_read_only := jor (jget v ''readOnly'') JNull\<rparr>)))"

definition first_loaded :: "jserr + http \<Rightarrow> protection \<Rightarrow> protection" where
  "first_loaded r s = (case loaded r s of (settings, t) \<Rightarrow> if truthy settings then t\<lparr>pr_draft := settings\<rparr> else t)"

text \<open>\<open>apply\<close> and \<open>revert\<close>: the request, and what follows its answer.\<close>

definition save_body :: "jval \<Rightarrow> jval" where
  "save_body draft = json_tree (JObj [(''confirm'', JStr ''apply''), (''settings'', draft)])"

definition send_save :: "protection \<Rightarrow> protection" where
  "send_save s = start_job (Save (save_body (pr_draft s)) (pr_draft s)) (s\<lparr>pr_busy := True\<rparr>)"

definition send_revert :: "protection \<Rightarrow> protection" where
  "send_revert s = start_job Remove (s\<lparr>pr_busy := True\<rparr>)"

definition change_answered :: "string \<Rightarrow> string \<Rightarrow> jval option \<Rightarrow> jserr + http \<Rightarrow> protection \<Rightarrow> protection" where
  "change_answered what done' w r s = (let t = s\<lparr>pr_busy := False\<rparr> in case r of
       Inl e \<Rightarrow> toast ''bad'' (unreached e) t
     | Inr (code, v) \<Rightarrow> (case dot v ''ok'' of
           Inl e \<Rightarrow> toast ''bad'' (unreached e) t
         | Inr good \<Rightarrow> if \<not> response_ok (code, v) \<or> \<not> truthy good then toast ''bad'' (to_str (with_status v what code)) t
             else start_job (Wait w) (toast ''good'' done' (closeConfirmation t))))"

text \<open>The look, six seconds later.\<close>

definition looked :: "jval option \<Rightarrow> jserr + http \<Rightarrow> protection \<Rightarrow> protection" where
  "looked w r s = (case loaded r s of (now, t) \<Rightarrow> if \<not> truthy now then t else
     (case w of None \<Rightarrow> t\<lparr>pr_draft := now\<rparr>
      | Some draft \<Rightarrow> if json_tree now = json_tree draft then toast ''good'' ''the gateway is enforcing the new protection settings'' t
          else (toast ''bad'' ''the gateway rejected part of the change'' t)\<lparr>pr_draft := now\<rparr>))"

fun end_job :: "job \<Rightarrow> jserr + http \<Rightarrow> protection \<Rightarrow> protection" where
  "end_job FirstLoad r s = first_loaded r s"
| "end_job (Save b draft) r s = change_answered ''save failed'' ''sent to the gateway -- waiting for it to apply'' (Some draft) r s"
| "end_job Remove r s = change_answered ''revert failed'' ''returned to the config file -- waiting for the gateway'' None r s"
| "end_job (Wait w) r s = start_job (Look w) s"
| "end_job (Look w) r s = looked w r s"

definition take_job :: "nat \<Rightarrow> jserr + http \<Rightarrow> protection \<Rightarrow> protection" where
  "take_job i r s = end_job (pr_jobs s ! i) r (s\<lparr>pr_jobs := take i (pr_jobs s) @ drop (Suc i) (pr_jobs s)\<rparr>)"

definition unsaved :: "protection \<Rightarrow> bool" where
  "unsaved s \<longleftrightarrow> truthy (pr_draft s) \<and> truthy (pr_saved s) \<and> json_tree (pr_draft s) \<noteq> json_tree (pr_saved s)"

text \<open>The form is on the page; otherwise it shows the error or that it is reading.\<close>

definition form_shown :: "protection \<Rightarrow> bool" where
  "form_shown s \<longleftrightarrow> \<not> truthy (pr_error s) \<and> truthy (pr_draft s)"

inductive prot_step :: "protection \<Rightarrow> protection \<Rightarrow> bool" where
  ends_job: "i < length (pr_jobs s) \<Longrightarrow> prot_step s (take_job i r s)"
| uses: "form_shown s \<Longrightarrow> offered (pr_draft s) c \<Longrightarrow> prot_step s (s\<lparr>pr_draft := used c (pr_draft s)\<rparr>)"
| asks_apply: "form_shown s \<Longrightarrow> \<not> pr_busy s \<Longrightarrow> unsaved s \<Longrightarrow> prot_step s (s\<lparr>pr_confirming := ''apply''\<rparr>)"
| asks_revert: "form_shown s \<Longrightarrow> \<not> pr_busy s \<Longrightarrow> pr_source s = JStr ''console'' \<Longrightarrow> prot_step s (s\<lparr>pr_confirming := ''revert''\<rparr>)"
| cancels: "form_shown s \<Longrightarrow> \<not> pr_busy s \<Longrightarrow> prot_step s (closeConfirmation s)"
| types: "form_shown s \<Longrightarrow> \<not> pr_busy s \<Longrightarrow> pr_confirming s \<noteq> [] \<Longrightarrow> prot_step s (s\<lparr>pr_text := w\<rparr>)"
| confirms: "form_shown s \<Longrightarrow> \<not> pr_busy s \<Longrightarrow> pr_confirming s \<noteq> [] \<Longrightarrow> pr_text s = pr_confirming s \<Longrightarrow>
    prot_step s (if pr_confirming s = ''apply'' then send_save s else send_revert s)"

inductive prot_reach :: "protection \<Rightarrow> bool" where
  starts: "prot_reach protection0"
| next_step: "prot_reach s \<Longrightarrow> prot_step s t \<Longrightarrow> prot_reach t"

section \<open>What a control does to the settings\<close>

text \<open>Settings as the gateway publishes them: an object of objects, no name twice.\<close>

definition shaped :: "jval \<Rightarrow> bool" where
  "shaped d \<longleftrightarrow> (case d of JObj ds \<Rightarrow> dwf ds \<and> list_all (\<lambda>(k, v). case v of JObj e \<Rightarrow> dwf e | _ \<Rightarrow> False) ds | _ \<Rightarrow> False)"

lemma dget_spread: "dwf d \<Longrightarrow> dget (spread (JObj d)) k = dget d k"
  by (simp add: spread_def obj_entries_def dget_index_sorted)

lemma dwf_spread: "dwf d \<Longrightarrow> dwf (spread (JObj d))"
  by (simp add: spread_def obj_entries_def dwf_index_sorted)

lemma dget_filter_val:
  "dwf m \<Longrightarrow> dget (filter (\<lambda>(k, v). P v) m) k = (case dget m k of Some v \<Rightarrow> if P v then Some v else None | None \<Rightarrow> None)"
  by (induction m) (auto simp: dget_def dwf_def map_of_eq_None_iff split: option.splits dest: map_of_SomeD)

lemma dget_map_val: "dget (map (\<lambda>(k, v). (k, f v)) d) k = map_option f (dget d k)"
  by (induction d) (auto simp: dget_def)

lemma dwf_filter: "dwf m \<Longrightarrow> dwf (filter P m)"
  by (simp add: dwf_def distinct_map_filter)

lemma dwf_map_val: "dwf (map (\<lambda>(k, v). (k, f v)) d) = dwf d"
  by (simp add: dwf_def case_prod_unfold comp_def)

lemma jget_json_tree: "dwf d \<Longrightarrow> jget (json_tree (JObj d)) k = json_tree (jget (JObj d) k)"
  by (simp add: jget_JObj dget_index_sorted dwf_filter dwf_map_val dget_filter_val dget_map_val split: option.split)

lemma shaped_section: "shaped d \<Longrightarrow> truthy (jget d n) \<Longrightarrow> \<exists>e. jget d n = JObj e \<and> dwf e"
  by (cases d) (auto simp: shaped_def jget_JObj list_all_iff split: option.splits jval.splits dest!: dget_Some_mem)

lemma shaped_dput: "shaped (JObj ds) \<Longrightarrow> dwf e \<Longrightarrow> shaped (JObj (dput n (JObj e) ds))"
proof -
  assume a: "shaped (JObj ds)" "dwf e"
  have "set (dput n (JObj e) ds) \<subseteq> insert (n, JObj e) (set ds)" by (induction ds) (auto split: if_splits)
  with a show ?thesis by (auto simp: shaped_def list_all_iff)
qed

lemma shaped_spread: "shaped (JObj ds) \<Longrightarrow> shaped (JObj (spread (JObj ds)))"
  by (auto simp: shaped_def list_all_iff dwf_spread) (auto simp: spread_def obj_entries_def)

text \<open>A control changes one field of one section.\<close>

lemma edited_field:
  assumes "shaped d" "truthy (jget d s)"
  shows "shaped (edited s k v d)" (is ?shape)
    and "truthy (jget (json_tree (edited s k v d)) n) = truthy (jget (json_tree d) n)" (is ?present)
    and "jget (jget (json_tree (edited s k v d)) n) f = (if n = s \<and> f = k then json_tree v else jget (jget (json_tree d) n) f)" (is ?field)
    and "set (obj_keys (json_tree (edited s k v d))) = set (obj_keys (json_tree d))" (is ?keys)
proof -
  obtain ds where d: "d = JObj ds" "dwf ds" using assms(1) by (cases d) (auto simp: shaped_def)
  obtain e where e: "jget d s = JObj e" "dwf e" using shaped_section [OF assms] by blast
  let ?e = "dput k v (spread (JObj e))"
  have we: "dwf ?e" by (simp add: dwf_spread e(2))
  have ed: "edited s k v d = JObj (dput s (JObj ?e) (spread (JObj ds)))" by (simp only: edited_def e(1)) (simp only: d(1))
  show ?shape unfolding ed by (rule shaped_dput [OF shaped_spread we]) (use assms(1) d in simp)
  have w: "dwf (dput s (JObj ?e) (spread (JObj ds)))" by (simp add: dwf_spread d(2))
  have n: "jget (json_tree (edited s k v d)) n = (if n = s then json_tree (JObj ?e) else jget (json_tree d) n)" for n
    by (simp only: ed jget_json_tree [OF w]) (simp add: d(1) jget_json_tree [OF d(2)] jget_JObj dget_spread d(2) del: json_tree.simps)
  have s: "jget (json_tree d) s = json_tree (JObj e)" using e(1) d by (simp add: jget_json_tree del: json_tree.simps)
  show ?present using n s by simp
  have f: "jget (json_tree (JObj ?e)) f = (if f = k then json_tree v else jget (json_tree (JObj e)) f)"
    unfolding jget_json_tree [OF we] jget_json_tree [OF e(2)] by (simp add: jget_JObj dget_spread e(2))
  show ?field using n s f by auto
  have keys: "set (obj_keys (json_tree (JObj xs))) = {n. json_tree (jget (JObj xs) n) \<noteq> JUndef}" if "dwf xs" for xs
  proof -
    have k: "n \<in> set (obj_keys (JObj ys)) \<longleftrightarrow> dget ys n \<noteq> None" for n ys
      by (simp add: obj_keys_JObj dget_None_iff dkeys_def)
    have "n \<in> set (obj_keys (json_tree (JObj xs))) \<longleftrightarrow> json_tree (jget (JObj xs) n) \<noteq> JUndef" for n
      unfolding json_tree.simps k using that
      by (simp add: jget_JObj dget_index_sorted dwf_filter dwf_map_val dget_filter_val dget_map_val split: option.split)
    then show ?thesis by blast
  qed
  have "json_tree (jget (edited s k v d) x) \<noteq> JUndef \<longleftrightarrow> json_tree (jget d x) \<noteq> JUndef" for x
    by (simp only: ed) (use e(1) d in \<open>auto simp: jget_JObj dget_spread\<close>)
  then have "{x. json_tree (jget (edited s k v d) x) \<noteq> JUndef} = {x. json_tree (jget d x) \<noteq> JUndef}" by blast
  then show ?keys by (simp only: ed keys [OF w]) (simp only: d(1) keys [OF d(2)])
qed

section \<open>The form and the validator\<close>

definition savable :: "jval \<Rightarrow> bool" where
  "savable draft \<longleftrightarrow> settings_accepted (Some (save_body draft))"

lemma savable_iff:
  assumes "shaped d"
  shows "savable d \<longleftrightarrow> set (obj_keys (json_tree d)) \<subseteq> set SECTIONS \<and> sections_usable (jget (json_tree d))"
proof -
  have "dwf [(''confirm'', JStr ''apply''), (''settings'', d)]" by (simp add: dwf_def)
  note b = jget_json_tree [OF this]
  have "jget (save_body d) ''confirm'' = JStr ''apply''" "jget (save_body d) ''settings'' = json_tree d"
    unfolding save_body_def b by (simp_all add: jget_Cons)
  moreover have "truthy (json_tree d)" "is_objectlike (json_tree d)" using assms by (cases d; simp add: shaped_def is_objectlike_def)+
  ultimately show ?thesis by (simp add: savable_def settings_accepted_def validate_None)
qed

text \<open>What a box must hold: a whole number between its \<open>min\<close> and \<open>max\<close>, the count and the capacity of a scan
  detector in order; a duration; addresses.\<close>

definition in_box :: "string \<Rightarrow> string \<Rightarrow> int \<Rightarrow> bool" where
  "in_box s k i \<longleftrightarrow> (case map_of NUMBERS (s, k) of None \<Rightarrow> False | Some (lo, hi) \<Rightarrow> lo \<le> i \<and> (case hi of None \<Rightarrow> True | Some h \<Rightarrow> i \<le> h))"

definition counted :: "string \<Rightarrow> string \<times> string" where
  "counted s = (if s = ''unknown_route_scanning'' then (''distinct_paths'', ''max_paths_per_client'') else (''distinct_ids'', ''max_ids_per_client''))"

definition in_order :: "jval \<Rightarrow> string \<Rightarrow> string \<Rightarrow> int \<Rightarrow> bool" where
  "in_order sect s k i \<longleftrightarrow> (if s \<notin> {''unknown_route_scanning'', ''object_enumeration''} then True
     else if k = fst (counted s) then jle (jint i) (jget sect (snd (counted s)))
     else if k = snd (counted s) then jle (jget sect (fst (counted s))) (jint i) else True)"

fun entry_ok :: "jval \<Rightarrow> control \<Rightarrow> bool" where
  "entry_ok d (NumberBox s k t) \<longleftrightarrow> (\<exists>i. number_field t = jint i \<and> in_box s k i \<and> in_order (jget d s) s k i)"
| "entry_ok d (TextBox s k t) \<longleftrightarrow> isDuration (JStr t)"
| "entry_ok d (ListBox s k t) \<longleftrightarrow> k \<noteq> ''exempt_cidrs'' \<or> list_all (\<lambda>w. isCidrOrAddress (JStr w)) (split_lines t)"
| "entry_ok d c \<longleftrightarrow> True"

lemma json_tree_jint: "json_tree v = jint i \<longleftrightarrow> v = jint i"
  by (cases v) (auto simp: nis_finite_def split: if_splits)

lemma json_tree_JStr: "json_tree v = JStr w \<longleftrightarrow> v = JStr w"
  by (cases v) simp_all

lemma json_tree_number: "json_tree (number_field t) = jint i \<longleftrightarrow> number_field t = jint i" "json_tree (number_field t) \<noteq> JUndef"
  by (rule json_tree_jint) (simp add: number_field_def)

lemmas edit_facts = sections_usable_def limits_ok_def opt_int_in_def opt_duration_def

text \<open>A field that no check reads.\<close>

lemma free_field:
  assumes "shaped d" "truthy (jget d s)" "k \<in> {''enabled'', ''enforce'', ''sql_patterns'', ''traversal_patterns'', ''enumeration_patterns''}"
  shows "savable (edited s k v d) = savable d"
proof -
  note e = edited_field [OF assms(1,2), of k v]
  have f: "jget (jget (json_tree (edited s k v d)) n) f = jget (jget (json_tree d) n) f" if "f \<noteq> k" for n f
    using that by (simp add: e(3))
  have k: "''requests_per_minute'' \<noteq> k" "''max_failures'' \<noteq> k" "''window'' \<noteq> k" "''distinct_paths'' \<noteq> k" "''max_paths_per_client'' \<noteq> k"
    "''max_clients'' \<noteq> k" "''distinct_ids'' \<noteq> k" "''max_ids_per_client'' \<noteq> k" "''on_unverifiable'' \<noteq> k" "''max_body_bytes'' \<noteq> k" "''duration'' \<noteq> k"
    "''min_score'' \<noteq> k" "''score'' \<noteq> k" "''cooldown'' \<noteq> k" "''delay_ms'' \<noteq> k" "''signals'' \<noteq> k" "''exempt_cidrs'' \<noteq> k"
    using assms(3) by auto
  show ?thesis unfolding savable_iff [OF assms(1)] savable_iff [OF e(1)] e(4) edit_facts e(2) by (simp only: f k not_False_eq_True simp_thms)
qed

lemma limits_edit:
  assumes "limits_ok c a p" "\<forall>f. f \<noteq> k \<longrightarrow> jget c' f = jget c f" "a \<noteq> p" "a \<noteq> ''max_clients''" "p \<noteq> ''max_clients''"
  shows "k = a \<Longrightarrow> limits_ok c' a p \<longleftrightarrow> (\<exists>i. jget c' a = jint i \<and> 2 \<le> i \<and> jle (jint i) (jget c p))"
    and "k = p \<Longrightarrow> limits_ok c' a p \<longleftrightarrow> (\<exists>i. jget c' p = jint i \<and> i \<le> 10000 \<and> jle (jget c a) (jint i))"
    and "k = ''max_clients'' \<Longrightarrow> limits_ok c' a p \<longleftrightarrow> (\<exists>i. jget c' ''max_clients'' = jint i \<and> 1 \<le> i \<and> i \<le> 100000)"
    and "k \<notin> {a, p, ''max_clients''} \<Longrightarrow> limits_ok c' a p"
proof -
  obtain x y z where c: "jget c a = jint x" "jget c p = jint y" "jget c ''max_clients'' = jint z"
    "2 \<le> x" "x \<le> y" "y \<le> 10000" "1 \<le> z" "z \<le> 100000" using assms(1) by (auto simp: limits_ok_def)
  show "k = a \<Longrightarrow> limits_ok c' a p \<longleftrightarrow> (\<exists>i. jget c' a = jint i \<and> 2 \<le> i \<and> jle (jint i) (jget c p))"
    using c assms(2) [rule_format, of p] assms(2) [rule_format, of "''max_clients''"] assms(3-5) by (auto simp: limits_ok_def)
  show "k = p \<Longrightarrow> limits_ok c' a p \<longleftrightarrow> (\<exists>i. jget c' p = jint i \<and> i \<le> 10000 \<and> jle (jget c a) (jint i))"
    using c assms(2) [rule_format, of a] assms(2) [rule_format, of "''max_clients''"] assms(3-5) by (auto simp: limits_ok_def)
  show "k = ''max_clients'' \<Longrightarrow> limits_ok c' a p \<longleftrightarrow> (\<exists>i. jget c' ''max_clients'' = jint i \<and> 1 \<le> i \<and> i \<le> 100000)"
    using c assms(2) [rule_format, of a] assms(2) [rule_format, of p] assms(3-5) by (auto simp: limits_ok_def)
  show "k \<notin> {a, p, ''max_clients''} \<Longrightarrow> limits_ok c' a p"
    using assms(1) assms(2) [rule_format, of a] assms(2) [rule_format, of p] assms(2) [rule_format, of "''max_clients''"] by (auto simp: limits_ok_def)
qed

lemma section_field: "shaped d \<Longrightarrow> truthy (jget d n) \<Longrightarrow> jget (jget (json_tree d) n) f = json_tree (jget (jget d n) f)"
proof -
  assume a: "shaped d" "truthy (jget d n)"
  obtain ds where d: "d = JObj ds" "dwf ds" using a(1) by (cases d) (auto simp: shaped_def)
  obtain e where e: "jget d n = JObj e" "dwf e" using shaped_section [OF a] by blast
  have "jget (json_tree d) n = json_tree (JObj e)" using e(1) d by (simp add: jget_json_tree del: json_tree.simps)
  then show ?thesis by (simp only: jget_json_tree [OF e(2)] e(1))
qed

text \<open>What the one check of a field says, when everything else is in order.\<close>

lemma checked_field:
  assumes "shaped d" "truthy (jget d s)" "savable d"
  shows "(s, k) = (''rate_limit'', ''requests_per_minute'') \<Longrightarrow> savable (edited s k v d) \<longleftrightarrow> opt_int_in (json_tree v) 1 None"
    and "(s, k) = (''brute_force'', ''max_failures'') \<Longrightarrow> savable (edited s k v d) \<longleftrightarrow> opt_int_in (json_tree v) 1 None"
    and "(s, k) = (''ip_reputation'', ''score'') \<Longrightarrow> savable (edited s k v d) \<longleftrightarrow> opt_int_in (json_tree v) 0 (Some 100)"
    and "(s, k) = (''block'', ''min_score'') \<Longrightarrow> savable (edited s k v d) \<longleftrightarrow> opt_int_in (json_tree v) 0 (Some 100)"
    and "(s, k) = (''block'', ''signals'') \<Longrightarrow> savable (edited s k v d) \<longleftrightarrow> list_of (\<lambda>n. n \<in> JStr ` set KNOWN_SIGNALS) (json_tree v)"
    and "(s, k) = (''block'', ''exempt_cidrs'') \<Longrightarrow> savable (edited s k v d) \<longleftrightarrow> list_of isCidrOrAddress (json_tree v)"
    and "(s, k) \<in> {(''brute_force'', ''window''), (''ip_reputation'', ''cooldown''), (''block'', ''duration'')} \<Longrightarrow>
      savable (edited s k v d) \<longleftrightarrow> opt_duration (json_tree v)"
    and "(s, k) \<in> {(''unknown_route_scanning'', ''window''), (''object_enumeration'', ''window'')} \<Longrightarrow>
      savable (edited s k v d) \<longleftrightarrow> isDuration (json_tree v)"
    and "(s, k) = (''object_ownership'', ''on_unverifiable'') \<Longrightarrow> savable (edited s k v d) \<longleftrightarrow> json_tree v \<in> {JStr ''deny'', JStr ''allow''}"
    and "(s, k) = (''object_ownership'', ''max_body_bytes'') \<Longrightarrow> savable (edited s k v d) \<longleftrightarrow> (\<exists>i. json_tree v = jint i \<and> 1024 \<le> i \<and> i \<le> 16777216)"
proof -
  note e = edited_field [OF assms(1,2), of k v]
  note u = assms(3) [unfolded savable_iff [OF assms(1)] sections_usable_def limits_ok_def, simplified]
  note g = savable_iff [OF e(1)] e(2,3,4) sections_usable_def limits_ok_def
  have t: "truthy (jget (json_tree d) s)"
    using shaped_section [OF assms(1,2)] assms(1) by (cases d) (auto simp: shaped_def jget_json_tree simp del: json_tree.simps(3), simp)
  show "(s, k) = (''rate_limit'', ''requests_per_minute'') \<Longrightarrow> savable (edited s k v d) \<longleftrightarrow> opt_int_in (json_tree v) 1 None"
    unfolding g using u by simp
  show "(s, k) = (''brute_force'', ''max_failures'') \<Longrightarrow> savable (edited s k v d) \<longleftrightarrow> opt_int_in (json_tree v) 1 None"
    unfolding g using u by simp
  show "(s, k) = (''ip_reputation'', ''score'') \<Longrightarrow> savable (edited s k v d) \<longleftrightarrow> opt_int_in (json_tree v) 0 (Some 100)"
    unfolding g using u by simp
  show "(s, k) = (''block'', ''min_score'') \<Longrightarrow> savable (edited s k v d) \<longleftrightarrow> opt_int_in (json_tree v) 0 (Some 100)"
    unfolding g using u by simp
  show "(s, k) = (''block'', ''signals'') \<Longrightarrow> savable (edited s k v d) \<longleftrightarrow> list_of (\<lambda>n. n \<in> JStr ` set KNOWN_SIGNALS) (json_tree v)"
    unfolding g using u by simp
  show "(s, k) = (''block'', ''exempt_cidrs'') \<Longrightarrow> savable (edited s k v d) \<longleftrightarrow> list_of isCidrOrAddress (json_tree v)"
    unfolding g using u by simp
  show "(s, k) \<in> {(''brute_force'', ''window''), (''ip_reputation'', ''cooldown''), (''block'', ''duration'')} \<Longrightarrow>
      savable (edited s k v d) \<longleftrightarrow> opt_duration (json_tree v)"
    unfolding g using u by (elim insertE emptyE) simp_all
  show "(s, k) \<in> {(''unknown_route_scanning'', ''window''), (''object_enumeration'', ''window'')} \<Longrightarrow>
      savable (edited s k v d) \<longleftrightarrow> isDuration (json_tree v)"
    unfolding g using u t by (elim insertE emptyE) simp_all
  show "(s, k) = (''object_ownership'', ''on_unverifiable'') \<Longrightarrow> savable (edited s k v d) \<longleftrightarrow> json_tree v \<in> {JStr ''deny'', JStr ''allow''}"
    unfolding g using u t by simp
  show "(s, k) = (''object_ownership'', ''max_body_bytes'') \<Longrightarrow> savable (edited s k v d) \<longleftrightarrow> (\<exists>i. json_tree v = jint i \<and> 1024 \<le> i \<and> i \<le> 16777216)"
    unfolding g using u t by simp
qed

lemma limits_field:
  assumes "shaped d" "truthy (jget d s)" "savable d"
    and "(s, a, p) \<in> {(''unknown_route_scanning'', ''distinct_paths'', ''max_paths_per_client''), (''object_enumeration'', ''distinct_ids'', ''max_ids_per_client'')}"
    and "k \<in> {a, p, ''max_clients''}"
  shows "limits_ok (jget (json_tree d) s) a p"
    and "savable (edited s k v d) \<longleftrightarrow> limits_ok (jget (json_tree (edited s k v d)) s) a p"
proof -
  note e = edited_field [OF assms(1,2), of k v]
  note u = assms(3) [unfolded savable_iff [OF assms(1)] sections_usable_def]
  have t: "truthy (jget (json_tree d) s)"
    using shaped_section [OF assms(1,2)] assms(1) by (cases d) (auto simp: shaped_def jget_json_tree simp del: json_tree.simps(3), simp)
  show "limits_ok (jget (json_tree d) s) a p" using u t assms(4) by auto
  have o: "limits_ok (jget (json_tree (edited s k v d)) n) b q =
      (if n = s then limits_ok (jget (json_tree (edited s k v d)) s) b q else limits_ok (jget (json_tree d) n) b q)" for n b q
    by (simp add: limits_ok_def e(3))
  show "savable (edited s k v d) \<longleftrightarrow> limits_ok (jget (json_tree (edited s k v d)) s) a p"
    unfolding savable_iff [OF e(1)] e(2,4) sections_usable_def e(3) o [of "''unknown_route_scanning''"] o [of "''object_enumeration''"]
    using u t assms(4,5) by (elim insertE emptyE) simp_all
qed

lemma scan_boxes:
  "map_of NUMBERS (''unknown_route_scanning'', ''distinct_paths'') = Some (2, None)"
  "map_of NUMBERS (''object_enumeration'', ''distinct_ids'') = Some (2, None)"
  "map_of NUMBERS (''unknown_route_scanning'', ''max_paths_per_client'') = Some (2, Some 10000)"
  "map_of NUMBERS (''object_enumeration'', ''max_ids_per_client'') = Some (2, Some 10000)"
  "map_of NUMBERS (''unknown_route_scanning'', ''max_clients'') = Some (1, Some 100000)"
  "map_of NUMBERS (''object_enumeration'', ''max_clients'') = Some (1, Some 100000)"
  by (simp_all add: NUMBERS_def)

lemma number_entry:
  assumes "shaped d" "truthy (jget d s)" "savable d" "(s, k) \<in> set (map fst NUMBERS)"
  shows "savable (edited s k (number_field t) d) \<longleftrightarrow> entry_ok d (NumberBox s k t)"
proof (cases "s \<in> {''unknown_route_scanning'', ''object_enumeration''}")
  case True
  let ?v = "number_field t"
  obtain a p where ap: "counted s = (a, p)" "(s, a, p) \<in> {(''unknown_route_scanning'', ''distinct_paths'', ''max_paths_per_client''), (''object_enumeration'', ''distinct_ids'', ''max_ids_per_client'')}"
    using True by (auto simp: counted_def)
  have k: "k \<in> {a, p, ''max_clients''}" using assms(4) ap(2) by (auto simp: NUMBERS_def)
  have ne: "a \<noteq> p" "a \<noteq> ''max_clients''" "p \<noteq> ''max_clients''" using ap(2) by auto
  note l = limits_field [OF assms(1-3) ap(2) k]
  have same: "\<forall>f. f \<noteq> k \<longrightarrow> jget (jget (json_tree (edited s k ?v d)) s) f = jget (jget (json_tree d) s) f"
    by (simp add: edited_field(3) [OF assms(1,2)])
  have new: "jget (jget (json_tree (edited s k ?v d)) s) k = json_tree ?v" by (simp add: edited_field(3) [OF assms(1,2)])
  note le = limits_edit [OF l(1) same ne]
  obtain x y where xy: "jget (jget (json_tree d) s) a = jint x" "jget (jget (json_tree d) s) p = jint y" "2 \<le> x" "y \<le> 10000"
    using l(1) by (auto simp: limits_ok_def)
  then have dxy: "jget (jget d s) a = jint x" "jget (jget d s) p = jint y"
    unfolding section_field [OF assms(1,2)] json_tree_jint by simp_all
  consider "k = a" | "k = p" | "k = ''max_clients''" using k by blast
  then show ?thesis
  proof cases
    case 1
    have "savable (edited s k ?v d) \<longleftrightarrow> (\<exists>i. ?v = jint i \<and> 2 \<le> i \<and> i \<le> y)"
      unfolding l(2) le(1) [OF 1] using new xy(2) by (simp only: 1 json_tree_number jle_nums nle.simps of_int_le_iff)
    moreover have "map_of NUMBERS (s, a) = Some (2, None)" using ap(2) by (elim insertE emptyE) (simp_all add: scan_boxes)
    ultimately show ?thesis using True ap(1) dxy by (auto simp: 1 in_box_def in_order_def)
  next
    case 2
    have "savable (edited s k ?v d) \<longleftrightarrow> (\<exists>i. ?v = jint i \<and> i \<le> 10000 \<and> x \<le> i)"
      unfolding l(2) le(2) [OF 2] using new xy(1) by (simp only: 2 json_tree_number jle_nums nle.simps of_int_le_iff)
    moreover have "map_of NUMBERS (s, p) = Some (2, Some 10000)" using ap(2) by (elim insertE emptyE) (simp_all add: scan_boxes)
    ultimately show ?thesis using True ap(1) dxy ne xy(3) by (auto simp: 2 in_box_def in_order_def)
  next
    case 3
    have "savable (edited s k ?v d) \<longleftrightarrow> (\<exists>i. ?v = jint i \<and> 1 \<le> i \<and> i \<le> 100000)"
      unfolding l(2) le(3) [OF 3] using new by (simp only: 3 json_tree_number)
    moreover have "map_of NUMBERS (s, ''max_clients'') = Some (1, Some 100000)" using ap(2) by (elim insertE emptyE) (simp_all add: scan_boxes)
    ultimately show ?thesis using True ap(1) ne by (auto simp: 3 in_box_def in_order_def)
  qed
next
  case False
  have sk: "(s, k) \<in> {(''rate_limit'', ''requests_per_minute''), (''brute_force'', ''max_failures''), (''object_ownership'', ''max_body_bytes''),
      (''ip_reputation'', ''score''), (''block'', ''min_score'')}" using assms(4) False by (auto simp: NUMBERS_def)
  have o: "opt_int_in (json_tree (number_field t)) lo hi \<longleftrightarrow> (\<exists>i. number_field t = jint i \<and> lo \<le> i \<and> (case hi of None \<Rightarrow> True | Some h \<Rightarrow> i \<le> h))" for lo hi
    by (simp add: opt_int_in_def json_tree_number)
  have r: "entry_ok d (NumberBox s k t) \<longleftrightarrow> (\<exists>i. number_field t = jint i \<and> in_box s k i)" using False by (simp add: in_order_def)
  show ?thesis unfolding r using sk checked_field [OF assms(1-3), of k "number_field t"]
    by (elim insertE emptyE) (simp_all add: o in_box_def NUMBERS_def json_tree_number)
qed

lemma arm_entry:
  assumes "shaped d" "truthy (jget d ''block'')" "savable d" "n \<in> set block_names"
  shows "savable (toggleBlock n d)"
proof -
  let ?s = "jget (jget d ''block'') ''signals''" and ?known = "\<lambda>n. n \<in> JStr ` set KNOWN_SIGNALS"
  have "list_all (\<lambda>n. n \<in> set KNOWN_SIGNALS) block_names" by code_simp
  then have n: "n \<in> set KNOWN_SIGNALS" using assms(4) by (auto simp: list_all_iff)
  have "list_of ?known (json_tree ?s)"
    using assms(3) unfolding savable_iff [OF assms(1)] sections_usable_def section_field [OF assms(1,2)] by blast
  then have known: "\<forall>x \<in> set (case jor ?s (JArr []) of JArr xs \<Rightarrow> xs | _ \<Rightarrow> []). x \<in> JStr ` set KNOWN_SIGNALS"
  proof (cases ?s)
    case (JArr xs)
    assume "list_of ?known (json_tree ?s)"
    then have "\<forall>x \<in> set xs. (if x = JUndef then JNull else json_tree x) \<in> JStr ` set KNOWN_SIGNALS" by (simp add: JArr list_of_def)
    then have "x \<in> JStr ` set KNOWN_SIGNALS" if "x \<in> set xs" for x
      using that by (auto simp: image_iff json_tree_JStr split: if_splits)
    then show ?thesis by (simp add: JArr jor_def)
  qed (simp_all add: list_of_def jor_def)
  define xs where "xs = (case jor ?s (JArr []) of JArr xs \<Rightarrow> xs | _ \<Rightarrow> [])"
  have "list_of ?known (json_tree (JArr ys))" if "set ys \<subseteq> insert (JStr n) (set xs)" for ys
  proof -
    have y: "y \<in> JStr ` set KNOWN_SIGNALS" if "y \<in> set ys" for y using that \<open>set ys \<subseteq> _\<close> known [folded xs_def] n by blast
    then have "map (\<lambda>x. if x = JUndef then JNull else json_tree x) ys = ys" by (intro map_idI) (auto dest!: y)
    then show ?thesis using y by (simp add: list_of_def)
  qed
  then have "list_of ?known (json_tree (JArr (if JStr n \<in> set xs then filter (\<lambda>x. x \<noteq> JStr n) xs else xs @ [JStr n])))"
    by (rule meta_mp) auto
  then show ?thesis unfolding toggleBlock_def Let_def xs_def
    by (simp only: checked_field(5) [OF assms(1-3) refl])
qed

lemma free_controls:
  "(s, k) \<in> set SWITCHES \<Longrightarrow> k \<in> {''enabled'', ''enforce''}"
  "(s, k) \<in> set LISTS \<Longrightarrow> k \<in> {''sql_patterns'', ''traversal_patterns'', ''enumeration_patterns''} \<or> (s, k) = (''block'', ''exempt_cidrs'')"
  "(s, k) \<in> set TEXTS \<Longrightarrow> (s, k) \<in> {(''brute_force'', ''window''), (''ip_reputation'', ''cooldown''), (''block'', ''duration'')} \<or>
     (s, k) \<in> {(''unknown_route_scanning'', ''window''), (''object_enumeration'', ''window'')}"
proof -
  have "list_all (\<lambda>(s, k). k = ''enabled'' \<or> k = ''enforce'') SWITCHES" by code_simp
  then show "(s, k) \<in> set SWITCHES \<Longrightarrow> k \<in> {''enabled'', ''enforce''}" by (auto simp: list_all_iff)
  have "list_all (\<lambda>(s, k). k = ''sql_patterns'' \<or> k = ''traversal_patterns'' \<or> k = ''enumeration_patterns'' \<or> s = ''block'' \<and> k = ''exempt_cidrs'') LISTS"
    by code_simp
  then show "(s, k) \<in> set LISTS \<Longrightarrow> k \<in> {''sql_patterns'', ''traversal_patterns'', ''enumeration_patterns''} \<or> (s, k) = (''block'', ''exempt_cidrs'')"
    by (auto simp: list_all_iff)
  have "list_all (\<lambda>p. p \<in> set [(''brute_force'', ''window''), (''ip_reputation'', ''cooldown''), (''block'', ''duration'')] \<or>
      p \<in> set [(''unknown_route_scanning'', ''window''), (''object_enumeration'', ''window'')]) TEXTS" by code_simp
  then show "(s, k) \<in> set TEXTS \<Longrightarrow> (s, k) \<in> {(''brute_force'', ''window''), (''ip_reputation'', ''cooldown''), (''block'', ''duration'')} \<or>
     (s, k) \<in> {(''unknown_route_scanning'', ''window''), (''object_enumeration'', ''window'')}"
    unfolding list_all_iff list.set by (rule bspec)
qed

text \<open>Property C28. The protection form and the validator of the settings route agree: on a draft the route would
  take, every switch, verdict and arming leaves a draft it takes, and an entry in a box does so exactly when it is a
  whole number between the box's limits (with the count of a scan detector not above its capacity), a
  duration, or a list of addresses and ranges; so nothing a save is refused for comes from a switch.\<close>

theorem form_agrees_with_validator:
  assumes "shaped d" "savable d" "offered d c"
  shows "shaped (used c d) \<and> (savable (used c d) \<longleftrightarrow> entry_ok d c)"
proof
  have o: "truthy (jget d (control_section c))" "on_page c" using assms(3) by (simp_all add: offered_def)
  have "\<exists>k v. used c d = edited (control_section c) k v d" by (cases c) (auto simp: toggleBlock_def Let_def)
  then show "shaped (used c d)" using edited_field(1) [OF assms(1) o(1)] by auto
  show "savable (used c d) \<longleftrightarrow> entry_ok d c"
  proof (cases c)
    case (Flip s k)
    then have "k \<in> {''enabled'', ''enforce''}" using o(2) free_controls(1) by simp
    then show ?thesis using free_field [OF assms(1) o(1), of k] assms(2) by (auto simp: Flip)
  next
    case Verdict
    then show ?thesis using checked_field(9) [OF assms(1) _ assms(2) refl] o(1) by simp
  next
    case (Arm n)
    then show ?thesis using arm_entry [OF assms(1) _ assms(2), of n] o by simp
  next
    case (NumberBox s k t)
    then show ?thesis using number_entry [OF assms(1) _ assms(2), of s k t] o by simp
  next
    case (TextBox s k t)
    then have "(s, k) \<in> {(''brute_force'', ''window''), (''ip_reputation'', ''cooldown''), (''block'', ''duration'')} \<or>
        (s, k) \<in> {(''unknown_route_scanning'', ''window''), (''object_enumeration'', ''window'')}"
      using o(2) free_controls(3) by simp
    moreover have "truthy (jget d s)" using o(1) TextBox by simp
    note c = checked_field(7,8) [OF assms(1) this assms(2), of k "JStr t"]
    have "opt_duration (json_tree (JStr t)) = isDuration (JStr t)" "isDuration (json_tree (JStr t)) = isDuration (JStr t)"
      by (simp_all add: opt_duration_def)
    ultimately have "savable (edited s k (JStr t) d) \<longleftrightarrow> isDuration (JStr t)" using c by (elim disjE) (simp_all only:)
    then show ?thesis by (simp add: TextBox)
  next
    case (ListBox s k t)
    have m: "json_tree (JArr (map JStr ws)) = JArr (map JStr ws)" for ws by (induction ws) simp_all
    have "k \<in> {''sql_patterns'', ''traversal_patterns'', ''enumeration_patterns''} \<or> (s, k) = (''block'', ''exempt_cidrs'')"
      using o(2) ListBox free_controls(2) by simp
    then show ?thesis
    proof
      assume "k \<in> {''sql_patterns'', ''traversal_patterns'', ''enumeration_patterns''}"
      then show ?thesis using free_field [OF assms(1) o(1), of k "JArr (map JStr (split_lines t))"] assms(2) by (auto simp: ListBox)
    next
      assume sk: "(s, k) = (''block'', ''exempt_cidrs'')"
      have "savable (edited s k (JArr (map JStr (split_lines t))) d) \<longleftrightarrow> list_of isCidrOrAddress (JArr (map JStr (split_lines t)))"
        using checked_field(6) [OF assms(1) _ assms(2) sk, of "JArr (map JStr (split_lines t))"] o(1) ListBox by (simp only: m control_section.simps)
      then show ?thesis using sk by (simp add: ListBox list_of_def list_all_iff)
    qed
  qed
qed

definition live_settings :: jval where
  "live_settings = JObj (map (\<lambda>n. (n, JObj (if n = ''unknown_route_scanning''
       then [(''window'', JStr ''5m''), (''distinct_paths'', jint 15), (''max_paths_per_client'', jint 500), (''max_clients'', jint 10000)]
       else [(''enabled'', JBool True)])))
     [n. n \<leftarrow> SECTIONS, n \<notin> set OPTIONAL_SECTIONS])"

theorem form_agrees_with_validator_witness:
  "savable (used (NumberBox ''block'' ''min_score'' ''100'') live_settings) \<and> \<not> savable (used (NumberBox ''block'' ''min_score'' ''101'') live_settings) \<and>
   savable (used (Arm ''sql_injection'') live_settings)"
proof -
  have l: "live_settings = JObj [(''rate_limit'', JObj [(''enabled'', JBool True)]), (''attack_detection'', JObj [(''enabled'', JBool True)]),
      (''brute_force'', JObj [(''enabled'', JBool True)]), (''unknown_route_scanning'', JObj [(''window'', JStr ''5m''), (''distinct_paths'', jint 15),
         (''max_paths_per_client'', jint 500), (''max_clients'', jint 10000)]),
      (''enumeration_path_traversal'', JObj [(''enabled'', JBool True)]), (''ip_reputation'', JObj [(''enabled'', JBool True)]),
      (''throttle'', JObj [(''enabled'', JBool True)]), (''block'', JObj [(''enabled'', JBool True)]), (''policy'', JObj [(''enabled'', JBool True)])]"
    by (simp add: live_settings_def SECTIONS_def OPTIONAL_SECTIONS_def)
  have sh: "shaped live_settings" by (simp add: l shaped_def dwf_def)
  have t: "isDuration (JStr ''5m'')" by code_simp
  have "set (obj_keys (json_tree live_settings)) \<subseteq> set SECTIONS \<and> sections_usable (jget (json_tree live_settings))"
    using t by (simp add: l sections_usable_def limits_ok_def opt_int_in_def opt_duration_def list_of_def jget_json_tree jget_Cons dwf_def SECTIONS_def
        OPTIONAL_SECTIONS_def jget_JObj [of "[]"] nis_finite_def del: json_tree.simps(3)) (simp add: obj_keys_JObj insert_Diff_if)
  then have sv: "savable live_settings" by (simp add: savable_iff [OF sh])
  have b: "truthy (jget live_settings ''block'')" by (simp add: l jget_Cons)
  have n: "number_field ''100'' = jint 100" "number_field ''101'' = jint 101"
    using str_to_num_digits [of "''100''"] str_to_num_digits [of "''101''"] by (simp_all add: number_field_def parse_nat_def digit_val_def digits_cs_def)
  have i: "in_box ''block'' ''min_score'' i \<longleftrightarrow> 0 \<le> i \<and> i \<le> 100" for i by (simp add: in_box_def NUMBERS_def)
  have "offered live_settings (NumberBox ''block'' ''min_score'' t)" for t using b by (simp add: offered_def NUMBERS_def)
  note f = form_agrees_with_validator [OF sh sv this]
  have a: "offered live_settings (Arm ''sql_injection'')" using b by (simp add: offered_def) code_simp
  show ?thesis using f [of "''100''"] f [of "''101''"] form_agrees_with_validator [OF sh sv a]
    by (simp add: n i in_order_def)
qed

text \<open>A second change within the six seconds of the first: the look after the first finds the second in force,
  reports that the gateway rejected part of the change, and replaces the draft.\<close>

lemma second_change_reported_as_rejected:
  assumes "json_tree second \<noteq> json_tree first" "truthy second"
  shows "let s' = looked (Some first) (Inr (200, JObj [(''ok'', JBool True), (''settings'', second), (''source'', JStr ''console'')])) s in
    pr_toast s' = (''bad'', ''the gateway rejected part of the change'') \<and> pr_draft s' = second"
  using assms by (simp add: looked_def loaded_def dot_def response_ok_def jget_Cons toast_def nullish_def Let_def)

end
