(* ===== verification/ConsoleDialogs.thy ===== *)
theory ConsoleDialogs
  imports RoutesAdmin ConsoleStore
begin

text \<open>
  The frame of the console, \<open>app/ui/chrome.jsx\<close>: the dialog that asks for a typed word before it resets the
  console or clears the campaigns, the badges and status texts of the shell, the theme; and the setup
  warnings of \<open>app/ui/setup-warnings.jsx\<close>, which stay dismissed. A dialog's requests under way form a
  list. \<open>parse\<close> and \<open>stringify\<close> are \<open>JSON.parse\<close> and \<open>JSON.stringify\<close>.
\<close>

section \<open>The dialog that asks for a word\<close>

record confirm_dialog =
  dg_word :: string
  dg_endpoint :: string
  dg_disabled_while_busy :: bool
  dg_success :: "jval \<Rightarrow> string"

text \<open>Its state, with the words of the requests under way, the last toast, and how often it asked the console to refresh.\<close>

record dialog =
  dl_open :: bool
  dl_text :: string
  dl_busy :: bool
  dl_version :: nat
  dl_runs :: "string list"
  dl_toast :: "(string \<times> string) option"
  dl_refreshes :: nat

definition dialog0 :: dialog where
  "dialog0 = \<lparr>dl_open = False, dl_text = [], dl_busy = False, dl_version = 0, dl_runs = [], dl_toast = None, dl_refreshes = 0\<rparr>"

definition openDialog :: "dialog \<Rightarrow> dialog" where
  "openDialog s = s\<lparr>dl_busy := False, dl_text := [], dl_version := Suc (dl_version s), dl_open := True\<rparr>"

definition close_it :: "dialog \<Rightarrow> dialog" where
  "close_it s = s\<lparr>dl_busy := False, dl_open := False, dl_text := []\<rparr>"

definition confirm_request :: "string \<Rightarrow> jval" where
  "confirm_request word = JObj [(''confirm'', JStr word)]"

definition run_it :: "confirm_dialog \<Rightarrow> dialog \<Rightarrow> dialog" where
  "run_it d s = s\<lparr>dl_busy := True, dl_runs := dl_runs s @ [dg_word d]\<rparr>"

text \<open>How a request ends: after fifteen seconds it is aborted.\<close>

datatype dialog_answer =
    TimedOut
  | Unreached jserr
  | Got http

definition say_it :: "string \<Rightarrow> string \<Rightarrow> dialog \<Rightarrow> dialog" where
  "say_it tone t s = s\<lparr>dl_toast := Some (tone, t)\<rparr>"

definition ended :: "confirm_dialog \<Rightarrow> dialog_answer \<Rightarrow> dialog \<Rightarrow> dialog" where
  "ended d r s = (let word = dg_word d; unreached = (\<lambda>e. say_it ''bad'' (''could not reach the server: '' @ err_message e) s) in
     (case r of
        TimedOut \<Rightarrow> say_it ''bad'' (word @ '' timed out waiting for the server'') s
      | Unreached e \<Rightarrow> unreached e
      | Got (code, v) \<Rightarrow> (case dot v ''ok'' of
            Inl e \<Rightarrow> unreached e
          | Inr good \<Rightarrow> if \<not> (200 \<le> code \<and> code < 300) \<or> \<not> truthy good
              then say_it ''bad'' (word @ '' failed: '' @ to_str (jor (jget v ''error'') (jint (int code)))) s
              else (close_it (say_it ''good'' (dg_success d v) s))\<lparr>dl_refreshes := Suc (dl_refreshes s)\<rparr>))\<lparr>dl_busy := False\<rparr>)"

definition end_run :: "confirm_dialog \<Rightarrow> nat \<Rightarrow> dialog_answer \<Rightarrow> dialog \<Rightarrow> dialog" where
  "end_run d i r s = ended d r (s\<lparr>dl_runs := take i (dl_runs s) @ drop (Suc i) (dl_runs s)\<rparr>)"

text \<open>The button that opens it lies behind the dialog, but the keyboard reaches it.\<close>

inductive dialog_step :: "confirm_dialog \<Rightarrow> dialog \<Rightarrow> dialog \<Rightarrow> bool" for d :: confirm_dialog where
  opens: "\<not> (dg_disabled_while_busy d \<and> dl_busy s) \<Longrightarrow> dialog_step d s (openDialog s)"
| closes: "dl_open s \<Longrightarrow> \<not> dl_busy s \<Longrightarrow> dialog_step d s (close_it s)"
| types: "dl_open s \<Longrightarrow> \<not> dl_busy s \<Longrightarrow> dialog_step d s (s\<lparr>dl_text := w\<rparr>)"
| runs: "dl_open s \<Longrightarrow> \<not> dl_busy s \<Longrightarrow> dl_text s = dg_word d \<Longrightarrow> dialog_step d s (run_it d s)"
| ends: "i < length (dl_runs s) \<Longrightarrow> dialog_step d s (end_run d i r s)"

inductive dialog_reach :: "confirm_dialog \<Rightarrow> dialog \<Rightarrow> bool" for d :: confirm_dialog where
  first_dialog: "dialog_reach d dialog0"
| next_dialog: "dialog_reach d s \<Longrightarrow> dialog_step d s t \<Longrightarrow> dialog_reach d t"

text \<open>The texts of a success.\<close>

definition sum_values :: "jval \<Rightarrow> jnum" where
  "sum_values v = foldl (\<lambda>a b. nadd a (to_num b)) (Fin 0) (obj_values v)"

definition reset_text :: "jval \<Rightarrow> string" where
  "reset_text v = (let pg = jget v ''postgres''; redis = jget v ''redis'' in
     ''console reset -- cleared '' @ (if is_ok pg then show_num (sum_values (jor (jget pg ''cleared'') (JObj []))) else ''0'') @ '' campaign record(s), '' @
     (if is_ok redis then to_str (jget redis ''trimmed'') else ''0'') @ '' event(s) and '' @
     (if is_ok redis then to_str (jget redis ''removed'') else ''0'') @ '' live key(s)'')"

definition clear_text :: "jval \<Rightarrow> string" where
  "clear_text v = ''cleared '' @ to_str (jget v ''cleared'') @ '' record(s) -- '' @ to_str (jget v ''campaigns'') @ '' campaign(s), '' @
     to_str (jget v ''feedback'') @ '' feedback entr'' @ (if jget v ''feedback'' = jint 1 then ''y'' else ''ies'') @
     ''. Events and active policy are untouched.''"

definition ResetControl :: confirm_dialog where
  "ResetControl = \<lparr>dg_word = ''reset'', dg_endpoint = ''/api/admin/reset'', dg_disabled_while_busy = False, dg_success = reset_text\<rparr>"

definition ClearCampaignsControl :: confirm_dialog where
  "ClearCampaignsControl = \<lparr>dg_word = ''clear'', dg_endpoint = ''/api/admin/clear-campaigns'', dg_disabled_while_busy = True,
     dg_success = clear_text\<rparr>"

section \<open>The shell\<close>

definition NAV :: "(string \<times> string) list" where
  "NAV = [(''/'', ''Overview''), (''/campaigns'', ''Campaigns''), (''/policy'', ''Policy''), (''/adaptive'', ''Adaptive''),
     (''/events'', ''Events''), (''/history'', ''History''), (''/settings'', ''Protection'')]"

definition nav_active :: "string \<Rightarrow> string \<Rightarrow> bool" where
  "nav_active href pathname = (if href = ''/'' then pathname = ''/'' else starts_with href pathname)"

definition active_campaigns :: "jval list \<Rightarrow> nat" where
  "active_campaigns cs = length (filter (\<lambda>c. jget c ''status'' = JStr ''active'') cs)"

definition badge :: "string \<Rightarrow> jval list \<Rightarrow> jval list \<Rightarrow> nat" where
  "badge href campaigns policies = (if href = ''/campaigns'' then active_campaigns campaigns
     else if href = ''/policy'' then length policies else 0)"

definition agent_text :: "jval \<Rightarrow> string" where
  "agent_text beat = (let alive = truthy (jget beat ''alive''); ago = to_str (jget beat ''secondsAgo'') in
     (if alive then (if truthy (jget beat ''late'') then ''Agent late -- '' @ ago @ ''s since last cycle'' else ''Agent live -- cycled '' @ ago @ ''s ago'')
      else ''Agent not running'') @ (if alive \<and> truthy (jget beat ''dryRun'') then '' (dry run)'' else []))"

definition policy_text :: "jval list \<Rightarrow> string" where
  "policy_text policies = (if 0 < length policies
     then show_nat (length policies) @ '' policy '' @ (if length policies = 1 then ''key'' else ''keys'') @ '' in force'' else ''Detect-only'')"

text \<open>The theme: what is stored when it is one of the two, and the other one on a click.\<close>

definition first_theme :: "string \<Rightarrow> string" where
  "first_theme stored = (if stored = ''light'' \<or> stored = ''dark'' then stored else ''dark'')"

definition toggleTheme :: "string \<Rightarrow> string" where
  "toggleTheme theme = (if theme = ''dark'' then ''light'' else ''dark'')"

section \<open>Setup warnings\<close>

definition item_labels :: "jval \<Rightarrow> jval list" where
  "item_labels check = (case jor (jget check ''items'') (JArr []) of JArr xs \<Rightarrow> map (\<lambda>i. jget i ''label'') xs | _ \<Rightarrow> [])"

definition fingerprint :: "jval \<Rightarrow> string" where
  "fingerprint check = to_str (jget check ''id'') @ '':'' @ join ''|'' (map (\<lambda>l. if nullish l then [] else to_str l) (item_labels check))"

text \<open>The dismissed fingerprints: none when the storage does not hold a list that parses.\<close>

definition readDismissed :: "(string \<Rightarrow> jval option) \<Rightarrow> string \<Rightarrow> string list" where
  "readDismissed parse stored = (case parse (if stored = [] then ''[]'' else stored) of
     Some (JArr xs) \<Rightarrow> map to_str (filter (\<lambda>x. case x of JStr t \<Rightarrow> True | _ \<Rightarrow> False) xs) | _ \<Rightarrow> [])"

definition visible_checks :: "string list \<Rightarrow> jval list \<Rightarrow> jval list" where
  "visible_checks dismissed checks = filter (\<lambda>c. fingerprint c \<notin> set dismissed) checks"

text \<open>Dismissing adds to the set, in the page and, unless the storage is blocked, in the storage.\<close>

definition dismiss :: "(jval \<Rightarrow> string) \<Rightarrow> bool \<Rightarrow> jval \<Rightarrow> string list \<times> string \<Rightarrow> string list \<times> string" where
  "dismiss stringify blocked check ds = (case ds of (dismissed, stored) \<Rightarrow>
     let next' = (if fingerprint check \<in> set dismissed then dismissed else dismissed @ [fingerprint check]) in
     (next', if blocked then stored else stringify (JArr (map JStr next'))))"

section \<open>One clearing at a time\<close>

definition clearing_ok :: "dialog \<Rightarrow> bool" where
  "clearing_ok s \<longleftrightarrow> length (dl_runs s) \<le> 1 \<and> (dl_runs s = [] \<or> dl_busy s \<and> dl_open s \<and> dl_text s = ''clear'')"

lemma clear_simps [simp]: "dg_word ClearCampaignsControl = ''clear''" "dg_disabled_while_busy ClearCampaignsControl"
  by (simp_all add: ClearCampaignsControl_def)

lemma ended_runs [simp]: "dl_runs (ended d r s) = dl_runs s"
  by (simp add: ended_def say_it_def close_it_def Let_def split: dialog_answer.split sum.split prod.split)

lemma clear_step: "dialog_step ClearCampaignsControl s t \<Longrightarrow> clearing_ok s \<Longrightarrow> clearing_ok t"
proof (induction rule: dialog_step.induct)
  case (ends i s r)
  then have "length (dl_runs s) = 1" "i = 0" by (auto simp: clearing_ok_def)
  then have "dl_runs (end_run ClearCampaignsControl i r s) = []" by (simp add: end_run_def)
  then show ?case by (simp add: clearing_ok_def)
qed (auto simp: clearing_ok_def openDialog_def close_it_def run_it_def)

text \<open>While campaigns are being cleared the dialog stays open and busy with that one request, which somebody
  confirmed by typing the word, and its body is the one the route takes for a confirmation.\<close>

lemma clear_runs_once: "dialog_reach ClearCampaignsControl s \<Longrightarrow> clearing_ok s"
  by (induction rule: dialog_reach.induct) (simp add: clearing_ok_def dialog0_def, rule clear_step)

lemma confirmed_bodies:
  "reset_body = Some (confirm_request (dg_word ResetControl))" "clear_body = Some (confirm_request (dg_word ClearCampaignsControl))"
  by (simp_all add: reset_body_def clear_body_def confirm_request_def ResetControl_def)

text \<open>The reset can be opened again while one runs, so two can be under way.\<close>

lemma reset_may_run_twice: "\<exists>s. dialog_reach ResetControl s \<and> dl_runs s = [''reset'', ''reset'']"
proof -
  let ?d = ResetControl
  have w: "dg_word ?d = ''reset''" "\<not> dg_disabled_while_busy ?d" by (simp_all add: ResetControl_def)
  have go: "dialog_reach ?d (run_it ?d ((openDialog s)\<lparr>dl_text := ''reset''\<rparr>))" if "dialog_reach ?d s" for s
  proof -
    have "dialog_reach ?d (openDialog s)" by (rule next_dialog [OF that opens]) (simp add: w)
    then have "dialog_reach ?d ((openDialog s)\<lparr>dl_text := ''reset''\<rparr>)" by (rule next_dialog) (rule types, simp_all add: openDialog_def)
    then show ?thesis by (rule next_dialog) (rule runs, simp_all add: openDialog_def w)
  qed
  from go [OF go [OF first_dialog]] show ?thesis by (intro exI conjI) (assumption, simp add: run_it_def openDialog_def dialog0_def w)
qed

text \<open>A reset of which one store failed is reported as a good one.\<close>

lemma half_a_reset_is_good:
  "dl_toast (ended ResetControl (Got (json [(''ok'', JBool True), (''postgres'', reset_failed ''x''),
      (''redis'', JObj [(''ok'', JBool True), (''removed'', jint 2), (''trimmed'', jint 5)])])) s) =
    Some (''good'', ''console reset -- cleared 0 campaign record(s), 5 event(s) and 2 live key(s)'')"
proof -
  have "show_num (nint 5) = ''5''" "show_num (nint 2) = ''2''" by code_simp+
  then show ?thesis
    by (simp add: ended_def json_def dot_def nullish_def jget_Cons say_it_def close_it_def ResetControl_def reset_text_def is_ok_def
        reset_failed_def Let_def)
qed

section \<open>Dismissed warnings\<close>

text \<open>The checks of the setup: an id without a colon and labels without a bar.\<close>

definition clean_check :: "jval \<Rightarrow> bool" where
  "clean_check c \<longleftrightarrow> (case jget c ''id'' of JStr t \<Rightarrow> CHR '':'' \<notin> set t | _ \<Rightarrow> False) \<and>
     list_all (\<lambda>l. case l of JStr t \<Rightarrow> t \<noteq> [] \<and> CHR ''|'' \<notin> set t | _ \<Rightarrow> False) (item_labels c)"

definition same_warning :: "jval \<Rightarrow> jval \<Rightarrow> bool" where
  "same_warning a b \<longleftrightarrow> jget a ''id'' = jget b ''id'' \<and> item_labels a = item_labels b"

lemma join_inj:
  assumes "list_all (\<lambda>w. w \<noteq> [] \<and> c \<notin> set w) us" "list_all (\<lambda>w. w \<noteq> [] \<and> c \<notin> set w) vs" "join [c] us = join [c] vs"
  shows "us = vs"
proof -
  have n: "join [c] ws \<noteq> []" if "ws \<noteq> []" "list_all (\<lambda>w. w \<noteq> [] \<and> c \<notin> set w) ws" for ws
    using that by (cases ws; cases "tl ws") auto
  have z: "join [c] [] = []" by simp
  show ?thesis
  proof (cases "us = [] \<or> vs = []")
    case True
    then show ?thesis using assms n z by metis
  next
    case False
    have "split_on c (join [c] ws) = ws" if "ws \<noteq> []" "list_all (\<lambda>w. w \<noteq> [] \<and> c \<notin> set w) ws" for ws
      by (rule split_on_join [OF that(1)]) (use that(2) in \<open>auto simp: list_all_iff\<close>)
    then show ?thesis using False assms by metis
  qed
qed

lemma fingerprint_exact:
  assumes "clean_check a" "clean_check b"
  shows "fingerprint a = fingerprint b \<longleftrightarrow> same_warning a b"
proof -
  let ?t = "\<lambda>l. if nullish l then [] else to_str l"
  obtain i where i: "jget a ''id'' = JStr i" "CHR '':'' \<notin> set i" using assms(1) by (auto simp: clean_check_def split: jval.splits)
  obtain j where j: "jget b ''id'' = JStr j" "CHR '':'' \<notin> set j" using assms(2) by (auto simp: clean_check_def split: jval.splits)
  have texts: "\<exists>ws. item_labels c = map JStr ws \<and> map ?t (item_labels c) = ws \<and> list_all (\<lambda>w. w \<noteq> [] \<and> CHR ''|'' \<notin> set w) ws" if "clean_check c" for c
  proof -
    have g: "list_all (\<lambda>l. case l of JStr t \<Rightarrow> t \<noteq> [] \<and> CHR ''|'' \<notin> set t | _ \<Rightarrow> False) ls \<Longrightarrow>
        \<exists>ws. ls = map JStr ws \<and> list_all (\<lambda>w. w \<noteq> [] \<and> CHR ''|'' \<notin> set w) ws" for ls
    proof (induction ls)
      case (Cons l ls)
      from Cons.prems obtain t where t: "l = JStr t" "t \<noteq> []" "CHR ''|'' \<notin> set t" by (auto split: jval.splits)
      from Cons obtain ws where "ls = map JStr ws \<and> list_all (\<lambda>w. w \<noteq> [] \<and> CHR ''|'' \<notin> set w) ws" by auto
      with t have "l # ls = map JStr (t # ws) \<and> list_all (\<lambda>w. w \<noteq> [] \<and> CHR ''|'' \<notin> set w) (t # ws)" by simp
      then show ?case ..
    qed simp
    from that obtain ws where w: "item_labels c = map JStr ws" "list_all (\<lambda>w. w \<noteq> [] \<and> CHR ''|'' \<notin> set w) ws"
      using g [of "item_labels c"] by (auto simp: clean_check_def)
    then show ?thesis by (intro exI [of _ ws]) (simp add: comp_def nullish_def)
  qed
  obtain us where us: "item_labels a = map JStr us" "map ?t (item_labels a) = us" "list_all (\<lambda>w. w \<noteq> [] \<and> CHR ''|'' \<notin> set w) us"
    using texts [OF assms(1)] by blast
  obtain vs where vs: "item_labels b = map JStr vs" "map ?t (item_labels b) = vs" "list_all (\<lambda>w. w \<noteq> [] \<and> CHR ''|'' \<notin> set w) vs"
    using texts [OF assms(2)] by blast
  have f: "fingerprint a = i @ CHR '':'' # join ''|'' us" "fingerprint b = j @ CHR '':'' # join ''|'' vs"
    by (simp_all only: fingerprint_def us(2) vs(2) i(1) j(1) to_str.simps append.simps)
  have cut: "takeWhile (\<lambda>c. c \<noteq> CHR '':'') (w @ CHR '':'' # r) = w" if "CHR '':'' \<notin> set w" for w r
    using that by (induction w) auto
  have inj: "map JStr us = map JStr vs \<longleftrightarrow> us = vs" by (rule inj_map_eq_map) (simp add: inj_def)
  show ?thesis
  proof
    assume e: "fingerprint a = fingerprint b"
    then have "i = j" using cut [OF i(2)] cut [OF j(2)] unfolding f by metis
    moreover from this e have "us = vs" unfolding f using join_inj [OF us(3) vs(3)] by simp
    ultimately show "same_warning a b" by (simp add: same_warning_def i(1) j(1) us(1) vs(1))
  next
    assume "same_warning a b"
    then show "fingerprint a = fingerprint b" unfolding f by (simp add: same_warning_def i(1) j(1) us(1) vs(1) inj)
  qed
qed


definition routes_check :: jval where
  "routes_check = JObj [(''id'', JStr ''routes''), (''items'', JArr [JObj [(''label'', JStr ''GET /orders'')]])]"

definition proxy_check :: jval where
  "proxy_check = JObj [(''id'', JStr ''routes''), (''items'', JArr [JObj [(''label'', JStr ''GET /cart'')]])]"


end
