(* ===== verification/ConsolePages.thy ===== *)
theory ConsolePages
  imports ConsoleStore JsText
begin

text \<open>
  What the console's pages compute from the shared state: \<open>app/(console)/policy\<close>, \<open>campaigns\<close>, \<open>history\<close>,
  the overview \<open>app/(console)/page.jsx\<close> and \<open>ip/[address]\<close>, and the shared pieces of \<open>app/ui/parts.jsx\<close>.
  Policies and campaigns are the rows the plane route answers with; events are those of \<open>Telemetry\<close>, sources
  those of \<open>Geo\<close>. \<open>time_of\<close> is \<open>new Date(v).getTime()\<close> of a date text, NaN when it does not parse,
  \<open>locale_le\<close> the order of \<open>localeCompare\<close>, and \<open>grouped\<close> is \<open>toLocaleString\<close> of a number.
\<close>

section \<open>Texts of numbers\<close>

text \<open>\<open>toFixed\<close>: the nearest number with that many decimals, the larger of two (below \<open>10 ^ 21\<close>).\<close>

definition fixed_digits :: "nat \<Rightarrow> rat \<Rightarrow> string" where
  "fixed_digits f x = (let n = nat \<lfloor>x * of_nat (10 ^ f) + 1 / 2\<rfloor>; ds = show_nat n;
       p = replicate (Suc f - length ds) (CHR ''0'') @ ds in
     if f = 0 then p else take (length p - f) p @ ''.'' @ drop (length p - f) p)"

definition toFixed :: "nat \<Rightarrow> jnum \<Rightarrow> string" where
  "toFixed f v = (case v of Fin x \<Rightarrow> if \<bar>x\<bar> < 10 ^ 21 then (if x < 0 then ''-'' @ fixed_digits f (- x) else fixed_digits f x) else show_num v
     | _ \<Rightarrow> show_num v)"

definition num_asc :: "jnum \<Rightarrow> jnum \<Rightarrow> bool" where
  "num_asc a b \<longleftrightarrow> a = NaN \<or> b = NaN \<or> nle a b"

definition num_of :: "string \<Rightarrow> jval \<Rightarrow> jnum" where
  "num_of k r = to_num (jget r k)"

section \<open>Shared pieces\<close>

text \<open>The buttons of an address or a campaign: the action and whether it can be pressed.\<close>

definition action_row :: "string \<Rightarrow> string \<Rightarrow> (string \<times> bool) list" where
  "action_row current busy = map (\<lambda>a. (a, \<not> (busy \<noteq> [] \<or> a = current))) LADDER"

definition action_title :: "string \<Rightarrow> string \<Rightarrow> nat \<Rightarrow> string" where
  "action_title action current n = (if action = current then ''The agent already chose '' @ actionLabel action
     else ''Instruct '' @ actionLabel action @ '' for '' @ show_nat n @ '' '' @ (if n = 1 then ''address'' else ''addresses''))"

text \<open>The lines of a decision's explanation.\<close>

definition or_dash :: "jval \<Rightarrow> string" where
  "or_dash v = (if nullish v then ''--'' else to_str v)"

definition explanation_lines :: "jval \<Rightarrow> jval \<Rightarrow> jval \<Rightarrow> string list" where
  "explanation_lines explanation riskScore confidence = (let baseline = jor (jget explanation ''baseline'') (JObj []); final = jor (jget explanation ''final'') (JObj []);
       risk = jcoalesce riskScore (jget final ''risk_score''); conf = jcoalesce confidence (jget final ''confidence'') in
     [''Risk score '' @ or_dash risk @ ''/100. Policy confidence '' @ or_dash conf @ ''.''] @
     (if \<not> nullish (jget baseline ''threshold'') \<or> \<not> nullish (jget baseline ''observed'')
      then [''Baseline '' @ (if truthy (jget baseline ''baseline_ready'') then ''ready'' else ''not ready'') @ '': observed '' @ or_dash (jget baseline ''observed'') @
            '', threshold '' @ or_dash (jget baseline ''threshold'') @ '', deviation '' @ or_dash (jget baseline ''deviation'') @ ''.''] else []) @
     (case jor (jget final ''guardrails'') (JArr []) of JArr gs \<Rightarrow> if gs = [] then [] else [join ''; '' (map (\<lambda>g. if nullish g then [] else to_str g) gs)] | _ \<Rightarrow> []))"

definition statusTone :: "jval \<Rightarrow> string" where
  "statusTone status = (let code = to_num status in if code = nint 429 then ''warn'' else if nle (nint 400) code then ''bad'' else ''ok'')"

definition EVENT_ACTION_TONE :: "(string \<times> string) list" where
  "EVENT_ACTION_TONE = [(''temp_block'', ''bad''), (''temporary_block'', ''bad''), (''escalate'', ''bad''), (''throttle'', ''warn''),
     (''rate_limited'', ''warn''), (''monitor'', ''dim''), (''ownership_refused'', ''bad''), (''authentication_required'', ''bad''),
     (''body_too_large'', ''bad''), (''body_unreadable'', ''bad'')]"

definition action_tone :: "string \<Rightarrow> string" where
  "action_tone action = (case dget EVENT_ACTION_TONE action of Some t \<Rightarrow> t | None \<Rightarrow> ''ok'')"

text \<open>The addresses a campaign card shows, and how many more there are.\<close>

definition card_ips :: "string list \<Rightarrow> string list \<times> nat" where
  "card_ips ips = (take 8 ips, length ips - 8)"

text \<open>The trend line of a metric.\<close>

definition spark_points :: "jnum list \<Rightarrow> jnum option \<Rightarrow> jnum \<Rightarrow> jnum \<Rightarrow> (jnum \<times> jnum) list" where
  "spark_points values mx width height = (let top = nmax (nint 1) (case mx of Some m \<Rightarrow> m | None \<Rightarrow> foldr nmax (values @ [nint 1]) NInf); final = int (length values) - 1 in
     map (\<lambda>i. ((if 0 < final then nmul (ndiv (nint (int i)) (nint final)) width else width),
       nsub (nsub height (nint 3)) (nmul (ndiv (nmax (nint 0) (values ! i)) top) (nsub height (nint 6))))) [0..<length values])"

text \<open>An address field that is not empty must be an address.\<close>

definition ip_field_invalid :: "string \<Rightarrow> bool" where
  "ip_field_invalid value \<longleftrightarrow> value \<noteq> [] \<and> \<not> isValidIp value"

section \<open>The policy page\<close>

definition blocked_action :: "jval \<Rightarrow> bool" where
  "blocked_action p \<longleftrightarrow> jget p ''action'' = JStr ''temp_block'' \<or> jget p ''action'' = JStr ''temporary_block''"

definition policy_order :: "string \<Rightarrow> jval \<Rightarrow> jval \<Rightarrow> bool" where
  "policy_order key a b = (if key = ''expiry'' then num_asc (num_of ''expiresIn'' a) (num_of ''expiresIn'' b)
     else num_desc (num_of ''confidence'' a) (num_of ''confidence'' b))"

definition policy_rows :: "string \<Rightarrow> string \<Rightarrow> jval list \<Rightarrow> jval list" where
  "policy_rows key filterIp policies = js_sort (policy_order key) (filter (\<lambda>p. filterIp = [] \<or> jget p ''ip'' = JStr filterIp) policies)"

definition blocked_count :: "jval list \<Rightarrow> nat" where
  "blocked_count policies = length (filter blocked_action policies)"

definition expiring_soon :: "jval list \<Rightarrow> nat" where
  "expiring_soon policies = length (filter (\<lambda>p. \<not> nullish (jget p ''expiresIn'') \<and> jle (jint 0) (jget p ''expiresIn'') \<and>
     jle (jget p ''expiresIn'') (jint 3600)) policies)"

text \<open>The manual instruction; its fields are emptied once it has been queued.\<close>

record policy_form =
  pf_ip :: string
  pf_action :: string
  pf_reason :: string

definition submit_manual :: "jval \<Rightarrow> policy_form \<Rightarrow> console \<Rightarrow> console" where
  "submit_manual me f s = instruct me [trim (pf_ip f)] (pf_action f) ''manual'' s"

definition manual_queued :: "policy_form \<Rightarrow> policy_form" where
  "manual_queued f = f\<lparr>pf_ip := [], pf_reason := []\<rparr>"

definition manual_enabled :: "string \<Rightarrow> policy_form \<Rightarrow> bool" where
  "manual_enabled busy f \<longleftrightarrow> busy = [] \<and> trim (pf_ip f) \<noteq> []"

text \<open>A row offers the other actions of the ladder, none while a change is pending.\<close>

definition row_offers :: "(string \<times> string) list \<Rightarrow> jval \<Rightarrow> string list" where
  "row_offers pending p = (case dget pending (to_str (jget p ''ip'')) of
       Some a \<Rightarrow> if a = [] then filter (\<lambda>n. JStr n \<noteq> (case jget p ''action'' of JStr w \<Rightarrow> JStr (normalizeAction w) | v \<Rightarrow> v)) LADDER else []
     | None \<Rightarrow> filter (\<lambda>n. JStr n \<noteq> (case jget p ''action'' of JStr w \<Rightarrow> JStr (normalizeAction w) | v \<Rightarrow> v)) LADDER)"

definition remove_question :: "jval \<Rightarrow> string" where
  "remove_question p = ''Remove all '' @ to_str (jor (jget p ''policyCount'') (jint 1)) @ '' active policy scope'' @
     (if jget p ''policyCount'' = jint 1 then [] else ''s'') @ '' for '' @ to_str (jget p ''ip'') @
     ''? This takes effect immediately. The agent can recreate them if the campaign remains active.''"

definition removePolicy :: "jval \<Rightarrow> bool \<Rightarrow> jval \<Rightarrow> console \<Rightarrow> console" where
  "removePolicy me confirmed p s = (if \<not> confirmed then s else deletePolicy me (to_str (jget p ''ip'')) s)"

definition policy_origin :: "jval \<Rightarrow> string" where
  "policy_origin p = (if jget p ''source'' = JStr ''human'' then ''human''
     else if truthy (jget p ''campaignId'') \<and> jget p ''campaignId'' \<noteq> JStr ''manual'' then ''campaign #'' @ to_str (jget p ''campaignId'') else ''agent'')"

section \<open>The campaigns page\<close>

definition campaign_ips :: "jval \<Rightarrow> string list" where
  "campaign_ips c = (case jget c ''ips'' of JArr xs \<Rightarrow> map to_str xs | _ \<Rightarrow> [])"

definition campaign_sort :: "(jval \<Rightarrow> jnum) \<Rightarrow> string \<Rightarrow> jval \<Rightarrow> jval \<Rightarrow> bool" where
  "campaign_sort time_of key a b = (if key = ''events'' then num_desc (num_of ''events'' a) (num_of ''events'' b)
     else if key = ''ips'' then length (campaign_ips b) \<le> length (campaign_ips a)
     else if key = ''newest'' then num_desc (time_of (jget a ''lastSeen'')) (time_of (jget b ''lastSeen''))
     else num_desc (num_of ''confidence'' a) (num_of ''confidence'' b))"

definition has_status :: "string \<Rightarrow> jval \<Rightarrow> bool" where
  "has_status w c \<longleftrightarrow> jget c ''status'' = JStr w"

definition shown_campaigns :: "(jval \<Rightarrow> jnum) \<Rightarrow> string \<Rightarrow> string \<Rightarrow> string \<Rightarrow> jval list \<Rightarrow> jval list" where
  "shown_campaigns time_of status key ip cs = js_sort (campaign_sort time_of key)
     (filter (\<lambda>c. ip = [] \<or> ip \<in> set (campaign_ips c)) (filter (\<lambda>c. status = ''all'' \<or> has_status status c) cs))"

definition campaign_counts :: "jval list \<Rightarrow> nat \<times> nat \<times> nat" where
  "campaign_counts cs = (length cs, length (filter (has_status ''active'') cs), length (filter (has_status ''contained'') cs))"

definition toggle_selected :: "jval \<Rightarrow> jval list \<Rightarrow> jval list" where
  "toggle_selected i sel = (if i \<in> set sel then filter (\<lambda>x. x \<noteq> i) sel else sel @ [i])"

definition selectedIps :: "jval list \<Rightarrow> jval list \<Rightarrow> string list" where
  "selectedIps sel cs = concat (map campaign_ips (filter (\<lambda>c. jget c ''id'' \<in> set sel) cs))"

definition bulk_block :: "jval \<Rightarrow> jval list \<Rightarrow> jval list \<Rightarrow> console \<Rightarrow> console" where
  "bulk_block me sel cs s = instruct me (selectedIps sel cs) ''temp_block'' ''bulk'' s"

section \<open>The history page\<close>

definition HISTORY_COLUMNS :: "(string \<times> string) list" where
  "HISTORY_COLUMNS = [(''id'', ''#''), (''type'', ''Type''), (''ipCount'', ''IPs''), (''events'', ''Events''), (''confidence'', ''Confidence''),
     (''lastAction'', ''Ended as''), (''status'', ''Status''), (''lastSeen'', ''Last seen (IST)'')]"

definition history_matches :: "string \<Rightarrow> jval \<Rightarrow> bool" where
  "history_matches search c = (let q = to_lower (trim search) in
     q = [] \<or> contains q (to_lower (to_str (jget c ''type''))) \<or> contains q (to_lower (to_str (jget c ''status''))) \<or> to_str (jget c ''id'') = q)"

text \<open>The comparison of a column: whether the first may stay before the second.\<close>

definition column_le :: "(jval \<Rightarrow> jnum) \<Rightarrow> (string \<Rightarrow> string \<Rightarrow> bool) \<Rightarrow> string \<Rightarrow> jval \<Rightarrow> jval \<Rightarrow> bool" where
  "column_le time_of locale_le key a b =
     (let x = jget a key; y = jget b key in
      if key = ''id'' then num_asc (to_num x) (to_num y)
      else if key = ''lastSeen'' then num_asc (time_of x) (time_of y)
      else case x of JStr t \<Rightarrow> locale_le t (to_str y) | _ \<Rightarrow> num_asc (to_num x) (to_num y))"

definition column_ge :: "(jval \<Rightarrow> jnum) \<Rightarrow> (string \<Rightarrow> string \<Rightarrow> bool) \<Rightarrow> string \<Rightarrow> jval \<Rightarrow> jval \<Rightarrow> bool" where
  "column_ge time_of locale_le key a b =
     (let x = jget a key; y = jget b key in
      if key = ''id'' then num_desc (to_num x) (to_num y)
      else if key = ''lastSeen'' then num_desc (time_of x) (time_of y)
      else case x of JStr t \<Rightarrow> locale_le (to_str y) t | _ \<Rightarrow> num_desc (to_num x) (to_num y))"

definition history_rows :: "(jval \<Rightarrow> jnum) \<Rightarrow> (string \<Rightarrow> string \<Rightarrow> bool) \<Rightarrow> string \<times> bool \<Rightarrow> string \<Rightarrow> jval list \<Rightarrow> jval list" where
  "history_rows time_of locale_le order search cs = (case order of (key, up) \<Rightarrow>
     js_sort (if up then column_le time_of locale_le key else column_ge time_of locale_le key) (filter (history_matches search) cs))"

definition sortBy :: "string \<Rightarrow> string \<times> bool \<Rightarrow> string \<times> bool" where
  "sortBy key order = (if fst order = key then (key, \<not> snd order) else (key, False))"

section \<open>The overview\<close>

definition RANGE_COPY :: "(string \<times> string) list" where
  "RANGE_COPY = [(''1h'', ''the last hour''), (''24h'', ''the last 24 hours''), (''7d'', ''the last 7 days'')]"

definition alertRate :: "stats \<Rightarrow> string" where
  "alertRate st = (if truthy (JNum (st_requests st)) then toFixed 1 (nmul (ndiv (st_alerts st) (st_requests st)) (nint 100)) else ''0.0'')"

definition throttled_action :: "jval \<Rightarrow> bool" where
  "throttled_action p \<longleftrightarrow> jget p ''action'' = JStr ''throttle'' \<or> jget p ''action'' = JStr ''rate_limited''"

record signal_row =
  sr_name :: string
  sr_count :: jnum
  sr_pct :: jnum
  sr_label :: string
  sr_color :: string

definition percent :: "jnum \<Rightarrow> jnum \<Rightarrow> jnum" where
  "percent n total' = nmul (ndiv n total') (nint 100)"

definition or_one :: "jnum \<Rightarrow> jnum" where
  "or_one n = (if truthy (JNum n) then n else nint 1)"

definition signalRows :: "(string \<times> jnum) list \<Rightarrow> signal_row list" where
  "signalRows signals = (let entries = index_sorted signals; total' = or_one (foldl (\<lambda>sum (k, n). nadd sum n) (Fin 0) entries) in
     map (\<lambda>(k, n). \<lparr>sr_name = k, sr_count = n, sr_pct = nround (percent n total'), sr_label = fst (signalMeta k), sr_color = snd (signalMeta k)\<rparr>)
       (js_sort (\<lambda>a b. num_desc (snd a) (snd b)) entries))"

definition signalHits :: "signal_row list \<Rightarrow> jnum" where
  "signalHits rows = foldl (\<lambda>sum r. nadd sum (sr_count r)) (Fin 0) rows"

text \<open>A source with its place, as the overview route gives it.\<close>

record placed =
  pc_ip :: string
  pc_requests :: jnum
  pc_private :: bool
  pc_city :: string
  pc_country :: string

definition place_of :: "placed list \<Rightarrow> string \<Rightarrow> string" where
  "place_of sources ip = (case find (\<lambda>p. pc_ip p = ip) sources of None \<Rightarrow> []
     | Some p \<Rightarrow> if pc_private p then ''Private network''
         else (let parts = filter (\<lambda>w. w \<noteq> []) [pc_city p, pc_country p] in if parts = [] then ''Unknown location'' else join '', '' parts))"

definition attacker_risk :: "event list \<Rightarrow> string \<Rightarrow> jnum option" where
  "attacker_risk events ip = (let es = filter (\<lambda>e. ev_ip e = ip) events in
     if es = [] then None else Some (foldr nmax (map (\<lambda>e. clampRiskScore (ev_risk e)) es) NInf))"

record top_attacker =
  at_ip :: string
  at_alerts :: jnum
  at_meta :: string
  at_risk :: "jnum option"

definition attackerRow :: "(jnum \<Rightarrow> string) \<Rightarrow> placed list \<Rightarrow> event list \<Rightarrow> string \<times> jnum \<Rightarrow> top_attacker" where
  "attackerRow grouped sources events a = (case a of (ip, alerts) \<Rightarrow> let place = place_of sources ip in
     \<lparr>at_ip = ip, at_alerts = alerts,
      at_meta = (if place = [] then [] else place @ [CHR '' '', char_of (183::nat), CHR '' ''] @ grouped alerts @ '' '' @ (if alerts = nint 1 then ''alert'' else ''alerts'')),
      at_risk = attacker_risk events ip\<rparr>)"

definition regions :: "placed list \<Rightarrow> (string \<times> jnum) list" where
  "regions sources = index_sorted (fold (\<lambda>p d. if pc_private p \<or> pc_country p = [] then d
     else dput (pc_country p) (nadd (case dget d (pc_country p) of Some n \<Rightarrow> (if truthy (JNum n) then n else Fin 0) | None \<Rightarrow> Fin 0) (pc_requests p)) d) sources [])"

definition topRegion :: "placed list \<Rightarrow> (string \<times> string) option" where
  "topRegion sources = (case js_sort (\<lambda>a b. num_desc (snd a) (snd b)) (regions sources) of
       [] \<Rightarrow> None
     | (name, n) # rest \<Rightarrow> Some (name, toFixed 1 (percent n (or_one (foldl (\<lambda>sum (k, m). nadd sum m) (Fin 0) ((name, n) # rest))))))"

section \<open>The page of one address\<close>

record address_page =
  ad_data :: jval
  ad_loading :: bool
  ad_loads :: nat

definition address0 :: address_page where
  "address0 = \<lparr>ad_data = JNull, ad_loading = True, ad_loads = 1\<rparr>"

text \<open>A load ends with the body, or with a failure that is not shown.\<close>

definition address_loaded :: "jserr + jval \<Rightarrow> address_page \<Rightarrow> address_page" where
  "address_loaded r s = s\<lparr>ad_data := (case r of Inl e \<Rightarrow> ad_data s | Inr v \<Rightarrow> v), ad_loading := False, ad_loads := ad_loads s - 1\<rparr>"

definition address_title :: "jval \<Rightarrow> string" where
  "address_title data = (if truthy (jget data ''private'')
     then ''A private or container address -- the decision engine will never write policy for it.''
     else to_str (jor (jget (jget data ''location'') ''city'') (JStr ''Unknown location'')) @
       (if truthy (jget (jget data ''location'') ''country'') then '', '' @ to_str (jget (jget data ''location'') ''country'') else []))"

definition alert_share :: "jval \<Rightarrow> string" where
  "alert_share summary = (if truthy (jget summary ''requests'')
     then show_num (nround (nmul (ndiv (num_of ''alerts'' summary) (num_of ''requests'' summary)) (nint 100))) @ ''% of its traffic'' else ''none'')"

text \<open>The SQL injection evidence of an event: the first such signal that crossed its threshold.\<close>

definition sqli_evidence :: "jval \<Rightarrow> jval option" where
  "sqli_evidence event = (case jor (jget event ''signals'') (JArr []) of
     JArr xs \<Rightarrow> find (\<lambda>x. jget x ''signal'' = JStr ''sql_injection'' \<and> truthy (jget x ''thresholdCross'')) xs | _ \<Rightarrow> None)"

definition sqliEvents :: "jval list \<Rightarrow> (jval \<times> jval) list" where
  "sqliEvents events = concat (map (\<lambda>e. case sqli_evidence e of None \<Rightarrow> [] | Some x \<Rightarrow> [(e, x)]) events)"

definition evidence_risk :: "jval \<times> jval \<Rightarrow> jnum" where
  "evidence_risk p = clampRiskScore (jcoalesce (jget (fst p) ''riskScore'') (jget (snd p) ''score''))"

definition evidence_text :: "jval \<Rightarrow> string" where
  "evidence_text x = (let n = jor (jget (jget x ''details'') ''matchCount'') (jint 0);
       ps = (case jor (jget (jget x ''details'') ''matchedPatterns'') (JArr []) of JArr gs \<Rightarrow> join '', '' (map (\<lambda>g. if nullish g then [] else to_str g) gs) | _ \<Rightarrow> []) in
     to_str n @ '' pattern'' @ (if n = jint 1 then [] else ''s'') @ '': '' @ (if ps = [] then ''--'' else ps))"

text \<open>The actions offered: none for a private address.\<close>

definition address_actions :: "jval \<Rightarrow> string \<Rightarrow> (string \<times> bool) list" where
  "address_actions data busy = (if truthy (jget data ''private'') then []
     else action_row (to_str (jor (jget (jget data ''policy'') ''action'') (JStr []))) busy)"

section \<open>Orders\<close>

lemma num_asc_total: "num_asc a b \<or> num_asc b a"
  using nle_total [of a b] by (auto simp: num_asc_def)

lemma num_asc_trans: "b \<noteq> NaN \<Longrightarrow> num_asc a b \<Longrightarrow> num_asc b c \<Longrightarrow> num_asc a c"
  using nle_trans [of a b c] by (auto simp: num_asc_def)

interpretation expiring: preference "policy_order ''expiry''" "\<lambda>p. num_of ''expiresIn'' p \<noteq> NaN"
  by unfold_locales (auto simp: policy_order_def num_asc_total intro: num_asc_trans)

interpretation regional: preference "\<lambda>a b. num_desc (snd a) (snd b)" "\<lambda>p. snd p \<noteq> NaN"
  by unfold_locales (auto simp: num_desc_total intro: num_desc_trans)

text \<open>The rows are in the order of what is left of them, which puts a policy without an expiry, which Redis reports
  as \<open>-1\<close>, before every one that expires.\<close>

lemma expiring_rows_sorted:
  "(\<forall>p \<in> set policies. num_of ''expiresIn'' p \<noteq> NaN) \<Longrightarrow> sorted_wrt (policy_order ''expiry'') (policy_rows ''expiry'' ip policies)"
  unfolding policy_rows_def by (rule expiring.js_sort_sorted) auto

lemma no_expiry_is_first:
  assumes "num_of ''expiresIn'' p = nint (- 1)" "num_of ''expiresIn'' q = nint n" "0 \<le> n" "jget p ''ip'' = JStr ip" "jget q ''ip'' = JStr ip"
  shows "policy_rows ''expiry'' ip [q, p] = [p, q]" "formatTtl (jint (- 1)) = ''no expiry''"
proof -
  have "(0 :: rat) \<le> of_int n" using assms(3) by simp
  then have "\<not> (of_int n :: rat) \<le> - 1" by linarith
  then show "policy_rows ''expiry'' ip [q, p] = [p, q]"
    using assms by (simp add: policy_rows_def policy_order_def js_sort_def num_asc_def)
  show "formatTtl (jint (- 1)) = ''no expiry''" by (simp add: formatTtl_def nullish_def)
qed

text \<open>A click on a column sorts by it, the largest first; one more click turns the order round.\<close>

lemma sortBy_twice: "sortBy k (sortBy k order) = (if fst order = k then order else (k, True))"
  by (auto simp: sortBy_def)

section \<open>Buttons\<close>

text \<open>Every action a page offers is one the override route knows.\<close>

lemma offered_actions_known:
  "set (map fst (action_row current busy)) \<subseteq> set LADDER" "set (row_offers pending p) \<subseteq> set LADDER"
  "a \<in> set (row_offers pending p) \<Longrightarrow> jget p ''action'' = JStr w \<Longrightarrow> a \<noteq> normalizeAction w"
  by (auto simp: action_row_def row_offers_def split: option.splits if_splits)

lemma toggle_selected_twice: "distinct sel \<Longrightarrow> set (toggle_selected i (toggle_selected i sel)) = set sel"
  by (auto simp: toggle_selected_def)

text \<open>The bulk block instructs a temporary block of exactly the addresses of the selected campaigns that are still
  there, each once, whatever is shown.\<close>

lemma bulk_blocks_the_selection:
  assumes "canAct me"
  shows "let ips = {ip. ip \<noteq> [] \<and> (\<exists>c \<in> set cs. jget c ''id'' \<in> set sel \<and> ip \<in> set (campaign_ips c))}; t = bulk_block me sel cs s in
    if ips = {} then t = s
    else \<exists>xs. co_ops t = co_ops s @ [Instructing xs ''temp_block''] \<and> set xs = ips \<and> distinct xs \<and> co_busy t = ''bulk:temp_block''"
proof -
  let ?xs = "targets (selectedIps sel cs)"
  have x: "set ?xs = {ip. ip \<noteq> [] \<and> (\<exists>c \<in> set cs. jget c ''id'' \<in> set sel \<and> ip \<in> set (campaign_ips c))}" "distinct ?xs"
    by (auto simp: targets_def selectedIps_def)
  show ?thesis
  proof (cases "?xs = []")
    case True
    then have "{ip. ip \<noteq> [] \<and> (\<exists>c \<in> set cs. jget c ''id'' \<in> set sel \<and> ip \<in> set (campaign_ips c))} = {}" using x(1) by simp
    then show ?thesis using True by (simp only: Let_def bulk_block_def instruct_def simp_thms if_True)
  next
    case False
    then have n: "{ip. ip \<noteq> [] \<and> (\<exists>c \<in> set cs. jget c ''id'' \<in> set sel \<and> ip \<in> set (campaign_ips c))} \<noteq> {}" unfolding x(1) [symmetric] by simp
    have "co_ops (bulk_block me sel cs s) = co_ops s @ [Instructing ?xs ''temp_block''] \<and> co_busy (bulk_block me sel cs s) = ''bulk:temp_block''"
      using False assms by (simp add: bulk_block_def instruct_def)
    then show ?thesis unfolding Let_def using n x by auto
  qed
qed

section \<open>Shares\<close>

lemma share_bounded:
  assumes "0 \<le> n" "n \<le> t" "0 < t" "t < 2 ^ 53"
  shows "\<exists>x. nround (percent (nint n) (nint t)) = Fin x \<and> 0 \<le> x \<and> x \<le> 100"
proof -
  have "(of_int n / of_int t :: rat) \<le> 1" "0 \<le> (of_int n / of_int t :: rat)" using assms by simp_all
  then have "nle (fl (of_int n / of_int t)) (fl 1)" "nle (Fin 0) (fl (of_int n / of_int t))"
    by (auto intro: fl_mono fl_nonneg [unfolded nonneg_def])
  then obtain y where y: "fl (of_int n / of_int t) = Fin y" "0 \<le> y" "y \<le> 1"
    using fl_int [of 1] by (cases "fl (of_int n / of_int t)") auto
  then have "nle (fl (y * 100)) (fl 100)" "nle (Fin 0) (fl (y * 100))" by (auto intro: fl_mono fl_nonneg [unfolded nonneg_def])
  then obtain z where z: "fl (y * 100) = Fin z" "0 \<le> z" "z \<le> 100"
    using fl_int [of 100] by (cases "fl (y * 100)") auto
  have "0 \<le> \<lfloor>z + 1 / 2\<rfloor>" "\<lfloor>z + 1 / 2\<rfloor> \<le> 100" using z by linarith+
  then have "(0 :: rat) \<le> of_int \<lfloor>z + 1 / 2\<rfloor>" "of_int \<lfloor>z + 1 / 2\<rfloor> \<le> (100 :: rat)" by simp_all
  then show ?thesis using assms(3) y z by (simp add: percent_def)
qed

text \<open>Of whole counts whose sum is exact, every share shown is a number from 0 to 100.\<close>

lemma shares_bounded:
  assumes "\<forall>p \<in> set signals. \<exists>i\<ge>0. snd p = nint i" "foldl (\<lambda>sum (k, n). nadd sum n) (Fin 0) (index_sorted signals) = nint t" "0 < t" "t < 2 ^ 53"
    and "\<forall>p \<in> set signals. \<exists>i. snd p = nint i \<and> i \<le> t"
  shows "\<forall>r \<in> set (signalRows signals). \<exists>x. sr_pct r = Fin x \<and> 0 \<le> x \<and> x \<le> 100"
proof -
  have o: "or_one (nint t) = nint t" using assms(3) by (simp add: or_one_def)
  have "\<exists>x. nround (percent n (nint t)) = Fin x \<and> 0 \<le> x \<and> x \<le> 100" if kn: "(k, n) \<in> set signals" for k n
  proof -
    obtain i where "n = nint i" "0 \<le> i" using assms(1) kn by force
    moreover obtain j where "n = nint j" "j \<le> t" using assms(5) kn by force
    ultimately show ?thesis using share_bounded [of i t] assms(3,4) by simp
  qed
  then show ?thesis by (auto simp: signalRows_def assms(2) o Let_def)
qed

end
