(* ===== verification/ConsoleViews.thy ===== *)
theory ConsoleViews
  imports ConsolePages JsDate "HOL-Library.Word"
begin

text \<open>
  What the console shows of requests and of the map: the clock of \<open>app/ui/format.js\<close>, the table and the
  dialog of requests and the buttons of \<open>app/ui/parts.jsx\<close>, and \<open>app/traffic-map.jsx\<close> with the atlas all maps
  share. \<open>time_of\<close> is \<open>new Date(..).getTime()\<close>. Events are the objects the routes send. The drawing of the
  map is d3's.
\<close>

section \<open>The clock\<close>

text \<open>The wall clock of India, five and a half hours after UTC without summer time since 1945.\<close>

definition second_of_day :: "int \<Rightarrow> int" where
  "second_of_day ms = (ms div 1000 + 19800) mod 86400"

definition clock :: "int \<Rightarrow> string" where
  "clock s = pad 2 (s div 3600) @ '':'' @ pad 2 (s div 60 mod 60) @ '':'' @ pad 2 (s mod 60)"

definition formatTime :: "(jval \<Rightarrow> jnum) \<Rightarrow> jval \<Rightarrow> string" where
  "formatTime time_of v = (if \<not> truthy v then ''-''
     else case time_clip (time_of v) of None \<Rightarrow> ''-'' | Some ms \<Rightarrow> clock (second_of_day ms))"

definition ACTION_TONE :: "(string \<times> string) list" where
  "ACTION_TONE = [(''monitor'', ''low''), (''throttle'', ''mid''), (''rate_limited'', ''mid''), (''temp_block'', ''high''),
     (''temporary_block'', ''high''), (''escalate'', ''high'')]"

definition SIGNAL_OPTIONS :: "string list" where
  "SIGNAL_OPTIONS = map (\<lambda>(k, (label, colour)). label) SIGNAL_META"

section \<open>Requests\<close>

definition fired_names :: "jval \<Rightarrow> string list" where
  "fired_names e = (case jor (jget e ''fired'') (JArr []) of JArr xs \<Rightarrow> map to_str xs | _ \<Rightarrow> [])"

text \<open>The labels of the signals of a row.\<close>

definition row_signals :: "jval \<Rightarrow> string list" where
  "row_signals e = map (\<lambda>n. fst (signalMeta n)) (canonicalSignals (fired_names e))"

definition with_unit :: "string \<Rightarrow> jval \<Rightarrow> jval" where
  "with_unit u v = (if nullish v then JNull else JStr (to_str v @ '' '' @ u))"

definition if_set :: "(jval \<Rightarrow> string) \<Rightarrow> jval \<Rightarrow> jval" where
  "if_set f v = (if truthy v then JStr (f v) else v)"

definition retry_after :: "jval \<Rightarrow> jval" where
  "retry_after e = (if jget e ''status'' = jint 429 then jor (jget e ''retryAfter'') (JStr ''Not recorded for this event'')
     else JStr ''Not applicable'')"

definition endpoint_text :: "jval \<Rightarrow> string" where
  "endpoint_text e = join '' '' (map to_str (filter truthy [jget e ''method'', jget e ''path'']))"

definition detail_fields :: "(jval \<Rightarrow> jnum) \<Rightarrow> jval \<Rightarrow> (string \<times> jval) list" where
  "detail_fields time_of e = (let g = jget e; at' = if_set (formatTime time_of) in
    [(''Request ID'', g ''requestId''), (''Request number'', g ''seq''), (''Arrived'', at' (g ''arrivalTs'')), (''Completed'', at' (g ''ts'')),
     (''Source IP'', g ''ip''), (''User agent'', g ''userAgent''), (''Endpoint'', JStr (endpoint_text e)), (''Route template'', g ''routeTemplate''),
     (''Query'', g ''query''), (''Status'', g ''status''), (''Retry-After'', retry_after e), (''Response origin'', g ''responseOrigin''),
     (''Gateway reason'', g ''gatewayReason''), (''Decision'', JStr (actionLabel (to_str (jor (g ''decision'') (JStr []))))), (''Risk score'', g ''riskScore''),
     (''Upstream status'', g ''upstreamStatus''), (''Upstream outcome'', g ''upstreamOutcome''), (''Upstream duration'', with_unit ''ms'' (g ''upstreamDurationMs'')),
     (''Gateway duration'', with_unit ''ms'' (g ''gatewayMs'')), (''Request body'', with_unit ''bytes'' (g ''requestBodyBytes'')),
     (''Response body'', with_unit ''bytes'' (g ''responseBodyBytes''))])"

definition shown_value :: "jval \<Rightarrow> string" where
  "shown_value v = (if nullish v \<or> v = JStr [] then ''--'' else to_str v)"

definition EventDetails :: "(jval \<Rightarrow> jnum) \<Rightarrow> jval \<Rightarrow> (string \<times> string) list" where
  "EventDetails time_of e = map (\<lambda>(label, v). (label, shown_value v)) (detail_fields time_of e)"

definition export_title :: "nat \<Rightarrow> string \<Rightarrow> string" where
  "export_title n kind = (if n = 0 then ''Nothing to export'' else ''Download these '' @ show_nat n @ '' rows as '' @ kind)"

text \<open>A snapshot: before, capture, after; the button is ready again even when the capture fails, but not when what
  the page does afterwards fails.\<close>

definition snapshot_run :: "jserr option \<Rightarrow> jserr option \<Rightarrow> jserr option \<Rightarrow> bool \<times> string option" where
  "snapshot_run before capture after = (after \<noteq> None,
     case (before, capture) of (None, None) \<Rightarrow> None
       | (Some e, _) \<Rightarrow> Some (''snapshot failed: '' @ err_message e) | (None, Some e) \<Rightarrow> Some (''snapshot failed: '' @ err_message e))"

section \<open>The map\<close>

text \<open>\<open>hash = (hash * 31 + code) >>> 0\<close>\<close>

definition pulse_hash :: "string \<Rightarrow> 32 word" where
  "pulse_hash ip = foldl (\<lambda>h c. h * 31 + of_nat (of_char c)) 0 ip"

definition pulseDelay :: "string \<Rightarrow> jnum" where
  "pulseDelay ip = ndiv (nint (int (unat (pulse_hash ip) mod 26))) (nint 10)"

definition publicSources :: "jval list \<Rightarrow> jval list" where
  "publicSources sources = filter (\<lambda>s. \<not> truthy (jget s ''private'') \<and> \<not> nullish (jget s ''lat'') \<and> \<not> nullish (jget s ''lon'')) sources"

definition map_private :: "jval list \<Rightarrow> jval list" where
  "map_private sources = filter (\<lambda>s. truthy (jget s ''private'')) sources"

definition alerting :: "jval \<Rightarrow> bool" where
  "alerting s \<longleftrightarrow> nlt (nint 0) (to_num (jget s ''alerts''))"

text \<open>\<open>worldPromise\<close>: nothing, on its way, or the atlas. A map waits for it, has it, or says that it is unavailable.\<close>

datatype 'w atlas = NoAtlas | Coming | Atlas 'w

record 'w map_view =
  mv_world :: "'w option"
  mv_error :: bool
  mv_waits :: bool
  mv_cancelled :: bool

record 'w maps =
  mp_atlas :: "'w atlas"
  mp_views :: "'w map_view list"
  mp_fetches :: nat

definition maps0 :: "'w maps" where
  "maps0 = \<lparr>mp_atlas = NoAtlas, mp_views = [], mp_fetches = 0\<rparr>"

definition told :: "('w map_view \<Rightarrow> 'w map_view) \<Rightarrow> 'w map_view \<Rightarrow> 'w map_view" where
  "told f v = (if mv_waits v then (if mv_cancelled v then v else f v)\<lparr>mv_waits := False\<rparr> else v)"

text \<open>A map appears and calls \<open>loadWorld\<close>, which starts a request unless one was made before.\<close>

definition map_appears :: "'w maps \<Rightarrow> 'w maps" where
  "map_appears m = (let v = \<lparr>mv_world = None, mv_error = False, mv_waits = True, mv_cancelled = False\<rparr> in
     case mp_atlas m of
       NoAtlas \<Rightarrow> \<lparr>mp_atlas = Coming, mp_views = mp_views m @ [v], mp_fetches = Suc (mp_fetches m)\<rparr>
     | Coming \<Rightarrow> m\<lparr>mp_views := mp_views m @ [v]\<rparr>
     | Atlas w \<Rightarrow> m\<lparr>mp_views := mp_views m @ [told (\<lambda>v. v\<lparr>mv_world := Some w\<rparr>) v]\<rparr>)"

definition map_goes :: "nat \<Rightarrow> 'w maps \<Rightarrow> 'w maps" where
  "map_goes i m = m\<lparr>mp_views := (mp_views m)[i := (mp_views m ! i)\<lparr>mv_cancelled := True\<rparr>]\<rparr>"

text \<open>The request ends; a failed one is forgotten so that a later map asks again.\<close>

definition atlas_came :: "'w option \<Rightarrow> 'w maps \<Rightarrow> 'w maps" where
  "atlas_came r m = (case r of
       Some w \<Rightarrow> m\<lparr>mp_atlas := Atlas w, mp_views := map (told (\<lambda>v. v\<lparr>mv_world := Some w\<rparr>)) (mp_views m)\<rparr>
     | None \<Rightarrow> m\<lparr>mp_atlas := NoAtlas, mp_views := map (told (\<lambda>v. v\<lparr>mv_error := True\<rparr>)) (mp_views m)\<rparr>)"

inductive map_reach :: "'w maps \<Rightarrow> bool" where
  no_maps: "map_reach maps0"
| appears: "map_reach m \<Longrightarrow> map_reach (map_appears m)"
| goes: "map_reach m \<Longrightarrow> i < length (mp_views m) \<Longrightarrow> map_reach (map_goes i m)"
| comes: "map_reach m \<Longrightarrow> mp_atlas m = Coming \<Longrightarrow> map_reach (atlas_came r m)"

section \<open>What holds\<close>

lemma second_of_day_range: "0 \<le> second_of_day ms" "second_of_day ms < 86400"
  by (simp_all add: second_of_day_def)

lemma next_day: "second_of_day (ms + 86400000) = second_of_day ms"
proof -
  have "(ms + 86400 * 1000) div 1000 = 86400 + ms div 1000" by (rule div_mult_self1) simp
  then have "(ms + 86400000) div 1000 = ms div 1000 + 86400" by simp
  then have "(ms + 86400000) div 1000 + 19800 = ms div 1000 + 19800 + 1 * 86400" by simp
  then show ?thesis unfolding second_of_day_def by (simp only: mod_mult_self1)
qed

text \<open>The clock names the second of the day: it can be read back.\<close>

lemma clock_parts:
  fixes s :: int
  shows "s = 3600 * (s div 3600) + 60 * (s div 60 mod 60) + s mod 60"
proof -
  have "s div 3600 = s div 60 div 60" by (simp add: div_mult2_eq [of 60 60, symmetric] zdiv_zmult2_eq)
  then show ?thesis using mult_div_mod_eq [of 60 "s div 60"] mult_div_mod_eq [of 60 s] by linarith
qed

lemma midnight_in_utc: "formatTime (\<lambda>v. nint 0) (JStr ''1970-01-01'') = ''05:30:00''"
  by code_simp

text \<open>The hash is the polynomial of the codes, modulo \<open>2 ^ 32\<close>.\<close>

lemma pulse_hash_polynomial:
  "uint (pulse_hash ip) = foldl (\<lambda>h c. h * 31 + int (of_char c)) 0 ip mod 2 ^ 32"
proof -
  have "uint (foldl (\<lambda>h c. h * 31 + of_nat (of_char c)) (word_of_int a :: 32 word) ip) = foldl (\<lambda>h c. h * 31 + int (of_char c)) a ip mod 2 ^ 32" for a
  proof (induction ip arbitrary: a)
    case Nil
    then show ?case by (simp add: uint_word_of_int)
  next
    case (Cons c ip)
    have "(word_of_int a :: 32 word) * 31 + of_nat (of_char c) = word_of_int (a * 31 + int (of_char c))" by simp
    then show ?case using Cons [of "a * 31 + int (of_char c)"] by simp
  qed
  from this [of 0] show ?thesis by (simp add: pulse_hash_def)
qed

lemma pulse_delay_bounds: "\<exists>n \<le> 25. pulseDelay ip = ndiv (nint (int n)) (nint 10)"
  by (rule exI [of _ "unat (pulse_hash ip) mod 26"]) (simp add: pulseDelay_def)

text \<open>No map waits for nothing: one that has not gone shows the atlas, or says that it is unavailable, or waits for the
  request under way; and what it shows is the atlas all maps share.\<close>

definition map_served :: "'w atlas \<Rightarrow> 'w map_view \<Rightarrow> bool" where
  "map_served a v \<longleftrightarrow> (mv_waits v \<longrightarrow> a = Coming \<and> mv_world v = None) \<and> (mv_cancelled v \<or> mv_waits v \<or> mv_error v \<or> mv_world v \<noteq> None) \<and>
     (case mv_world v of None \<Rightarrow> True | Some w \<Rightarrow> a = Atlas w)"

lemma served_told:
  "map_served Coming v \<Longrightarrow> map_served (Atlas w) (told (\<lambda>v. v\<lparr>mv_world := Some w\<rparr>) v)"
  "map_served Coming v \<Longrightarrow> map_served NoAtlas (told (\<lambda>v. v\<lparr>mv_error := True\<rparr>) v)"
  by (auto simp: map_served_def told_def split: option.splits)

lemma maps_served: "map_reach m \<Longrightarrow> list_all (map_served (mp_atlas m)) (mp_views m)"
proof (induction rule: map_reach.induct)
  case no_maps
  then show ?case by (simp add: maps0_def)
next
  case (appears m)
  have up: "map_served NoAtlas v \<Longrightarrow> map_served Coming v" for v by (auto simp: map_served_def split: option.splits)
  from appears.IH show ?case
    by (cases "mp_atlas m") (auto simp: map_appears_def Let_def list_all_iff map_served_def told_def dest: up split: option.splits)
next
  case (goes m i)
  have "map_served a v \<Longrightarrow> map_served a (v\<lparr>mv_cancelled := True\<rparr>)" for a v by (auto simp: map_served_def split: option.splits)
  moreover have "map_served (mp_atlas m) (mp_views m ! i)" using goes.IH goes.hyps(2) by (simp add: list_all_length)
  ultimately show ?case using goes.IH by (auto simp: map_goes_def list_all_iff dest!: set_update_subset_insert [THEN subsetD])
next
  case (comes m r)
  then show ?case by (cases r) (auto simp: atlas_came_def list_all_iff intro: served_told)
qed

lemma atlas_fetched_once: "mp_atlas m \<noteq> NoAtlas \<Longrightarrow> mp_fetches (map_appears m) = mp_fetches m"
  by (cases "mp_atlas m") (simp_all add: map_appears_def Let_def)

end
