(* ===== verification/StorePages.thy ===== *)
theory StorePages
  imports Storefront
begin

text \<open>
  The storefront's pages over \<open>ShopApi\<close> and \<open>Storefront\<close>: the shop with its filters in the URL
  (\<open>pages/Shop.jsx\<close>), the whole catalogue (\<open>pages/AllProducts.jsx\<close>), the quantity and the comment of the product page
  (\<open>pages/ProductPage.jsx\<close>), signing in (\<open>pages/Auth.jsx\<close>) and the product form of the administration
  (\<open>pages/Admin.jsx\<close>). A search part of the URL is a dictionary. The mock catalogue answers
  every request after the same delay, so the shop's answers come in the order of its requests; those
  of the backend come in any order.
\<close>

section \<open>The shop\<close>

definition param :: "(string \<times> string) list \<Rightarrow> string \<Rightarrow> string" where
  "param ps k = (case dget ps k of None \<Rightarrow> [] | Some v \<Rightarrow> v)"

definition sort_of :: "(string \<times> string) list \<Rightarrow> string" where
  "sort_of ps = (if param ps ''sort'' = [] then ''newest'' else param ps ''sort'')"

text \<open>The values the effects depend on.\<close>

definition shop_filters :: "(string \<times> string) list \<Rightarrow> string list" where
  "shop_filters ps = [param ps ''category'', param ps ''search'', sort_of ps, param ps ''minPrice'', param ps ''maxPrice'',
     param ps ''rating'', param ps ''newArrival'']"

definition shop_query :: "(string \<times> string) list \<Rightarrow> int \<Rightarrow> catalogue_query" where
  "shop_query ps page = \<lparr>cq_category = param ps ''category'', cq_featured = False, cq_new = (param ps ''newArrival'' = ''true''),
     cq_search = param ps ''search'', cq_min = param ps ''minPrice'', cq_max = param ps ''maxPrice'', cq_rating = param ps ''rating'',
     cq_sort = sort_of ps, cq_page = page, cq_limit = 12\<rparr>"

record shop_view =
  sv_params :: "(string \<times> string) list"
  sv_page :: int
  sv_shown :: "catalogue_page option"
  sv_loading :: bool
  sv_fetches :: "catalogue_query list"
  sv_min :: string
  sv_max :: string

definition fetchProducts :: "shop_view \<Rightarrow> shop_view" where
  "fetchProducts s = s\<lparr>sv_loading := True, sv_fetches := sv_fetches s @ [shop_query (sv_params s) (sv_page s)]\<rparr>"

definition shop_opened :: "(string \<times> string) list \<Rightarrow> shop_view" where
  "shop_opened ps = fetchProducts \<lparr>sv_params = ps, sv_page = 1, sv_shown = None, sv_loading = True, sv_fetches = [],
     sv_min = param ps ''minPrice'', sv_max = param ps ''maxPrice''\<rparr>"

definition setPage :: "int \<Rightarrow> shop_view \<Rightarrow> shop_view" where
  "setPage n s = (if n = sv_page s then s else fetchProducts (s\<lparr>sv_page := n\<rparr>))"

text \<open>A new URL: when a filter changed, the products are fetched with the old page number, and the effect that
  goes back to the first page fetches again if it was another.\<close>

definition setSearchParams :: "(string \<times> string) list \<Rightarrow> shop_view \<Rightarrow> shop_view" where
  "setSearchParams ps s = (let t = s\<lparr>sv_params := ps\<rparr> in
     if shop_filters ps = shop_filters (sv_params s) then t else setPage 1 (fetchProducts t))"

definition put_param :: "string \<Rightarrow> string \<Rightarrow> (string \<times> string) list \<Rightarrow> (string \<times> string) list" where
  "put_param k v ps = (if v = [] then ddel k ps else dput k v ps)"

definition setParam :: "string \<Rightarrow> string \<Rightarrow> shop_view \<Rightarrow> shop_view" where
  "setParam k v s = setSearchParams (put_param k v (sv_params s)) s"

definition applyPriceFilter :: "shop_view \<Rightarrow> shop_view" where
  "applyPriceFilter s = setSearchParams (put_param ''maxPrice'' (sv_max s) (put_param ''minPrice'' (sv_min s) (sv_params s))) s"

definition clearAllFilters :: "shop_view \<Rightarrow> shop_view" where
  "clearAllFilters s = setSearchParams [] (s\<lparr>sv_min := [], sv_max := []\<rparr>)"

definition hasFilters :: "shop_view \<Rightarrow> bool" where
  "hasFilters s \<longleftrightarrow> list_ex (\<lambda>k. param (sv_params s) k \<noteq> [])
     [''category'', ''search'', ''minPrice'', ''maxPrice'', ''rating'', ''newArrival'']"

definition shop_answered :: "card list \<Rightarrow> shop_view \<Rightarrow> shop_view" where
  "shop_answered products s = (case sv_fetches s of [] \<Rightarrow> s
     | q # qs \<Rightarrow> s\<lparr>sv_shown := Some (getAll products q), sv_loading := False, sv_fetches := qs\<rparr>)"

inductive shop_step :: "card list \<Rightarrow> shop_view \<Rightarrow> shop_view \<Rightarrow> bool" for products :: "card list" where
  filters: "shop_step products s (setParam k v s)"
| prices: "shop_step products s (applyPriceFilter s)"
| drafts: "shop_step products s (s\<lparr>sv_min := a, sv_max := b\<rparr>)"
| clears: "shop_step products s (clearAllFilters s)"
| navigates: "shop_step products s (setSearchParams ps s)"
| pages: "n \<in> set (page_numbers (case sv_shown s of None \<Rightarrow> 1 | Some pg \<Rightarrow> cp_pages pg)) \<Longrightarrow> shop_step products s (setPage n s)"
| retries: "shop_step products s (fetchProducts s)"
| answers: "shop_step products s (shop_answered products s)"

inductive shop_reach :: "card list \<Rightarrow> shop_view \<Rightarrow> bool" for products :: "card list" where
  shop_opens: "shop_reach products (shop_opened ps)"
| next_shop: "shop_reach products s \<Longrightarrow> shop_step products s t \<Longrightarrow> shop_reach products t"

section \<open>The whole catalogue\<close>

text \<open>Requests under way with their search and whether their answer is still wanted.\<close>

record all_view =
  av_search :: string
  av_products :: "card list"
  av_loading :: bool
  av_fetches :: "(string \<times> bool) list"

definition all_opened :: "string \<Rightarrow> all_view" where
  "all_opened search = \<lparr>av_search = search, av_products = [], av_loading = True, av_fetches = [(search, True)]\<rparr>"

text \<open>A new search ends the life of the requests before.\<close>

definition searched :: "string \<Rightarrow> all_view \<Rightarrow> all_view" where
  "searched search s = (if search = av_search s then s
     else s\<lparr>av_search := search, av_loading := True, av_fetches := map (\<lambda>(w, l). (w, False)) (av_fetches s) @ [(search, True)]\<rparr>)"

definition all_answered :: "(string \<Rightarrow> card list) \<Rightarrow> nat \<Rightarrow> all_view \<Rightarrow> all_view" where
  "all_answered found i s = (let t = s\<lparr>av_fetches := take i (av_fetches s) @ drop (Suc i) (av_fetches s)\<rparr> in
     if snd (av_fetches s ! i) then t\<lparr>av_products := found (fst (av_fetches s ! i)), av_loading := False\<rparr> else t)"

inductive all_reach :: "(string \<Rightarrow> card list) \<Rightarrow> all_view \<Rightarrow> bool" for found :: "string \<Rightarrow> card list" where
  all_opens: "all_reach found (all_opened search)"
| all_searches: "all_reach found s \<Longrightarrow> all_reach found (searched search s)"
| all_answers: "all_reach found s \<Longrightarrow> i < length (av_fetches s) \<Longrightarrow> all_reach found (all_answered found i s)"

section \<open>The product page\<close>

definition less_one :: "int \<Rightarrow> int" where "less_one q = max 1 (q - 1)"

definition one_more :: "int \<Rightarrow> int \<Rightarrow> int" where "one_more stock q = min stock (q + 1)"

text \<open>\<open>handleSubmitReview\<close>: what it says instead of sending the review.\<close>

definition review_refused :: "jval \<Rightarrow> string \<Rightarrow> string option" where
  "review_refused user comment = (if \<not> truthy user then Some ''Sign in to leave a review''
     else if trim comment = [] then Some ''Please write a comment'' else None)"

section \<open>Signing in\<close>

record auth_form =
  af_name :: string
  af_email :: string
  af_password :: string
  af_confirm :: string

definition auth_errors :: "bool \<Rightarrow> auth_form \<Rightarrow> (string \<times> string) list" where
  "auth_errors isRegister f = (if isRegister \<and> trim (af_name f) = [] then [(''name'', ''Name is required'')] else []) @
     (if length (af_password f) < 6 then [(''password'', ''Password must be at least 6 characters'')] else []) @
     (if isRegister \<and> af_password f \<noteq> af_confirm f then [(''confirm'', ''Passwords do not match'')] else [])"

section \<open>The product form of the administration\<close>

record product_form =
  pf_name :: string
  pf_slug :: string
  pf_price :: string
  pf_original :: string
  pf_stock :: string
  pf_images :: string
  pf_tags :: string

record product_payload =
  pp_name :: string
  pp_slug :: string
  pp_price :: jnum
  pp_original :: "jnum option"
  pp_stock :: jnum
  pp_images :: "string list"
  pp_tags :: "string list"

text \<open>\<open>replace(/\s+/g, '-')\<close>: one dash for a run of spaces.\<close>

fun dashed :: "string \<Rightarrow> string" where
  "dashed [] = []"
| "dashed (c # t) = (if is_space c then (case t of [] \<Rightarrow> ''-'' | d # r \<Rightarrow> if is_space d then dashed t else CHR ''-'' # dashed t)
     else c # dashed t)"

definition slug_char :: "char \<Rightarrow> bool" where
  "slug_char c \<longleftrightarrow> c \<in> set ''abcdefghijklmnopqrstuvwxyz0123456789-''"

definition slug_of :: "string \<Rightarrow> string" where
  "slug_of name = filter slug_char (dashed (to_lower name))"

definition comma_list :: "string \<Rightarrow> string list" where
  "comma_list t = filter (\<lambda>s. s \<noteq> []) (map trim (split_on (CHR '','') t))"

definition product_payload :: "product_form \<Rightarrow> product_payload" where
  "product_payload f = \<lparr>pp_name = pf_name f, pp_slug = (if pf_slug f = [] then slug_of (pf_name f) else pf_slug f),
     pp_price = parse_float (pf_price f), pp_original = (if pf_original f = [] then None else Some (parse_float (pf_original f))),
     pp_stock = parse_int (pf_stock f), pp_images = comma_list (pf_images f), pp_tags = comma_list (pf_tags f)\<rparr>"

section \<open>The wish list and the search of the navigation bar\<close>

text \<open>What the context keeps of an answer: the ids of the cards, or of the list a toggle returns.\<close>

definition wishlist_loaded :: "jval \<Rightarrow> jserr + card list \<Rightarrow> string list \<Rightarrow> string list" where
  "wishlist_loaded user r shown = (if \<not> truthy user then [] else case r of Inl e \<Rightarrow> shown | Inr cards \<Rightarrow> map cd_id cards)"

definition wishlist_toggled :: "jval \<Rightarrow> jserr + jval list \<Rightarrow> string list \<Rightarrow> string list \<times> bool" where
  "wishlist_toggled user r shown = (if \<not> truthy user then (shown, False) else case r of Inl e \<Rightarrow> (shown, False) | Inr ids \<Rightarrow> (map to_str ids, True))"

definition isWishlisted :: "string \<Rightarrow> string list \<Rightarrow> bool" where
  "isWishlisted i shown \<longleftrightarrow> i \<in> set shown"

text \<open>\<open>useDebounce\<close>: the value, what is shown of it and the milliseconds left of the timer, none when it is over.\<close>

record debounce =
  db_value :: string
  db_debounced :: string
  db_left :: "nat option"

definition debounce_start :: "string \<Rightarrow> debounce" where
  "debounce_start v = \<lparr>db_value = v, db_debounced = v, db_left = Some 400\<rparr>"

definition debounce_typed :: "string \<Rightarrow> debounce \<Rightarrow> debounce" where
  "debounce_typed v s = (if v = db_value s then s else s\<lparr>db_value := v, db_left := Some 400\<rparr>)"

definition debounce_wait :: "nat \<Rightarrow> debounce \<Rightarrow> debounce" where
  "debounce_wait ms s = (case db_left s of None \<Rightarrow> s
     | Some n \<Rightarrow> if n \<le> ms then s\<lparr>db_debounced := db_value s, db_left := None\<rparr> else s\<lparr>db_left := Some (n - ms)\<rparr>)"

definition search_target :: "(string \<Rightarrow> string) \<Rightarrow> string \<Rightarrow> string option" where
  "search_target encodeURIComponent v = (if trim v = [] then None else Some (''/shop?search='' @ encodeURIComponent (trim v)))"

section \<open>The pages show what was asked for\<close>

definition shop_ok :: "card list \<Rightarrow> shop_view \<Rightarrow> bool" where
  "shop_ok products s \<longleftrightarrow> (let q = shop_query (sv_params s) (sv_page s) in
     if sv_fetches s = [] then sv_shown s = Some (getAll products q) \<and> \<not> sv_loading s else last (sv_fetches s) = q)"

lemma fetch_ok [intro]: "shop_ok products (fetchProducts s)"
  by (simp add: shop_ok_def fetchProducts_def)

lemma query_of_shop_filters: "shop_filters ps = shop_filters qs \<Longrightarrow> shop_query ps n = shop_query qs n"
  by (simp add: shop_filters_def shop_query_def)

lemma setSearchParams_ok:
  assumes "shop_ok products s"
  shows "shop_ok products (setSearchParams ps s)"
proof (cases "shop_filters ps = shop_filters (sv_params s)")
  case True
  then show ?thesis using assms query_of_shop_filters [OF True] by (simp add: setSearchParams_def shop_ok_def Let_def)
next
  case False
  then show ?thesis by (auto simp: setSearchParams_def setPage_def Let_def)
qed

lemma drafts_ok: "shop_ok products s \<Longrightarrow> shop_ok products (s\<lparr>sv_min := a, sv_max := b\<rparr>)"
  by (simp add: shop_ok_def Let_def)

lemma answered_ok: "shop_ok products s \<Longrightarrow> shop_ok products (shop_answered products s)"
  by (auto simp: shop_ok_def shop_answered_def Let_def split: list.splits if_splits)

lemma shop_step_ok: "shop_step products s t \<Longrightarrow> shop_ok products s \<Longrightarrow> shop_ok products t"
  by (induction rule: shop_step.induct)
     (auto simp: setParam_def applyPriceFilter_def clearAllFilters_def setPage_def
       intro!: setSearchParams_ok drafts_ok answered_ok)

lemma shop_reach_ok: "shop_reach products s \<Longrightarrow> shop_ok products s"
  by (induction rule: shop_reach.induct) (auto simp: shop_opened_def intro: shop_step_ok)

text \<open>The whole catalogue: at most one request is wanted, for the search of the URL, and only while loading.\<close>

definition view_ok :: "(string \<Rightarrow> card list) \<Rightarrow> all_view \<Rightarrow> bool" where
  "view_ok found s \<longleftrightarrow> list_all (\<lambda>(w, live). live \<longrightarrow> w = av_search s \<and> av_loading s) (av_fetches s) \<and>
     (if av_loading s then length (filter snd (av_fetches s)) = 1 else av_products s = found (av_search s))"

lemma searched_ok: "view_ok found s \<Longrightarrow> view_ok found (searched search s)"
  by (auto simp: view_ok_def searched_def list_all_iff filter_empty_conv)

lemma filter_without: "i < length xs \<Longrightarrow> length (filter P (take i xs @ drop (Suc i) xs)) + (if P (xs ! i) then 1 else 0) = length (filter P xs)"
  by (subst (4) id_take_nth_drop [of i xs]) auto

lemma no_snd: "length (filter snd xs) = 0 \<Longrightarrow> (w, True) \<notin> set xs"
  by (auto simp: filter_empty_conv)

lemma all_answered_ok:
  assumes "view_ok found s" "i < length (av_fetches s)"
  shows "view_ok found (all_answered found i s)"
proof -
  obtain w live where e: "av_fetches s ! i = (w, live)" by fastforce
  let ?rest = "take i (av_fetches s) @ drop (Suc i) (av_fetches s)"
  have sub: "set ?rest \<subseteq> set (av_fetches s)" by (auto dest: in_set_takeD in_set_dropD)
  have n: "length (filter snd ?rest) + (if live then 1 else 0) = length (filter snd (av_fetches s))"
    using filter_without [OF assms(2), of snd] e by simp
  have mem: "(w, live) \<in> set (av_fetches s)" using assms(2) e nth_mem by metis
  show ?thesis
  proof (cases live)
    case True
    with assms(1) mem have w: "w = av_search s" "av_loading s" by (auto simp: view_ok_def list_all_iff)
    with assms(1) n True have "length (filter snd ?rest) = 0" by (simp add: view_ok_def)
    then have "list_all (\<lambda>(w, live). \<not> live) ?rest" using no_snd [of ?rest] by (auto simp: list_all_iff)
    then show ?thesis using True e w by (auto simp: view_ok_def all_answered_def Let_def list_all_iff)
  next
    case False
    then show ?thesis using assms(1) e n sub by (auto simp: view_ok_def all_answered_def Let_def list_all_iff)
  qed
qed

lemma all_reach_ok: "all_reach found s \<Longrightarrow> view_ok found s"
proof (induction rule: all_reach.induct)
  case (all_opens search)
  then show ?case by (simp add: all_opened_def view_ok_def)
qed (auto intro: searched_ok all_answered_ok)

text \<open>Property C35. Whatever filters, prices, pages and addresses are chosen and in whatever order the backend
  answers: the last request of the shop under way is that of the URL and the page number, and when
  none is, the page shows the answer to it; the page of the whole catalogue, when it has stopped loading,
  shows the answer to the search of its URL, never that of an earlier search.\<close>

theorem pages_show_what_was_asked:
  assumes "shop_reach products s" "all_reach found a"
  shows "(if sv_fetches s = [] then sv_shown s = Some (getAll products (shop_query (sv_params s) (sv_page s)))
      else last (sv_fetches s) = shop_query (sv_params s) (sv_page s)) \<and>
    (if av_loading a then length (filter snd (av_fetches a)) = 1 else av_products a = found (av_search a))"
  using shop_reach_ok [OF assms(1)] all_reach_ok [OF assms(2)] by (auto simp: shop_ok_def view_ok_def Let_def split: if_splits)

text \<open>The second filter is set while the first answer is awaited; of two searches the later is answered first.\<close>

definition filtered_shop :: shop_view where
  "filtered_shop = shop_answered [] (shop_answered [] (setParam ''category'' ''Books'' (shop_opened [])))"

definition searched_twice :: "(string \<Rightarrow> card list) \<Rightarrow> all_view" where
  "searched_twice found = all_answered found 0 (all_answered found 1 (searched ''b'' (all_opened ''a'')))"

lemma pages_show_what_was_asked_witness:
  "sv_fetches filtered_shop = [] \<and> param (sv_params filtered_shop) ''category'' = ''Books'' \<and>
   sv_shown filtered_shop = Some (getAll [] (shop_query (sv_params filtered_shop) (sv_page filtered_shop))) \<and>
   \<not> av_loading (searched_twice (\<lambda>w. [])) \<and> av_products (searched_twice (\<lambda>w. [])) = []"
proof -
  have s: "shop_reach [] filtered_shop"
    unfolding filtered_shop_def by (intro next_shop [OF _ answers] next_shop [OF _ filters] shop_opens)
  have "1 < length (av_fetches (searched ''b'' (all_opened ''a'')))" by (simp add: searched_def all_opened_def)
  moreover have "0 < length (av_fetches (all_answered (\<lambda>w. []) 1 (searched ''b'' (all_opened ''a''))))"
    by (simp add: searched_def all_opened_def all_answered_def Let_def)
  ultimately have a: "all_reach (\<lambda>w. []) (searched_twice (\<lambda>w. []))"
    unfolding searched_twice_def by (intro all_answers all_searches all_opens)
  have e: "sv_fetches filtered_shop = []" "param (sv_params filtered_shop) ''category'' = ''Books''" "\<not> av_loading (searched_twice (\<lambda>w. []))"
    by (simp_all add: filtered_shop_def shop_opened_def fetchProducts_def setParam_def put_param_def setSearchParams_def shop_filters_def sort_of_def
      param_def setPage_def shop_answered_def searched_twice_def searched_def all_opened_def all_answered_def Let_def dget_Cons)
  show ?thesis using e pages_show_what_was_asked [OF s a] by simp
qed

text \<open>What the product form makes up: a slug of small letters, digits and dashes.\<close>

lemma slug_shape: "list_all slug_char (slug_of name)"
  by (simp add: slug_of_def list_all_iff)

lemma slug_example: "slug_of ''Trail  Runner (2nd) X''  = ''trail-runner-2nd-x''"
  by code_simp

text \<open>The quantity of the product page, from one, stays between one and the stock.\<close>

lemma quantity_bounds:
  assumes "1 \<le> stock" "1 \<le> q" "q \<le> stock"
  shows "1 \<le> less_one q \<and> less_one q \<le> stock \<and> 1 \<le> one_more stock q \<and> one_more stock q \<le> stock"
  using assms by (simp add: less_one_def one_more_def)

text \<open>A toggle turns the mark of the product over.\<close>

lemma toggle_turns_over:
  assumes "distinct xs" "list_all (\<lambda>x. \<exists>w. x = JStr w) xs" "truthy user"
  shows "isWishlisted i (fst (wishlist_toggled user (Inr (toggled i xs)) shown)) \<longleftrightarrow> JStr i \<notin> set xs"
proof -
  have strs: "\<exists>w. x = JStr w" if "x \<in> set (toggled i xs)" for x
    using that assms(2) by (auto simp: toggled_def list_all_iff dest: notin_set_remove1 split: if_splits)
  then have "i \<in> to_str ` set (toggled i xs) \<longleftrightarrow> JStr i \<in> set (toggled i xs)"
    by (force simp: image_iff)
  moreover have "JStr i \<in> set (toggled i xs) \<longleftrightarrow> JStr i \<notin> set xs" using assms(1) by (simp add: toggled_def)
  ultimately show ?thesis using assms(3) by (simp add: isWishlisted_def wishlist_toggled_def)
qed

text \<open>The search follows what is typed once nothing is typed for 400 milliseconds, and not before.\<close>

definition debounce_ok :: "debounce \<Rightarrow> bool" where
  "debounce_ok s \<longleftrightarrow> (case db_left s of None \<Rightarrow> db_debounced s = db_value s | Some n \<Rightarrow> 0 < n \<and> n \<le> 400)"

lemma debounce_keeps:
  "debounce_ok (debounce_start v)"
  "debounce_ok s \<Longrightarrow> debounce_ok (debounce_typed v s)"
  "debounce_ok s \<Longrightarrow> debounce_ok (debounce_wait ms s)"
  by (auto simp: debounce_ok_def debounce_start_def debounce_typed_def debounce_wait_def split: option.splits)

lemma debounce_settles:
  "debounce_ok s \<Longrightarrow> 400 \<le> sum_list ws \<Longrightarrow> db_debounced (fold debounce_wait ws s) = db_value s"
proof -
  have "debounce_ok s \<Longrightarrow> (case db_left s of None \<Rightarrow> 0 | Some n \<Rightarrow> n) \<le> sum_list ws \<Longrightarrow> db_debounced (fold debounce_wait ws s) = db_value s" for s
  proof (induction ws arbitrary: s)
    case Nil
    then show ?case by (auto simp: debounce_ok_def split: option.splits)
  next
    case (Cons w ws)
    have "db_value (debounce_wait w s) = db_value s" by (simp add: debounce_wait_def split: option.splits)
    moreover have "(case db_left (debounce_wait w s) of None \<Rightarrow> 0 | Some n \<Rightarrow> n) \<le> sum_list ws"
      using Cons.prems(2) by (auto simp: debounce_wait_def split: option.splits)
    ultimately show ?case using Cons.IH [of "debounce_wait w s"] debounce_keeps(3) [OF Cons.prems(1)] by simp
  qed
  then show "debounce_ok s \<Longrightarrow> 400 \<le> sum_list ws \<Longrightarrow> ?thesis"
    by (force simp: debounce_ok_def split: option.splits)
qed

lemma typing_is_not_searched: "db_debounced (debounce_typed v s) = db_debounced s"
  by (simp add: debounce_typed_def)

end
