(* ===== verification/Spec2Isabelle.thy ===== *)
theory Spec2Isabelle
  imports DesktopStatus Export EventsPage AdaptivePage ShopData Storefront ProtectionPage ConsoleDialogs ConsoleViews StorePages
begin

text \<open>
  The JavaScript of the Intelligent API Security Gateway.

  The program. A gateway (Go, \<open>src/gateway\<close>) stands before a web service and publishes what it sees and
  does to Redis; a decision engine (Python, \<open>src/decision-engine\<close>) groups the events into campaigns,
  learns baselines and writes policies and recommendations. Three programs are JavaScript, and are what
  is modelled here: the console (\<open>src/gateway-dashboard\<close>: libraries in \<open>lib\<close>, HTTP routes in \<open>app/api\<close>,
  React pages in \<open>app/(console)\<close> and \<open>app/ui\<close>), which reads the streams and keys of the other two, keeps
  settings in Redis and Postgres and sends instructions back; the desktop launcher (\<open>src/desktop\<close>), which
  starts, updates and watches the containers; and the demo shop (\<open>src/vulnerable-app\<close>), an Express
  backend and a React storefront whose planted weaknesses the gateway is demonstrated on. They meet only
  through Redis, Postgres, HTTP and Docker: what those hold and answer is an input of the model.

  Ground. \<open>Prelude\<close> has the rewrite collections, early-return chains (\<open>first_err\<close>), dictionaries in insertion
  order (locale \<open>dictionary\<close>, interpreted on \<open>dput\<close>, \<open>dget\<close>), and stable sorting by a preference (locale
  \<open>preference\<close>, interpreted on every comparison the code sorts by). \<open>Regex\<close> decides the anchored regular
  expressions by derivatives. \<open>JsNumber\<close> and \<open>JsValue\<close> are numbers (binary64 values as rationals, NaN and
  infinities apart, every operation rounded), values, objects and strings of the language; \<open>JsText\<close> and
  \<open>JsDate\<close> are parsing of numbers, what \<open>JSON.stringify\<close> keeps, slices and instants; \<open>Net\<close> is \<open>node:net\<close>.
  \<open>Effects\<close> is a tree of questions to services with run, commands sent, and execution against a state;
  \<open>Services\<close> names the commands of Redis, Postgres, \<open>fetch\<close>, clock and random source and has the locale
  \<open>protocol\<close>: a discipline of commands whose facts hold of every run of a program that follows it,
  interpreted on the transaction discipline and, in \<open>RoutesAdmin\<close>, on the watermark of clearing.

  Console libraries. \<open>GatewaySettings\<close> is \<open>lib/gateway-settings.mjs\<close>: the sections, \<open>splitSettings\<close> and
  \<open>validateSettings\<close>, proved equal to a declarative specification. \<open>Telemetry\<close> is \<open>lib/telemetry.js\<close> and
  most of \<open>app/ui/format.js\<close>. \<open>Stores\<close> is \<open>lib/postgres.js\<close> (all-or-nothing clearing) and \<open>lib/redis.js\<close>
  (the shared client as a step relation). \<open>Geo\<close> is \<open>lib/geo.js\<close>: private ranges exactly, and what a look-up
  sends to the third party. \<open>Adaptive\<close> is \<open>lib/adaptive.js\<close>, \<open>adaptive-mode.mjs\<close>, \<open>adaptive-config.mjs\<close>: validation
  against its specification, and which edits of recommendations pass. \<open>Plane\<close> is \<open>lib/plane.js\<close>, the readers
  of the decision engine's keys. \<open>SetupChecks\<close> is \<open>lib/setup-checks.mjs\<close>.

  Console routes. \<open>RoutesAdmin\<close>: settings, reset, clear-campaigns, health. \<open>RoutesAdaptive\<close>: the adaptive
  configuration as compare-and-set on its version, recommendations, overrides and lifting policies.
  \<open>RoutesRead\<close>: overview, events with cursors, one address, history, campaigns. A handler is the whole
  program of the route; its theorems quantify over every answer of the services, or run it against a
  database with serial transactions or a stream.

  Console pages. \<open>ConsoleStore\<close> is \<open>app/ui/store.jsx\<close>: polls and instructions under way as a list of
  requests that end in any order. \<open>EventsPage\<close>, \<open>AdaptivePage\<close> and \<open>ProtectionPage\<close> are the pages with state of
  their own: what can be pressed, what is sent, what an answer changes. The last two are composed with the
  routes: a save agrees with the stored row, and a form entry is savable exactly when the validator takes
  it. \<open>ConsoleDialogs\<close> is \<open>app/ui/chrome.jsx\<close> and \<open>setup-warnings.jsx\<close>; \<open>ConsolePages\<close> what policy, campaigns,
  history, overview and address pages compute; \<open>ConsoleViews\<close> the clock, the request table and dialog, and
  the map's shared atlas; \<open>Export\<close> is \<open>app/ui/export.js\<close>, CSV with its reading back.

  Launcher. \<open>Desktop\<close> is \<open>src/desktop/main.js\<close>: versions, staged updates, probes, boot and quitting as steps
  between awaits. \<open>DesktopStatus\<close> is \<open>status.js\<close>, the page that follows the launcher.

  Demo shop. \<open>ShopBackend\<close> is login, tokens, orders, products and the demo files of \<open>backend/routes\<close>;
  \<open>ShopData\<close> is \<open>backend/db.js\<close>, \<open>data\<close> and the table of routes of \<open>server.js\<close>. \<open>ShopApi\<close> is \<open>src/services/api.js\<close>,
  \<open>Storefront\<close> the session, the cart and the checkout, \<open>StorePages\<close> the shop, the catalogue, product, sign-in and
  administration pages. Storefront and backend are composed: what the page shows is what is charged, and
  who logged in is who the backend sees.

  How state and time are modelled. A handler is a tree of commands; a component with state is a record
  with one function per event, and, where events interleave, an inductive relation of its reachable states.
  Everything between two awaits is one step. Requests under way are lists in the state, so an answer may
  come at any time and in any order, or never. Errors are values (\<open>jserr\<close>, a sum, an option); a rejection
  of a service is an answer like any other.

  Bounds. A decimal exponent is searched in 340 steps, enough for every binary64 value (\<open>JsValue\<close>). An
  events request reads at most 8 batches, the code's own bound (\<open>MAX_SCAN_BATCHES\<close>); the property of the
  page shows that it still reaches everything by its cursor. The launcher's wait is a partial function
  proved to return within 150 turns when sleeping takes time. Recursions on regular expressions, addresses
  and texts are structural or have their measure. The hash of \<open>traffic-map.jsx\<close> is a word of 32 bits.

  Parameters. \<open>JSON.parse\<close> and \<open>JSON.stringify\<close> as text, the HMAC and base64url of tokens, \<open>localeCompare\<close>,
  \<open>toLocaleString\<close>, \<open>Date.parse\<close>, \<open>encodeURIComponent\<close>, the clock and random source are arguments; where a
  theorem needs a law of one (parsing undoes stringifying, an HMAC differs for different texts), it is a
  hypothesis of that theorem, with a witness at a concrete function. Characters are Latin-1; the dash
  U+2014 and the ellipsis U+2026 of messages are written with ASCII characters.

  What is shown: exactness of the two validators, of private ranges and of guardrails; that settings,
  approvals, resets and clears change only what they may, in one transaction, and report what became
  durable; that reading routes only read and their pages cover the stream; that look-ups send public
  addresses only; that the console's and the launcher's states keep their invariants under every
  interleaving and come to rest; that exports, tokens, dismissed warnings and logins round-trip; that the
  cart, the checkout and the orders agree between page and backend. Where the code does not do what it
  means to, a lemma shows the run: among them \<open>lost_answer_freezes\<close>, \<open>new_line_is_lost\<close> (\<open>AdaptivePage\<close>),
  \<open>second_change_reported_as_rejected\<close> (\<open>ProtectionPage\<close>), \<open>half_a_reset_is_good\<close> (\<open>ConsoleDialogs\<close>),
  \<open>no_expiry_is_first\<close> (\<open>ConsolePages\<close>), \<open>foreign_review_blocks\<close> (\<open>ShopApi\<close>) and
  \<open>registration_lost_on_reload\<close> (\<open>Storefront\<close>).

  Not modelled. The Go gateway and the Python engine, which are other languages. Markup, styles, icons,
  the drawing of the map (d3) and of snapshots; navigation and the table of routes of the storefront; the
  pages that only show an answer (\<open>Home.jsx\<close>, \<open>Orders.jsx\<close>, \<open>Wishlist.jsx\<close>, \<open>ProductCard.jsx\<close>, the footer); the mock
  catalogue, which is an argument; the timers before mock answers; Express, its CORS and body parsing; the
  preload bridge, which only names channels; tests, configuration and load scripts.
\<close>

end
